(* ===== verification/Go_Regexp.thy ===== *)
theory Go_Regexp
  imports Prelude
begin

text \<open>
  The part of Go's \<open>regexp\<close> that the redaction patterns and the hook matchers use: a syntax tree and
  a backtracking matcher whose list of matches is in priority order, so that its head is the
  leftmost-first match that the library returns. Text is a list of bytes, written as integers
  (\<open>to_bytes\<close>, \<open>of_bytes\<close> convert a string); a character class reads one rune, decoded as
  \<open>utf8.DecodeRuneInString\<close> does. Patterns are given as trees: parsing pattern text
  is not modelled.
\<close>

section \<open>Runes\<close>

type_synonym bytes = "int list"

definition to_bytes :: "string \<Rightarrow> bytes" where
  "to_bytes s = map of_char s"

definition of_bytes :: "bytes \<Rightarrow> string" where
  "of_bytes bs = map char_of bs"

lemma of_to_bytes [simp]: "of_bytes (to_bytes s) = s"
  by (induction s) (simp_all add: of_bytes_def to_bytes_def)

lemma to_bytes_append [simp]: "to_bytes (s @ t) = to_bytes s @ to_bytes t"
  by (simp add: to_bytes_def)

lemma of_bytes_append [simp]: "of_bytes (s @ t) = of_bytes s @ of_bytes t"
  by (simp add: of_bytes_def)

definition cont :: "int \<Rightarrow> bool" where
  "cont b \<longleftrightarrow> 128 \<le> b \<and> b \<le> 191"

definition second_ok :: "int \<Rightarrow> int \<Rightarrow> bool" where
  "second_ok b0 b1 =
     (if b0 = 224 then 160 \<le> b1 \<and> b1 \<le> 191
      else if b0 = 237 then 128 \<le> b1 \<and> b1 \<le> 159
      else if b0 = 240 then 144 \<le> b1 \<and> b1 \<le> 191
      else if b0 = 244 then 128 \<le> b1 \<and> b1 \<le> 143
      else cont b1)"

definition rune2 :: "int \<Rightarrow> int \<Rightarrow> (int \<times> nat)" where
  "rune2 b0 b1 = (if second_ok b0 b1 then ((b0 - 192) * 64 + (b1 - 128), 2) else (65533, 1))"

definition rune3 :: "int \<Rightarrow> int \<Rightarrow> int \<Rightarrow> (int \<times> nat)" where
  "rune3 b0 b1 b2 = (if second_ok b0 b1 \<and> cont b2
     then ((b0 - 224) * 4096 + (b1 - 128) * 64 + (b2 - 128), 3) else (65533, 1))"

definition rune4 :: "int \<Rightarrow> int \<Rightarrow> int \<Rightarrow> int \<Rightarrow> (int \<times> nat)" where
  "rune4 b0 b1 b2 b3 = (if second_ok b0 b1 \<and> cont b2 \<and> cont b3
     then ((b0 - 240) * 262144 + (b1 - 128) * 4096 + (b2 - 128) * 64 + (b3 - 128), 4) else (65533, 1))"

text \<open>The first rune of a string and its width in bytes.\<close>

definition next_rune :: "bytes \<Rightarrow> (int \<times> nat) option" where
  "next_rune s = (case s of
     [] \<Rightarrow> None
   | b0 # r \<Rightarrow>
       if b0 < 128 then Some (b0, 1)
       else if 194 \<le> b0 \<and> b0 \<le> 223 then
         Some (case r of b # _ \<Rightarrow> rune2 b0 b | [] \<Rightarrow> (65533, 1))
       else if 224 \<le> b0 \<and> b0 \<le> 239 then
         Some (case r of b # c # _ \<Rightarrow> rune3 b0 b c | _ \<Rightarrow> (65533, 1))
       else if 240 \<le> b0 \<and> b0 \<le> 244 then
         Some (case r of b # c # d # _ \<Rightarrow> rune4 b0 b c d | _ \<Rightarrow> (65533, 1))
       else Some (65533, 1))"

lemma next_rune_ascii [simp]: "a < 128 \<Longrightarrow> next_rune (a # r) = Some (a, 1)"
  by (simp add: next_rune_def)

lemma next_rune_Nil [simp]: "next_rune [] = None"
  by (simp add: next_rune_def)

lemma next_rune_width: "next_rune s = Some (r, w) \<Longrightarrow> 1 \<le> w \<and> w \<le> length s"
  by (auto simp: next_rune_def rune2_def rune3_def rune4_def Let_def split: list.splits if_splits)

section \<open>Patterns and the matcher\<close>

datatype regexp =
    REmpty
  | RSet bool "(int \<times> int) list"   \<comment> \<open>negated?, ranges of runes\<close>
  | RWordB                           \<comment> \<open>\<open>\b\<close>\<close>
  | RBegin                           \<comment> \<open>\<open>^\<close> without \<open>(?m)\<close>\<close>
  | REnd                             \<comment> \<open>\<open>$\<close> without \<open>(?m)\<close>\<close>
  | RSeq regexp regexp
  | RAlt regexp regexp
  | RRep bool nat "nat option" regexp  \<comment> \<open>greedy?, least and greatest number of times\<close>
  | RCap nat regexp

text \<open>A matcher state: the byte before the position, the text from it, the captured groups.\<close>

type_synonym mstate = "int option \<times> bytes \<times> (nat \<times> bytes) list"

definition in_set :: "bool \<Rightarrow> (int \<times> int) list \<Rightarrow> int \<Rightarrow> bool" where
  "in_set neg rs r = (neg \<noteq> list_ex (\<lambda>(lo, hi). lo \<le> r \<and> r \<le> hi) rs)"

definition word_byte :: "int \<Rightarrow> bool" where
  "word_byte b \<longleftrightarrow> 48 \<le> b \<and> b \<le> 57 \<or> 65 \<le> b \<and> b \<le> 90 \<or> b = 95 \<or> 97 \<le> b \<and> b \<le> 122"

definition word_opt :: "int option \<Rightarrow> bool" where
  "word_opt p = (case p of None \<Rightarrow> False | Some b \<Rightarrow> word_byte b)"

fun head_opt :: "'a list \<Rightarrow> 'a option" where
  "head_opt [] = None"
| "head_opt (x # xs) = Some x"

fun step_set :: "bool \<Rightarrow> (int \<times> int) list \<Rightarrow> mstate \<Rightarrow> mstate list" where
  "step_set neg rs (p, s, c) = (case next_rune s of
     None \<Rightarrow> []
   | Some (r, w) \<Rightarrow> if in_set neg rs r then [(Some (s ! (w - 1)), drop w s, c)] else [])"

fun times_m :: "nat \<Rightarrow> (mstate \<Rightarrow> mstate list) \<Rightarrow> mstate \<Rightarrow> mstate list" where
  "times_m 0 m x = [x]"
| "times_m (Suc n) m x = concat (map (times_m n m) (m x))"

fun upto_m :: "nat \<Rightarrow> bool \<Rightarrow> (mstate \<Rightarrow> mstate list) \<Rightarrow> mstate \<Rightarrow> mstate list" where
  "upto_m 0 g m x = [x]"
| "upto_m (Suc n) g m x =
     (let more = concat (map (upto_m n g m) (m x)) in if g then more @ [x] else x # more)"

definition rest_len :: "mstate \<Rightarrow> nat" where
  "rest_len x = length (fst (snd x))"

text \<open>
  Unbounded repetition: an iteration that consumes nothing is not repeated, so as many rounds as
  there are bytes left are enough.
\<close>

fun star_m :: "nat \<Rightarrow> bool \<Rightarrow> (mstate \<Rightarrow> mstate list) \<Rightarrow> mstate \<Rightarrow> mstate list" where
  "star_m 0 g m x = [x]"
| "star_m (Suc n) g m x =
     (let more = concat (map (star_m n g m) (filter (\<lambda>y. rest_len y < rest_len x) (m x)))
      in if g then more @ [x] else x # more)"

definition rep_m :: "bool \<Rightarrow> nat \<Rightarrow> nat option \<Rightarrow> (mstate \<Rightarrow> mstate list) \<Rightarrow> mstate \<Rightarrow> mstate list" where
  "rep_m g lo hi m x = concat (map (\<lambda>y. case hi of
       None \<Rightarrow> star_m (rest_len y) g m y
     | Some h \<Rightarrow> upto_m (h - lo) g m y) (times_m lo m x))"

primrec matches :: "regexp \<Rightarrow> mstate \<Rightarrow> mstate list" where
  "matches REmpty x = [x]"
| "matches (RSet neg rs) x = step_set neg rs x"
| "matches RWordB x = (if word_opt (fst x) \<noteq> word_opt (head_opt (fst (snd x))) then [x] else [])"
| "matches RBegin x = (if fst x = None then [x] else [])"
| "matches REnd x = (if fst (snd x) = [] then [x] else [])"
| "matches (RSeq a b) x = concat (map (matches b) (matches a x))"
| "matches (RAlt a b) x = matches a x @ matches b x"
| "matches (RRep g lo hi r) x = rep_m g lo hi (matches r) x"
| "matches (RCap i r) x = map (\<lambda>(p', s', c').
     (p', s', (i, take (rest_len x - length s') (fst (snd x))) # c')) (matches r x)"

text \<open>
  The leftmost match from a position on: the text skipped, the state after the match. The search
  moves on rune by rune.
\<close>

function find_match :: "regexp \<Rightarrow> int option \<Rightarrow> bytes \<Rightarrow> (bytes \<times> mstate) option" where
  "find_match re p s = (case matches re (p, s, []) of
     x # _ \<Rightarrow> Some ([], x)
   | [] \<Rightarrow> (case next_rune s of
       None \<Rightarrow> None
     | Some (r, w) \<Rightarrow>
         map_option (\<lambda>(pre, x). (take w s @ pre, x)) (find_match re (Some (s ! (w - 1))) (drop w s))))"
  by pat_completeness auto
termination
  by (relation "measure (\<lambda>(re, p, s). length s)") (auto dest!: next_rune_width)

declare find_match.simps [simp del]

text \<open>\<open>MatchString\<close>.\<close>

definition match_string :: "regexp \<Rightarrow> string \<Rightarrow> bool" where
  "match_string re s \<longleftrightarrow> find_match re None (to_bytes s) \<noteq> None"

section \<open>ReplaceAllString\<close>

datatype piece = Lit string | Grp nat

definition expand :: "piece list \<Rightarrow> (nat \<times> bytes) list \<Rightarrow> bytes" where
  "expand ps c = concat (map (\<lambda>p. case p of
     Lit s \<Rightarrow> to_bytes s
   | Grp i \<Rightarrow> (case map_of c i of None \<Rightarrow> [] | Some t \<Rightarrow> t)) ps)"

text \<open>
  The loop of \<open>replaceAll\<close> for patterns that never match the empty string (every pattern of this
  program): text before the match, the expanded template, and on from the end of the match. Each
  round consumes at least one byte, so \<open>length s + 1\<close> rounds are enough.
\<close>

fun replace_from :: "nat \<Rightarrow> regexp \<Rightarrow> piece list \<Rightarrow> int option \<Rightarrow> bytes \<Rightarrow> bytes" where
  "replace_from 0 re t p s = s"
| "replace_from (Suc n) re t p s = (case find_match re p s of
     None \<Rightarrow> s
   | Some (pre, (p', s', c)) \<Rightarrow> pre @ expand t c @ replace_from n re t p' s')"

definition replace_all :: "regexp \<Rightarrow> piece list \<Rightarrow> bytes \<Rightarrow> bytes" where
  "replace_all re t s = replace_from (length s + 1) re t None s"

section \<open>Building patterns\<close>

definition lit_char :: "char \<Rightarrow> regexp" where
  "lit_char c = RSet False [(of_char c, of_char c)]"

definition is_lower :: "int \<Rightarrow> bool" where
  "is_lower b \<longleftrightarrow> 97 \<le> b \<and> b \<le> 122"

text \<open>A lower-case letter under \<open>(?i)\<close>: \<open>s\<close> and \<open>k\<close> also match the long s and the Kelvin sign.\<close>

definition lit_char_i :: "char \<Rightarrow> regexp" where
  "lit_char_i c = (let b = of_char c in RSet False ((b, b) #
     (if is_lower b then [(b - 32, b - 32)] else []) @
     (if b = 115 then [(383, 383)] else []) @ (if b = 107 then [(8490, 8490)] else [])))"

fun rseq :: "regexp list \<Rightarrow> regexp" where
  "rseq [] = REmpty"
| "rseq [r] = r"
| "rseq (r # rs) = RSeq r (rseq rs)"

fun ralt :: "regexp list \<Rightarrow> regexp" where
  "ralt [] = RSet False []"
| "ralt [r] = r"
| "ralt (r # rs) = RAlt r (ralt rs)"

definition rlit :: "string \<Rightarrow> regexp" where
  "rlit s = rseq (map lit_char s)"

definition rlit_i :: "string \<Rightarrow> regexp" where
  "rlit_i s = rseq (map lit_char_i s)"

definition ropt :: "regexp \<Rightarrow> regexp" where
  "ropt r = RRep True 0 (Some 1) r"

definition rstar :: "regexp \<Rightarrow> regexp" where
  "rstar r = RRep True 0 None r"

definition rplus :: "regexp \<Rightarrow> regexp" where
  "rplus r = RRep True 1 None r"

section \<open>The first match of a greedy run\<close>

text \<open>\<open>first m x y\<close>: of the matches of \<open>m\<close> from \<open>x\<close>, \<open>y\<close> comes first.\<close>

definition first :: "(mstate \<Rightarrow> mstate list) \<Rightarrow> mstate \<Rightarrow> mstate \<Rightarrow> bool" where
  "first m x y \<longleftrightarrow> (\<exists>ys. m x = y # ys)"

lemma firstI: "m x = y # ys \<Longrightarrow> first m x y"
  by (auto simp: first_def)

lemma first_concat: "xs = x # xs' \<Longrightarrow> f x = y # ys \<Longrightarrow> \<exists>zs. concat (map f xs) = y # zs"
  by simp

lemma first_seq: "first (matches a) x y \<Longrightarrow> first (matches b) y z \<Longrightarrow> first (matches (RSeq a b)) x z"
  by (auto simp: first_def)

lemma first_rep:
  "first (times_m lo (matches r)) x y \<Longrightarrow> first (star_m (rest_len y) g (matches r)) y z \<Longrightarrow>
    first (matches (RRep g lo None r)) x z"
  by (auto simp: first_def rep_m_def)

lemma first_find: "first (matches re) (p, s, []) y \<Longrightarrow> find_match re p s = Some ([], y)"
  by (auto simp: first_def find_match.simps [of re p s])

text \<open>A run of ASCII bytes of a class, up to the end of the text.\<close>

definition run_of :: "bool \<Rightarrow> (int \<times> int) list \<Rightarrow> bytes \<Rightarrow> bool" where
  "run_of neg rs v \<longleftrightarrow> (\<forall>b \<in> set v. b < 128 \<and> in_set neg rs b)"

lemma step_run: "run_of neg rs (b # v) \<Longrightarrow> step_set neg rs (p, b # v, c) = [(Some b, v, c)]"
  by (simp add: run_of_def)

lemma times_run:
  "run_of neg rs v \<Longrightarrow> n \<le> length v \<Longrightarrow>
    \<exists>p'. times_m n (matches (RSet neg rs)) (p, v, c) = [(p', drop n v, c)]"
proof (induction n arbitrary: p v)
  case 0
  then show ?case by simp
next
  case (Suc n)
  then obtain b w where v: "v = b # w" by (cases v) auto
  with Suc.prems have "run_of neg rs w" "n \<le> length w" by (auto simp: run_of_def)
  from Suc.IH [OF this, of "Some b"] Suc.prems(1) show ?case
    by (auto simp: v step_run simp del: step_set.simps)
qed

lemma star_run:
  "run_of neg rs v \<Longrightarrow> length v \<le> n \<Longrightarrow>
    \<exists>p'. first (star_m n True (matches (RSet neg rs))) (p, v, c) (p', [], c)"
proof (induction v arbitrary: p n)
  case Nil
  then show ?case by (cases n) (auto simp: first_def rest_len_def)
next
  case (Cons b w)
  then obtain k where n: "n = Suc k" by (cases n) auto
  from Cons.prems have "run_of neg rs w" "length w \<le> k" by (auto simp: run_of_def n)
  from Cons.IH [OF this, of "Some b"] Cons.prems(1) show ?case
    by (auto simp: first_def n step_run rest_len_def simp del: step_set.simps)
qed

lemma rep_run:
  assumes "run_of neg rs v" and "lo \<le> length v"
  shows "\<exists>p'. first (matches (RRep True lo None (RSet neg rs))) (p, v, c) (p', [], c)"
proof -
  obtain q where t: "times_m lo (matches (RSet neg rs)) (p, v, c) = [(q, drop lo v, c)]"
    using times_run [OF assms] by blast
  have "run_of neg rs (drop lo v)" using assms(1) by (auto simp: run_of_def dest: in_set_dropD)
  then obtain p' where "first (star_m (rest_len (q, drop lo v, c)) True (matches (RSet neg rs)))
      (q, drop lo v, c) (p', [], c)"
    using star_run [of neg rs "drop lo v" "rest_len (q, drop lo v, c)"] by (auto simp: rest_len_def)
  moreover have "first (times_m lo (matches (RSet neg rs))) (p, v, c) (q, drop lo v, c)"
    using t by (simp add: first_def)
  ultimately show ?thesis using first_rep by blast
qed

text \<open>On empty text an optional piece that needs a rune matches without it.\<close>

lemma opt_set_Nil: "matches (ropt (RSet neg rs)) (p, [], c) = [(p, [], c)]"
  by (simp add: ropt_def rep_m_def)

lemma opt_set_miss:
  "b < 128 \<Longrightarrow> \<not> in_set neg rs b \<Longrightarrow> matches (ropt (RSet neg rs)) (p, b # v, c) = [(p, b # v, c)]"
  by (simp add: ropt_def rep_m_def)

section \<open>Bytes a match cannot do without\<close>

text \<open>
  \<open>needs P re\<close>: every match of \<open>re\<close> reads an ASCII byte with \<open>P\<close>; so text without such a byte has no
  match.
\<close>

fun ascii_ranges :: "(int \<Rightarrow> bool) \<Rightarrow> (int \<times> int) list \<Rightarrow> bool" where
  "ascii_ranges P [] = True"
| "ascii_ranges P ((lo, hi) # rs) = (lo = hi \<and> 0 \<le> lo \<and> lo < 128 \<and> P lo \<and> ascii_ranges P rs)"

fun needs :: "(int \<Rightarrow> bool) \<Rightarrow> regexp \<Rightarrow> bool" where
  "needs P (RSet neg rs) = (\<not> neg \<and> ascii_ranges P rs)"
| "needs P (RSeq a b) = (needs P a \<or> needs P b)"
| "needs P (RAlt a b) = (needs P a \<and> needs P b)"
| "needs P (RRep g lo hi r) = (lo > 0 \<and> needs P r)"
| "needs P (RCap i r) = needs P r"
| "needs P r = False"

definition lacks :: "(int \<Rightarrow> bool) \<Rightarrow> bytes \<Rightarrow> bool" where
  "lacks P s \<longleftrightarrow> (\<forall>b \<in> set s. \<not> P b)"

lemma lacks_drop: "lacks P s \<Longrightarrow> lacks P (drop n s)"
  by (auto simp: lacks_def dest: in_set_dropD)

lemma next_rune_non_ascii: "next_rune (b # s) = Some (r, w) \<Longrightarrow> r < 128 \<Longrightarrow> r = b"
  by (auto simp: next_rune_def rune2_def rune3_def rune4_def second_ok_def cont_def
      split: list.splits if_splits)

lemma step_lacks:
  assumes "ascii_ranges P rs" and "lacks P s"
  shows "step_set False rs (p, s, c) = []"
proof -
  have "in_set False rs r \<Longrightarrow> 0 \<le> r \<and> r < 128 \<and> P r" for r
    using assms(1) by (induction P rs rule: ascii_ranges.induct) (auto simp: in_set_def)
  moreover have "r < 128 \<Longrightarrow> next_rune s = Some (r, w) \<Longrightarrow> r \<in> set s" for r w
    using next_rune_non_ascii by (cases s) auto
  ultimately show ?thesis
    using assms(2) by (auto simp: lacks_def split: option.split)
qed

text \<open>\<open>after x y\<close>: the text of \<open>y\<close> is the text of \<open>x\<close> without some bytes in front.\<close>

definition after :: "mstate \<Rightarrow> mstate \<Rightarrow> bool" where
  "after x y \<longleftrightarrow> (\<exists>n. fst (snd y) = drop n (fst (snd x)))"

lemma after_refl [simp]: "after x x"
  by (auto simp: after_def intro: exI [of _ 0])

lemma after_trans: "after x y \<Longrightarrow> after y z \<Longrightarrow> after x z"
  by (auto simp: after_def)

lemma after_times:
  "(\<And>x y. y \<in> set (m x) \<Longrightarrow> after x y) \<Longrightarrow> y \<in> set (times_m k m x) \<Longrightarrow> after x y"
  by (induction k arbitrary: x) (simp, simp, blast intro: after_trans)

lemma after_upto:
  "(\<And>x y. y \<in> set (m x) \<Longrightarrow> after x y) \<Longrightarrow> y \<in> set (upto_m k g m x) \<Longrightarrow> after x y"
proof (induction k arbitrary: x)
  case 0
  then show ?case by simp
next
  case (Suc k)
  from Suc.prems(2) have "y = x \<or> (\<exists>z \<in> set (m x). y \<in> set (upto_m k g m z))"
    by (fastforce simp: Let_def split: if_splits)
  then show ?case using Suc.IH [OF Suc.prems(1)] Suc.prems(1) by (blast intro: after_refl after_trans)
qed

lemma after_star:
  "(\<And>x y. y \<in> set (m x) \<Longrightarrow> after x y) \<Longrightarrow> y \<in> set (star_m k g m x) \<Longrightarrow> after x y"
proof (induction k arbitrary: x)
  case 0
  then show ?case by simp
next
  case (Suc k)
  from Suc.prems(2) have "y = x \<or> (\<exists>z \<in> set (m x). y \<in> set (star_m k g m z))"
    by (fastforce simp: Let_def split: if_splits)
  then show ?case using Suc.IH [OF Suc.prems(1)] Suc.prems(1) by (blast intro: after_refl after_trans)
qed

lemma matches_after: "y \<in> set (matches re x) \<Longrightarrow> after x y"
proof (induction re arbitrary: x y)
  case (RSet neg rs)
  obtain p s c where x: "x = (p, s, c)" by (cases x)
  with RSet show ?case by (auto simp: after_def split: option.splits if_splits)
next
  case (RSeq a b)
  from RSeq.prems obtain z where "z \<in> set (matches a x)" "y \<in> set (matches b z)" by (simp, blast)
  then show ?case using RSeq.IH after_trans by blast
next
  case (RRep g lo hi r)
  then obtain z where z: "z \<in> set (times_m lo (matches r) x)"
    and y: "y \<in> set (case hi of None \<Rightarrow> star_m (rest_len z) g (matches r) z
      | Some h \<Rightarrow> upto_m (h - lo) g (matches r) z)"
    by (auto simp: rep_m_def)
  from after_times [OF RRep.IH z] have "after x z" .
  moreover have "after z y"
    using y after_star [OF RRep.IH] after_upto [OF RRep.IH] by (cases hi) auto
  ultimately show ?case by (rule after_trans)
next
  case (RCap i r)
  from RCap.prems obtain z where "z \<in> set (matches r x)" "fst (snd y) = fst (snd z)" by auto
  then show ?case using RCap.IH [of z x] by (simp add: after_def)
qed (auto split: if_splits)

lemma needs_matches:
  "needs P re \<Longrightarrow> lacks P (fst (snd x)) \<Longrightarrow> matches re x = []"
proof (induction P re arbitrary: x rule: needs.induct)
  case (1 P neg rs)
  obtain p s c where "x = (p, s, c)" by (cases x)
  with 1 show ?case by (auto simp del: step_set.simps intro: step_lacks)
next
  case (2 P a b)
  show ?case
  proof (cases "needs P a")
    case True
    with 2 show ?thesis by simp
  next
    case False
    have "matches b y = []" if "y \<in> set (matches a x)" for y
    proof -
      from matches_after [OF that] 2(4) have "lacks P (fst (snd y))"
        by (auto simp: lacks_drop after_def)
      with 2 False show ?thesis by simp
    qed
    then show ?thesis by simp
  qed
next
  case (4 P g lo hi r)
  then obtain k where "lo = Suc k" by (cases lo) auto
  with 4 show ?case by (simp add: rep_m_def)
qed auto

lemma needs_find: "needs P re \<Longrightarrow> lacks P s \<Longrightarrow> find_match re p s = None"
proof (induction re p s rule: find_match.induct)
  case (1 re p s)
  then have "matches re (p, s, []) = []" by (simp add: needs_matches)
  with 1 show ?case
    by (auto simp: find_match.simps [of re p s] lacks_drop split: option.split list.split)
qed

lemma needs_replace: "needs P re \<Longrightarrow> lacks P s \<Longrightarrow> replace_all re t s = s"
  by (simp add: replace_all_def needs_find)

end
