(* ===== verification/Json.thy ===== *)
theory Json
  imports Prelude "HOL-Library.Multiset" "HOL-Library.List_Lexorder" "HOL-Library.Char_ord"
begin

text \<open>
  The part of Go's \<open>encoding/json\<close> that the protocol package uses, at the level of JSON values.
  A \<open>json.RawMessage\<close> is an optional value: \<open>None\<close> is the nil slice of a field that was absent
  (length 0), \<open>Some j\<close> holds the text of \<open>j\<close>. A decoder takes the value of the target before the
  call, as \<open>json.Unmarshal\<close> decodes into existing memory: \<open>null\<close> leaves strings, numbers and
  structs as they are, an unknown key is skipped, a key is matched by name and then case-folded,
  and of several entries for the same field each is decoded over the result of the one before.
  Numbers are kept as their literal text. Which of several errors in one document is reported,
  and the wording of the library's own messages, are not modelled.
\<close>

datatype json =
    JNull
  | JBool bool
  | JNum string
  | JStr string
  | JArr "json list"
  | JObj "(string \<times> json) list"

type_synonym raw_json = "json option"

datatype derr =
    SyntaxError              \<comment> \<open>the text is not JSON\<close>
  | UnexpectedEnd            \<comment> \<open>"unexpected end of JSON input"\<close>
  | TypeMismatch string      \<comment> \<open>UnmarshalTypeError, with the Go type\<close>
  | Custom string            \<comment> \<open>fmt.Errorf of this program\<close>
  | Got string json          \<comment> \<open>fmt.Errorf("..., got %s", data)\<close>

text \<open>A line of a transport: JSON, or text that \<open>json.Unmarshal\<close> rejects as such.\<close>

type_synonym line = "derr + json"

type_synonym 'a dec = "'a \<Rightarrow> json \<Rightarrow> derr + 'a"

section \<open>Scalars\<close>

fun dec_string :: "string dec" where
  "dec_string s JNull = Inr s"
| "dec_string s (JStr t) = Inr t"
| "dec_string s _ = Inl (TypeMismatch ''string'')"

fun dec_bool :: "bool dec" where
  "dec_bool b JNull = Inr b"
| "dec_bool b (JBool c) = Inr c"
| "dec_bool b _ = Inl (TypeMismatch ''bool'')"

fun dec_uint32 :: "u32 dec" where
  "dec_uint32 w JNull = Inr w"
| "dec_uint32 w (JNum l) = (case parse_nat l of
     Some n \<Rightarrow> if n < 2 ^ 32 then Inr (of_nat n) else Inl (TypeMismatch ''uint32'')
   | None \<Rightarrow> Inl (TypeMismatch ''uint32''))"
| "dec_uint32 w _ = Inl (TypeMismatch ''uint32'')"

fun dec_uint64 :: "u64 dec" where
  "dec_uint64 w JNull = Inr w"
| "dec_uint64 w (JNum l) = (case parse_nat l of
     Some n \<Rightarrow> if n < 2 ^ 64 then Inr (of_nat n) else Inl (TypeMismatch ''uint64'')
   | None \<Rightarrow> Inl (TypeMismatch ''uint64''))"
| "dec_uint64 w _ = Inl (TypeMismatch ''uint64'')"

fun dec_int :: "int dec" where
  "dec_int i JNull = Inr i"
| "dec_int i (JNum l) = (case parse_int l of
     Some n \<Rightarrow> if - (2 ^ 63) \<le> n \<and> n < 2 ^ 63 then Inr n else Inl (TypeMismatch ''int'')
   | None \<Rightarrow> Inl (TypeMismatch ''int''))"
| "dec_int i _ = Inl (TypeMismatch ''int'')"

text \<open>A \<open>float64\<close> is carried as its literal; rounding to binary64 is not modelled.\<close>

fun dec_float :: "string dec" where
  "dec_float x JNull = Inr x"
| "dec_float x (JNum l) = Inr l"
| "dec_float x _ = Inl (TypeMismatch ''float64'')"

fun dec_raw :: "raw_json dec" where
  "dec_raw r j = Inr (Some j)"

definition enc_u32 :: "u32 \<Rightarrow> json" where
  "enc_u32 w = JNum (show_nat (unat w))"

definition enc_u64 :: "u64 \<Rightarrow> json" where
  "enc_u64 w = JNum (show_nat (unat w))"

definition enc_int :: "int \<Rightarrow> json" where
  "enc_int i = JNum (show_int i)"

fun enc_raw :: "raw_json \<Rightarrow> json" where
  "enc_raw None = JNull"
| "enc_raw (Some j) = j"

section \<open>Pointers and slices\<close>

fun dec_ptr :: "'a \<Rightarrow> 'a dec \<Rightarrow> 'a option dec" where
  "dec_ptr z d p JNull = Inr None"
| "dec_ptr z d p j = map_res Some (d (case p of None \<Rightarrow> z | Some v \<Rightarrow> v) j)"

text \<open>
  A slice without \<open>omitempty\<close> is \<open>'a list option\<close> (\<open>None\<close> is the nil slice, encoded as \<open>null\<close>);
  for a field with \<open>omitempty\<close> nil and empty are encoded alike and the slice is a list.
\<close>

fun dec_list :: "'a \<Rightarrow> 'a dec \<Rightarrow> 'a list dec" where
  "dec_list z d xs JNull = Inr []"
| "dec_list z d xs (JArr js) = traverse (d z) js"
| "dec_list z d xs _ = Inl (TypeMismatch ''slice'')"

fun dec_slice :: "'a \<Rightarrow> 'a dec \<Rightarrow> 'a list option dec" where
  "dec_slice z d xs JNull = Inr None"
| "dec_slice z d xs (JArr js) = map_res Some (traverse (d z) js)"
| "dec_slice z d xs _ = Inl (TypeMismatch ''slice'')"

fun enc_slice :: "('a \<Rightarrow> json) \<Rightarrow> 'a list option \<Rightarrow> json" where
  "enc_slice e None = JNull"
| "enc_slice e (Some xs) = JArr (map e xs)"

text \<open>
  A Go map with string keys is an association list with distinct keys (\<open>None\<close> the nil map); the
  encoder writes its entries in byte order of the keys, the decoder stores entry by entry.
\<close>

type_synonym 'a gomap = "(string \<times> 'a) list option"

fun dec_entries :: "'a \<Rightarrow> 'a dec \<Rightarrow> (string \<times> json) list \<Rightarrow> (string \<times> 'a) list \<Rightarrow> derr + (string \<times> 'a) list" where
  "dec_entries z d [] m = Inr m"
| "dec_entries z d ((k, v) # kvs) m =
     bind_res (d z v) (\<lambda>x. dec_entries z d kvs (AList.update k x m))"

fun dec_map :: "'a \<Rightarrow> 'a dec \<Rightarrow> 'a gomap dec" where
  "dec_map z d m JNull = Inr None"
| "dec_map z d m (JObj kvs) =
     map_res Some (dec_entries z d kvs (case m of None \<Rightarrow> [] | Some kvs \<Rightarrow> kvs))"
| "dec_map z d m _ = Inl (TypeMismatch ''map'')"

definition sort_map :: "(string \<times> 'a) list \<Rightarrow> (string \<times> 'a) list" where
  "sort_map m = sort_key fst m"

fun enc_map :: "('a \<Rightarrow> json) \<Rightarrow> 'a gomap \<Rightarrow> json" where
  "enc_map e None = JNull"
| "enc_map e (Some m) = JObj (map (\<lambda>(k, v). (k, e v)) (sort_map m))"

section \<open>Structs\<close>

text \<open>
  \<open>fold_name\<close>: two names are the same under it when \<open>bytes.EqualFold\<close> says so, for names one of
  which is ASCII. Beyond ASCII only U+017F (long s) and U+212A (Kelvin sign) fold to ASCII letters.
\<close>

definition ascii_upper :: "char \<Rightarrow> char" where
  "ascii_upper c = (let n = (of_char c :: nat) in if 97 \<le> n \<and> n \<le> 122 then char_of (n - 32) else c)"

fun fold_name :: "string \<Rightarrow> string" where
  "fold_name [] = []"
| "fold_name [a] = [ascii_upper a]"
| "fold_name [a, b] =
     (if a = CHR 0xC5 \<and> b = CHR 0xBF then ''S'' else [ascii_upper a, ascii_upper b])"
| "fold_name (a # b # c # r) =
     (if a = CHR 0xC5 \<and> b = CHR 0xBF then CHR ''S'' # fold_name (c # r)
      else if a = CHR 0xE2 \<and> b = CHR 0x84 \<and> c = CHR 0xAA then CHR ''K'' # fold_name r
      else ascii_upper a # fold_name (b # c # r))"

type_synonym 's field = "'s \<Rightarrow> json \<Rightarrow> derr + 's"

definition fld :: "('s \<Rightarrow> 'a) \<Rightarrow> (('a \<Rightarrow> 'a) \<Rightarrow> 's \<Rightarrow> 's) \<Rightarrow> 'a dec \<Rightarrow> 's field" where
  "fld get upd d s j = map_res (\<lambda>v. upd (\<lambda>_. v) s) (d (get s) j)"

fun lookup_field :: "(string \<times> 's field) list \<Rightarrow> string \<Rightarrow> 's field option" where
  "lookup_field fs k = (case map_of fs k of
     Some f \<Rightarrow> Some f
   | None \<Rightarrow> map_option snd (find (\<lambda>(n, f). fold_name n = fold_name k) fs))"

declare lookup_field.simps [simp del, codec]

fun run_field :: "'s field option \<Rightarrow> json \<Rightarrow> 's \<Rightarrow> derr + 's" where
  "run_field None j s = Inr s"
| "run_field (Some f) j s = f s j"

fun dec_fields :: "(string \<times> 's field) list \<Rightarrow> (string \<times> json) list \<Rightarrow> 's \<Rightarrow> derr + 's" where
  "dec_fields fs [] s = Inr s"
| "dec_fields fs ((k, v) # kvs) s =
     bind_res (run_field (lookup_field fs k) v s) (dec_fields fs kvs)"

fun dec_struct :: "string \<Rightarrow> (string \<times> 's field) list \<Rightarrow> 's dec" where
  "dec_struct ty fs s JNull = Inr s"
| "dec_struct ty fs s (JObj kvs) = dec_fields fs kvs s"
| "dec_struct ty fs s _ = Inl (TypeMismatch ty)"

text \<open>\<open>json.Unmarshal(raw, &v)\<close> on a raw message; no bytes are an error.\<close>

fun unmarshal :: "'a dec \<Rightarrow> 'a \<Rightarrow> raw_json \<Rightarrow> derr + 'a" where
  "unmarshal d z None = Inl UnexpectedEnd"
| "unmarshal d z (Some j) = d z j"

section \<open>Encoding fields with \<open>omitempty\<close>\<close>

definition o_str :: "string \<Rightarrow> string \<Rightarrow> (string \<times> json) list" where
  "o_str k v = (if v = [] then [] else [(k, JStr v)])"

definition o_u32 :: "string \<Rightarrow> u32 \<Rightarrow> (string \<times> json) list" where
  "o_u32 k v = (if v = 0 then [] else [(k, enc_u32 v)])"

definition o_ptr :: "string \<Rightarrow> ('a \<Rightarrow> json) \<Rightarrow> 'a option \<Rightarrow> (string \<times> json) list" where
  "o_ptr k e p = (case p of None \<Rightarrow> [] | Some v \<Rightarrow> [(k, e v)])"

definition o_list :: "string \<Rightarrow> ('a \<Rightarrow> json) \<Rightarrow> 'a list \<Rightarrow> (string \<times> json) list" where
  "o_list k e xs = (if xs = [] then [] else [(k, JArr (map e xs))])"

definition o_raw :: "string \<Rightarrow> raw_json \<Rightarrow> (string \<times> json) list" where
  "o_raw k r = (case r of None \<Rightarrow> [] | Some j \<Rightarrow> [(k, j)])"

section \<open>Decoding what was encoded\<close>

lemma dec_enc_u32 [codec]: "dec_uint32 w (enc_u32 v) = Inr v"
  using unat_u32_less [of v] by (simp add: enc_u32_def)

lemma dec_enc_u64 [codec]: "dec_uint64 w (enc_u64 v) = Inr v"
  using unat_u64_less [of v] by (simp add: enc_u64_def)

lemma dec_enc_int [codec]:
  "- (2 ^ 63) \<le> i \<Longrightarrow> i < 2 ^ 63 \<Longrightarrow> dec_int z (enc_int i) = Inr i"
  by (simp add: enc_int_def)

lemma enc_not_null [simp]: "enc_u32 v \<noteq> JNull" "enc_u64 u \<noteq> JNull" "enc_int i \<noteq> JNull"
  by (simp_all add: enc_u32_def enc_u64_def enc_int_def)

lemma dec_ptr_nonnull: "j \<noteq> JNull \<Longrightarrow> dec_ptr z d None j = map_res Some (d z j)"
  by (cases j) auto

lemma dec_list_enc:
  "(\<And>x. x \<in> set xs \<Longrightarrow> d z (e x) = Inr x) \<Longrightarrow> dec_list z d ys (JArr (map e xs)) = Inr xs"
  by (simp add: traverse_map_id)

lemma dec_slice_enc:
  "(\<And>x ys. xs = Some ys \<Longrightarrow> x \<in> set ys \<Longrightarrow> d z (e x) = Inr x) \<Longrightarrow>
    dec_slice z d ys (enc_slice e xs) = Inr xs"
  by (cases xs) (auto simp: traverse_map_id)

lemma dec_fields_append [codec]:
  "dec_fields fs (xs @ ys) s = bind_res (dec_fields fs xs s) (dec_fields fs ys)"
proof (induction xs arbitrary: s)
  case Nil
  show ?case by simp
next
  case (Cons x xs)
  obtain k v where x: "x = (k, v)" by (cases x)
  show ?case
    by (cases "run_field (lookup_field fs k) v s") (simp_all add: x Cons.IH)
qed

text \<open>
  An optional entry is decoded by \<open>opt_field\<close>: nothing happens when it is omitted. On a target whose
  field still holds the omitted value, both cases store the value that was encoded.
\<close>

definition opt_field :: "bool \<Rightarrow> 's field option \<Rightarrow> json \<Rightarrow> 's \<Rightarrow> derr + 's" where
  "opt_field omit f j s = (if omit then Inr s else run_field f j s)"

lemma dec_fields_opt [codec]:
  "dec_fields fs (o_str k v) s = opt_field (v = []) (lookup_field fs k) (JStr v) s"
  "dec_fields fs (o_u32 k w) s = opt_field (w = 0) (lookup_field fs k) (enc_u32 w) s"
  "dec_fields fs (o_ptr k e p) s = opt_field (p = None) (lookup_field fs k) (e (the p)) s"
  "dec_fields fs (o_list k e' xs) s = opt_field (xs = []) (lookup_field fs k) (JArr (map e' xs)) s"
  "dec_fields fs (o_raw k r) s = opt_field (r = None) (lookup_field fs k) (the r) s"
proof -
  have b: "bind_res r Inr = r" for r :: "derr + 's" by (cases r) auto
  have f: "dec_fields fs [] = Inr" for fs :: "(string \<times> 's field) list" by (rule ext) simp
  show
    "dec_fields fs (o_str k v) s = opt_field (v = []) (lookup_field fs k) (JStr v) s"
    "dec_fields fs (o_u32 k w) s = opt_field (w = 0) (lookup_field fs k) (enc_u32 w) s"
    "dec_fields fs (o_ptr k e p) s = opt_field (p = None) (lookup_field fs k) (e (the p)) s"
    "dec_fields fs (o_list k e' xs) s = opt_field (xs = []) (lookup_field fs k) (JArr (map e' xs)) s"
    "dec_fields fs (o_raw k r) s = opt_field (r = None) (lookup_field fs k) (the r) s"
    by (simp_all add: o_str_def o_u32_def o_ptr_def o_list_def o_raw_def opt_field_def b f
        split: option.split)
qed

lemma opt_str [codec]:
  "upd (\<lambda>_. []) s = s \<Longrightarrow>
    opt_field (v = []) (Some (fld get upd dec_string)) (JStr v) s = Inr (upd (\<lambda>_. v) s)"
  by (auto simp: opt_field_def fld_def)

lemma opt_u32 [codec]:
  "upd (\<lambda>_. 0) s = s \<Longrightarrow>
    opt_field (w = 0) (Some (fld get upd dec_uint32)) (enc_u32 w) s = Inr (upd (\<lambda>_. w) s)"
  by (auto simp: opt_field_def fld_def dec_enc_u32)

lemma opt_raw [codec]:
  "upd (\<lambda>_. None) s = s \<Longrightarrow>
    opt_field (r = None) (Some (fld get upd dec_raw)) (the r) s = Inr (upd (\<lambda>_. r) s)"
  by (auto simp: opt_field_def fld_def)

lemma opt_ptr [codec]:
  "upd (\<lambda>_. None) s = s \<Longrightarrow> get s = None \<Longrightarrow>
    (\<And>v. p = Some v \<Longrightarrow> e v \<noteq> JNull) \<Longrightarrow> (\<And>v. p = Some v \<Longrightarrow> d z (e v) = Inr v) \<Longrightarrow>
    opt_field (p = None) (Some (fld get upd (dec_ptr z d))) (e (the p)) s = Inr (upd (\<lambda>_. p) s)"
  by (cases p) (auto simp: opt_field_def fld_def dec_ptr_nonnull)

lemma opt_list [codec]:
  "upd (\<lambda>_. []) s = s \<Longrightarrow> (\<And>x. x \<in> set xs \<Longrightarrow> d z (e x) = Inr x) \<Longrightarrow>
    opt_field (xs = []) (Some (fld get upd (dec_list z d))) (JArr (map e xs)) s = Inr (upd (\<lambda>_. xs) s)"
  by (auto simp: opt_field_def fld_def traverse_map_id)

lemmas fld_apply [codec] = fld_def

lemma run_field_fld [codec]:
  "run_field (Some (fld get upd d)) j s = map_res (\<lambda>v. upd (\<lambda>_. v) s) (d (get s) j)"
  by (simp add: fld_def)

text \<open>A key that matches no field, exactly or case-folded, changes nothing.\<close>

lemma dec_fields_unknown:
  "lookup_field fs k = None \<Longrightarrow> dec_fields fs (xs @ (k, v) # ys) s = dec_fields fs (xs @ ys) s"
proof -
  assume "lookup_field fs k = None"
  then have "dec_fields fs ((k, v) # ys) = dec_fields fs ys" by (intro ext) simp
  then show ?thesis by (simp add: dec_fields_append)
qed

section \<open>Maps\<close>

lemma AList_update_new: "k \<notin> fst ` set m \<Longrightarrow> AList.update k v m = m @ [(k, v)]"
  by (induction m) auto

lemma dec_entries_enc:
  "distinct (map fst (m @ n)) \<Longrightarrow> (\<And>v. d z (e v) = Inr v) \<Longrightarrow>
    dec_entries z d (map (\<lambda>(k, v). (k, e v)) n) m = Inr (m @ n)"
proof (induction n arbitrary: m)
  case Nil
  show ?case by simp
next
  case (Cons x n)
  obtain k v where x: "x = (k, v)" by (cases x)
  from Cons.prems(1) have "k \<notin> fst ` set m" by (auto simp: x)
  then have u: "AList.update k v m = m @ [(k, v)]" by (rule AList_update_new)
  from Cons.prems(1) have "distinct (map fst ((m @ [(k, v)]) @ n))" by (simp add: x)
  from Cons.IH [OF this Cons.prems(2)] show ?case
    by (simp add: x u Cons.prems(2))
qed

lemma set_sort_map [simp]: "set (sort_map m) = set m"
  by (simp add: sort_map_def)

lemma distinct_sort_map [simp]: "distinct (map fst (sort_map m)) \<longleftrightarrow> distinct (map fst m)"
proof -
  have "mset (map fst (sort_map m)) = mset (map fst m)" by (simp add: sort_map_def)
  then show ?thesis by (rule mset_eq_imp_distinct_iff)
qed

lemma map_of_sort_map:
  "distinct (map fst m) \<Longrightarrow> map_of (sort_map m) = map_of m"
  by (simp add: map_of_inject_set)

fun map_ok :: "'a gomap \<Rightarrow> bool" where
  "map_ok None = True"
| "map_ok (Some m) = distinct (map fst m)"

lemma dec_enc_map:
  "map_ok m \<Longrightarrow> (\<And>v. d z (e v) = Inr v) \<Longrightarrow>
    dec_map z d None (enc_map e m) = Inr (map_option sort_map m)"
  by (cases m) (simp_all add: dec_entries_enc [where m = "[]", simplified])

lemma lookup_field_mem: "lookup_field fs k = Some f \<Longrightarrow> \<exists>n. (n, f) \<in> set fs"
  by (fastforce simp: lookup_field.simps find_Some_iff split: option.splits
      dest: map_of_SomeD nth_mem)

text \<open>What every field keeps, the whole struct keeps.\<close>

lemma dec_fields_keeps:
  assumes "\<And>n f s j s'. (n, f) \<in> set fs \<Longrightarrow> P s \<Longrightarrow> f s j = Inr s' \<Longrightarrow> P s'"
  shows "P s \<Longrightarrow> dec_fields fs kvs s = Inr s' \<Longrightarrow> P s'"
proof (induction kvs arbitrary: s)
  case (Cons kv kvs)
  obtain k v where kv: "kv = (k, v)" by (cases kv)
  with Cons.prems obtain t where t: "run_field (lookup_field fs k) v s = Inr t"
    and r: "dec_fields fs kvs t = Inr s'" by (auto simp: bind_res_eq_Inr)
  have "P t"
    using t Cons.prems(1) lookup_field_mem [of fs k]
    by (cases "lookup_field fs k") (auto intro: assms)
  with r Cons.IH show ?case by blast
qed simp

lemma dec_struct_keeps:
  assumes "\<And>n f s j s'. (n, f) \<in> set fs \<Longrightarrow> P s \<Longrightarrow> f s j = Inr s' \<Longrightarrow> P s'"
  shows "P s \<Longrightarrow> dec_struct ty fs s j = Inr s' \<Longrightarrow> P s'"
  by (cases j) (auto intro: dec_fields_keeps [of fs P, OF assms])

lemma unmarshal_Inr: "unmarshal d z p = Inr v \<longleftrightarrow> (\<exists>j. p = Some j \<and> d z j = Inr v)"
  by (cases p) auto

end
