(* ===== verification/Go_Error.thy ===== *)
theory Go_Error
  imports Json
begin

text \<open>
  Go error values as the program uses them, and \<open>error.go\<close>: \<open>WireError\<close>, its kinds, \<open>Error()\<close> and
  \<open>Unwrap()\<close>. \<open>errors.Is\<close> and \<open>errors.As\<close> follow the chain of wrapped errors. The text of the JSON
  library's own errors is shortened.
\<close>

datatype ErrorKind =
    ErrStreamClosed
  | ErrTimeout
  | ErrSpawnFailed
  | ErrJSONParse
  | ErrJSONSerialize
  | ErrRequestFailed
  | ErrUnexpectedResponseID
  | ErrMethodNotFound
  | ErrUnknownMessageType
  | ErrInvalidPayloadType
  | ErrIO
  | ErrInternal
  | ErrKindOther int    \<comment> \<open>an integer outside the declared constants\<close>

fun ErrorKind_String :: "ErrorKind \<Rightarrow> string" where
  "ErrorKind_String ErrStreamClosed = ''stream_closed''"
| "ErrorKind_String ErrTimeout = ''timeout''"
| "ErrorKind_String ErrSpawnFailed = ''spawn_failed''"
| "ErrorKind_String ErrJSONParse = ''json_parse''"
| "ErrorKind_String ErrJSONSerialize = ''json_serialize''"
| "ErrorKind_String ErrRequestFailed = ''request_failed''"
| "ErrorKind_String ErrUnexpectedResponseID = ''unexpected_response_id''"
| "ErrorKind_String ErrMethodNotFound = ''method_not_found''"
| "ErrorKind_String ErrUnknownMessageType = ''unknown_message_type''"
| "ErrorKind_String ErrInvalidPayloadType = ''invalid_payload_type''"
| "ErrorKind_String ErrIO = ''io''"
| "ErrorKind_String ErrInternal = ''internal''"
| "ErrorKind_String (ErrKindOther k) = ''unknown('' @ show_int k @ '')''"

datatype go_error =
    EOF
  | Canceled
  | DeadlineExceeded
  | ETXTBSY                                    \<comment> \<open>the \<open>syscall.Errno\<close>\<close>
  | DecErr derr
  | CodedErr int string                        \<comment> \<open>an error with a \<open>Code() int\<close> method\<close>
  | PlainErr string
  | WrapErr string go_error                    \<comment> \<open>\<open>fmt.Errorf("...: %w", err)\<close>\<close>
  | WireError ErrorKind string "go_error option" int   \<comment> \<open>Kind, Message, Cause, Code\<close>

text \<open>
  The text of a JSON value in an error message. The code prints the bytes it was given; here the
  value is printed in its compact form, strings quoted as by \<open>%q\<close>.
\<close>

fun comma_sep :: "string list \<Rightarrow> string" where
  "comma_sep [] = []"
| "comma_sep [x] = x"
| "comma_sep (x # xs) = x @ '','' @ comma_sep xs"

fun json_text :: "json \<Rightarrow> string" where
  "json_text JNull = ''null''"
| "json_text (JBool b) = (if b then ''true'' else ''false'')"
| "json_text (JNum n) = n"
| "json_text (JStr s) = go_quote s"
| "json_text (JArr js) = ''['' @ comma_sep (map json_text js) @ '']''"
| "json_text (JObj kvs) =
     ''{'' @ comma_sep (map (\<lambda>(k, v). go_quote k @ '':'' @ json_text v) kvs) @ ''}''"

fun derr_text :: "derr \<Rightarrow> string" where
  "derr_text SyntaxError = ''invalid character in JSON text''"
| "derr_text UnexpectedEnd = ''unexpected end of JSON input''"
| "derr_text (TypeMismatch ty) = ''json: cannot unmarshal value into Go value of type '' @ ty"
| "derr_text (Custom s) = s"
| "derr_text (Got s j) = s @ '', got '' @ json_text j"

fun error_text :: "go_error \<Rightarrow> string" where
  "error_text EOF = ''EOF''"
| "error_text Canceled = ''context canceled''"
| "error_text DeadlineExceeded = ''context deadline exceeded''"
| "error_text ETXTBSY = ''text file busy''"
| "error_text (DecErr d) = derr_text d"
| "error_text (CodedErr c m) = m"
| "error_text (PlainErr m) = m"
| "error_text (WrapErr m e) = m @ '': '' @ error_text e"
| "error_text (WireError k m cause c) =
     (if m = [] then ''wire error: '' @ ErrorKind_String k
      else ''wire error '' @ ErrorKind_String k @ '': '' @ m)"

fun unwrap :: "go_error \<Rightarrow> go_error option" where
  "unwrap (WrapErr m e) = Some e"
| "unwrap (WireError k m cause c) = cause"
| "unwrap e = None"

text \<open>\<open>errors.Is(err, target)\<close> for the sentinel errors, which are compared by identity.\<close>

fun errors_Is :: "go_error \<Rightarrow> go_error \<Rightarrow> bool" where
  "errors_Is (WrapErr m e) target = (WrapErr m e = target \<or> errors_Is e target)"
| "errors_Is (WireError k m (Some e) c) target =
     (WireError k m (Some e) c = target \<or> errors_Is e target)"
| "errors_Is e target = (e = target)"

text \<open>\<open>errors.As(err, &ce)\<close> with \<open>ce CodedError\<close>: the code of the first coded error of the chain.\<close>

fun as_coded :: "go_error \<Rightarrow> int option" where
  "as_coded (CodedErr c m) = Some c"
| "as_coded (WrapErr m e) = as_coded e"
| "as_coded (WireError k m (Some e) c) = as_coded e"
| "as_coded e = None"

text \<open>\<open>errors.As(err, &werr)\<close> with \<open>werr *WireError\<close>: kind and code of the first one.\<close>

fun as_wire :: "go_error \<Rightarrow> (ErrorKind \<times> int) option" where
  "as_wire (WireError k m cause c) = Some (k, c)"
| "as_wire (WrapErr m e) = as_wire e"
| "as_wire e = None"

lemma errors_Is_unwrap:
  "unwrap e = Some e' \<Longrightarrow> errors_Is e' target \<Longrightarrow> errors_Is e target"
  by (cases e) (auto elim: unwrap.elims)

lemma ErrorKind_String_inj:
  "ErrorKind_String k = ErrorKind_String k' \<Longrightarrow> (\<And>i. k \<noteq> ErrKindOther i) \<Longrightarrow> k = k'"
  by (cases k; cases k') auto

end
