(* ===== verification/Transports.thy ===== *)
theory Transports
  imports Go_Error
begin

text \<open>
  The \<open>Transport\<close> interface of \<open>transport/transport.go\<close> as a locale, and its two in-memory
  implementations: \<open>InMemoryTransport\<close> (\<open>transport_memory.go\<close>) and the connected pair of
  \<open>ChannelTransport\<close>s (\<open>transport_channel.go\<close>). A context is given by its error at the time of the
  call, \<open>None\<close> while it is not done. A \<open>select\<close> with several ready cases takes any of them: the
  choice is the argument \<open>pick\<close>; a read that would block has no result.
\<close>

section \<open>Select\<close>

text \<open>The ready cases of a \<open>select\<close> without \<open>default\<close>, in order, and the one that is picked.\<close>

fun ready_cases :: "'a option list \<Rightarrow> 'a list" where
  "ready_cases [] = []"
| "ready_cases (None # cs) = ready_cases cs"
| "ready_cases (Some c # cs) = c # ready_cases cs"

definition go_select :: "nat \<Rightarrow> 'a option list \<Rightarrow> 'a option" where
  "go_select pick cs = (let r = ready_cases cs in
     if r = [] then None else Some (r ! (pick mod length r)))"

lemma set_ready_cases: "x \<in> set (ready_cases cs) \<longleftrightarrow> Some x \<in> set cs"
  by (induction cs rule: ready_cases.induct) auto

lemma go_select_enabled: "Some x \<in> set cs \<Longrightarrow> \<exists>y. go_select pick cs = Some y"
proof -
  assume "Some x \<in> set cs"
  then have "ready_cases cs \<noteq> []" by (induction cs rule: ready_cases.induct) auto
  then show ?thesis by (simp add: go_select_def Let_def)
qed

lemma go_select_in: "go_select pick cs = Some x \<Longrightarrow> Some x \<in> set cs"
  by (auto simp: go_select_def Let_def set_ready_cases [symmetric] split: if_splits)

lemma go_select_None: "go_select pick cs = None \<longleftrightarrow> (\<forall>c \<in> set cs. c = None)"
  by (simp add: go_select_def Let_def, induction cs rule: ready_cases.induct) auto

lemma Some_eq_map_option [simp]: "Some x = map_option f c \<longleftrightarrow> (\<exists>y. c = Some y \<and> x = f y)"
  by (cases c) auto

text \<open>Every ready case is picked by some choice.\<close>

lemma go_select_any: "Some x \<in> set cs \<Longrightarrow> \<exists>pick. go_select pick cs = Some x"
proof -
  assume "Some x \<in> set cs"
  then have "x \<in> set (ready_cases cs)" by (simp add: set_ready_cases)
  then obtain i where "i < length (ready_cases cs)" "ready_cases cs ! i = x"
    by (auto simp: in_set_conv_nth)
  then have "go_select i cs = Some x" by (auto simp: go_select_def Let_def)
  then show ?thesis ..
qed

section \<open>InMemoryTransport\<close>

record in_memory =
  im_incoming :: "line list"
  im_outgoing :: "line list"
  im_closed :: bool

definition NewInMemoryTransport :: in_memory where
  "NewInMemoryTransport = \<lparr>im_incoming = [], im_outgoing = [], im_closed = False\<rparr>"

definition im_ReadLine :: "nat \<Rightarrow> go_error option \<Rightarrow> in_memory \<Rightarrow> ((go_error + line) \<times> in_memory) option" where
  "im_ReadLine pick ctx t = go_select pick
     [case im_incoming t of
        l # ls \<Rightarrow> Some (Inr l, t\<lparr>im_incoming := ls\<rparr>)
      | [] \<Rightarrow> if im_closed t then Some (Inl EOF, t) else None,
      map_option (\<lambda>e. (Inl e, t)) ctx]"

definition im_WriteLine :: "nat \<Rightarrow> go_error option \<Rightarrow> line \<Rightarrow> in_memory \<Rightarrow> go_error option \<times> in_memory" where
  "im_WriteLine pick ctx l t = (case ctx of
     Some e \<Rightarrow> (Some e, t)
   | None \<Rightarrow>
       if im_closed t then (Some (PlainErr ''transport closed''), t)
       else (None, t\<lparr>im_outgoing := im_outgoing t @ [l]\<rparr>))"

definition im_Close :: "in_memory \<Rightarrow> go_error option \<times> in_memory" where
  "im_Close t = (None, if im_closed t then t else t\<lparr>im_closed := True\<rparr>)"

text \<open>The buffer of \<open>incoming\<close> has room for 1024 lines.\<close>

definition im_Inject :: "line \<Rightarrow> in_memory \<Rightarrow> go_error option \<times> in_memory" where
  "im_Inject l t =
     (if im_closed t then (Some (PlainErr ''transport closed''), t)
      else if length (im_incoming t) < 1024 then (None, t\<lparr>im_incoming := im_incoming t @ [l]\<rparr>)
      else (Some (PlainErr ''incoming buffer full''), t))"

definition Outgoing :: "in_memory \<Rightarrow> line list" where
  "Outgoing t = im_outgoing t"

section \<open>ChannelTransport\<close>

text \<open>
  The two ends share two buffered channels of 64 lines: \<open>ch s\<close> is the channel that end \<open>s\<close> receives
  from. \<open>shut s\<close> says that \<open>closeCh\<close> of end \<open>s\<close> is closed.
\<close>

datatype side = A | B

fun peer :: "side \<Rightarrow> side" where
  "peer A = B"
| "peer B = A"

record go_chan =
  gc_buf :: "line list"
  gc_closed :: bool

record chan_pair =
  ch :: "side \<Rightarrow> go_chan"
  shut :: "side \<Rightarrow> bool"

definition NewChannelTransportPair :: chan_pair where
  "NewChannelTransportPair =
     \<lparr>ch = (\<lambda>_. \<lparr>gc_buf = [], gc_closed = False\<rparr>), shut = (\<lambda>_. False)\<rparr>"

definition ch_ReadLine ::
    "side \<Rightarrow> nat \<Rightarrow> go_error option \<Rightarrow> chan_pair \<Rightarrow> ((go_error + line) \<times> chan_pair) option" where
  "ch_ReadLine s pick ctx t = go_select pick
     [case gc_buf (ch t s) of
        l # ls \<Rightarrow> Some (Inr l, t\<lparr>ch := (ch t)(s := (ch t s)\<lparr>gc_buf := ls\<rparr>)\<rparr>)
      | [] \<Rightarrow> if gc_closed (ch t s) then Some (Inl EOF, t) else None,
      map_option (\<lambda>e. (Inl e, t)) ctx,
      if shut t s then Some (Inl EOF, t) else None]"

text \<open>
  A send on a closed channel panics in Go. \<open>ch_WriteLine\<close> has no such branch because the sending
  side closes its channel only together with its \<open>closeCh\<close>, which is tested first under the same
  lock; \<open>chan_inv\<close> below states the relation and every operation keeps it.
\<close>

definition ch_WriteLine ::
    "side \<Rightarrow> nat \<Rightarrow> go_error option \<Rightarrow> line \<Rightarrow> chan_pair \<Rightarrow> go_error option \<times> chan_pair" where
  "ch_WriteLine s pick ctx l t =
     (if shut t s then (Some (PlainErr ''transport closed''), t)
      else
        let c = ch t (peer s) in
        case go_select pick
          [map_option (\<lambda>e. (Some e, t)) ctx,
           if length (gc_buf c) < 64
           then Some (None, t\<lparr>ch := (ch t)(peer s := c\<lparr>gc_buf := gc_buf c @ [l]\<rparr>)\<rparr>) else None] of
          Some r \<Rightarrow> r
        | None \<Rightarrow> (Some (PlainErr ''transport buffer full''), t))"

definition ch_Close :: "side \<Rightarrow> chan_pair \<Rightarrow> go_error option \<times> chan_pair" where
  "ch_Close s t = (None,
     if shut t s then t
     else t\<lparr>shut := (shut t)(s := True),
            ch := (ch t)(peer s := (ch t (peer s))\<lparr>gc_closed := True\<rparr>)\<rparr>)"

definition chan_inv :: "chan_pair \<Rightarrow> bool" where
  "chan_inv t \<longleftrightarrow> gc_closed (ch t A) = shut t B \<and> gc_closed (ch t B) = shut t A \<and>
     length (gc_buf (ch t A)) \<le> 64 \<and> length (gc_buf (ch t B)) \<le> 64"

section \<open>The interface\<close>

text \<open>
  \<open>WriteLine\<close> as a server or client calls it; where it chooses between several ready cases, the
  choice is made by the state of the transport.
\<close>

type_synonym 't line_writer = "go_error option \<Rightarrow> line \<Rightarrow> 't \<Rightarrow> go_error option \<times> 't"

type_synonym 't reader = "nat \<Rightarrow> go_error option \<Rightarrow> 't \<Rightarrow> ((go_error + line) \<times> 't) option"
type_synonym 't writer = "nat \<Rightarrow> go_error option \<Rightarrow> line \<Rightarrow> 't \<Rightarrow> go_error option \<times> 't"
type_synonym 't closer = "'t \<Rightarrow> go_error option \<times> 't"

text \<open>
  What the users of a transport rely on. \<open>inbox t\<close> are the lines that can still be read, \<open>sent t\<close> the
  lines that were accepted for the peer.
\<close>

locale transport =
  fixes ReadLine :: "'t reader"
    and WriteLine :: "'t writer"
    and Close :: "'t closer"
    and inbox :: "'t \<Rightarrow> line list"
    and sent :: "'t \<Rightarrow> line list"
    and closed :: "'t \<Rightarrow> bool"
    and inv :: "'t \<Rightarrow> bool"
  assumes write_ok: "\<lbrakk> inv t; WriteLine p c l t = (None, t') \<rbrakk> \<Longrightarrow>
        \<not> closed t \<and> \<not> closed t' \<and> sent t' = sent t @ [l] \<and> inbox t' = inbox t \<and> inv t'"
    and write_err: "\<lbrakk> inv t; WriteLine p c l t = (Some e, t') \<rbrakk> \<Longrightarrow> t' = t"
    and read_ok: "\<lbrakk> inv t; ReadLine p c t = Some (Inr l, t') \<rbrakk> \<Longrightarrow>
        inbox t = l # inbox t' \<and> sent t' = sent t \<and> closed t' = closed t \<and> inv t'"
    and read_err: "\<lbrakk> inv t; ReadLine p c t = Some (Inl e, t') \<rbrakk> \<Longrightarrow> t' = t \<and> (e = EOF \<or> c = Some e)"
    and read_blocks: "\<lbrakk> inv t; ReadLine p c t = None \<rbrakk> \<Longrightarrow> inbox t = [] \<and> c = None \<and> \<not> closed t"
    and close_ok: "\<lbrakk> inv t; Close t = (r, t') \<rbrakk> \<Longrightarrow>
        r = None \<and> closed t' \<and> sent t' = sent t \<and> inbox t' = inbox t \<and> inv t' \<and> Close t' = (None, t')"

text \<open>A run of calls on one transport: the lines accepted for writing and the lines read, in order.\<close>

datatype tr_call = CRead nat "go_error option" | CWrite nat "go_error option" line | CClose

fun run_calls :: "'t reader \<Rightarrow> 't writer \<Rightarrow> 't closer \<Rightarrow> tr_call list \<Rightarrow> 't \<Rightarrow>
    line list \<times> line list \<times> 't" where
  "run_calls rd wr cl [] t = ([], [], t)"
| "run_calls rd wr cl (CRead p c # cs) t =
     (case rd p c t of
        Some (Inr l, t') \<Rightarrow> (let (w, r, u) = run_calls rd wr cl cs t' in (w, l # r, u))
      | Some (Inl e, t') \<Rightarrow> run_calls rd wr cl cs t'
      | None \<Rightarrow> run_calls rd wr cl cs t)"
| "run_calls rd wr cl (CWrite p c l # cs) t =
     (case wr p c l t of
        (None, t') \<Rightarrow> (let (w, r, u) = run_calls rd wr cl cs t' in (l # w, r, u))
      | (Some e, t') \<Rightarrow> run_calls rd wr cl cs t')"
| "run_calls rd wr cl (CClose # cs) t = run_calls rd wr cl cs (snd (cl t))"

context transport
begin

lemma run_fifo:
  "\<lbrakk> inv t; run_calls ReadLine WriteLine Close cs t = (w, r, t') \<rbrakk> \<Longrightarrow>
    sent t' = sent t @ w \<and> inbox t = r @ inbox t' \<and> inv t' \<and> (closed t \<longrightarrow> w = [] \<and> closed t')"
proof (induction cs arbitrary: t w r t')
  case (Cons c cs)
  show ?case
  proof (cases c)
    case (CRead p x)
    show ?thesis
    proof (cases "ReadLine p x t")
      case None
      with CRead Cons show ?thesis by simp
    next
      case (Some y)
      obtain q u where y: "y = (q, u)" by (cases y)
      show ?thesis
      proof (cases q)
        case (Inl e)
        with read_err [OF Cons.prems(1)] Some y have "u = t" by blast
        with CRead Some y Inl Cons show ?thesis by simp
      next
        case (Inr l)
        with read_ok [OF Cons.prems(1)] Some y
        have u: "inbox t = l # inbox u" "sent u = sent t" "closed u = closed t" "inv u" by blast+
        obtain w1 r1 v where run: "run_calls ReadLine WriteLine Close cs u = (w1, r1, v)"
          by (metis prod_cases3)
        with CRead Some y Inr Cons.prems have "w = w1" "r = l # r1" "t' = v" by auto
        with Cons.IH [OF u(4) run] u show ?thesis by simp
      qed
    qed
  next
    case (CWrite p x l)
    obtain q u where y: "WriteLine p x l t = (q, u)" by fastforce
    show ?thesis
    proof (cases q)
      case None
      with write_ok [OF Cons.prems(1)] y
      have u: "\<not> closed t" "sent u = sent t @ [l]" "inbox u = inbox t" "inv u" by blast+
      obtain w1 r1 v where run: "run_calls ReadLine WriteLine Close cs u = (w1, r1, v)"
        by (metis prod_cases3)
      with CWrite y None Cons.prems have "w = l # w1" "r = r1" "t' = v" by auto
      with Cons.IH [OF u(4) run] u show ?thesis by simp
    next
      case (Some e)
      with write_err [OF Cons.prems(1)] y have "u = t" by blast
      with CWrite y Some Cons show ?thesis by simp
    qed
  next
    case CClose
    with Cons.prems Cons.IH close_ok [OF Cons.prems(1), of "fst (Close t)" "snd (Close t)"]
    show ?thesis by auto
  qed
qed simp

end

interpretation mem: transport im_ReadLine im_WriteLine im_Close im_incoming Outgoing im_closed "\<lambda>_. True"
proof (unfold_locales, goal_cases)
  case (3 t p c l t')
  then show ?case
    by (auto simp: im_ReadLine_def Outgoing_def dest!: go_select_in split: list.splits if_splits)
next
  case (4 t p c e t')
  then show ?case
    by (auto simp: im_ReadLine_def dest!: go_select_in split: list.splits if_splits)
next
  case (5 t p c)
  then show ?case
    by (auto simp: im_ReadLine_def go_select_None split: list.splits if_splits)
qed (auto simp: im_WriteLine_def im_Close_def Outgoing_def split: option.splits if_splits)

lemma peer_neq [simp]: "peer s \<noteq> s" "s \<noteq> peer s" "peer (peer s) = s"
  by (cases s; simp)+

lemma peer_eq_iff [simp]: "peer s = peer s' \<longleftrightarrow> s = s'"
  by (cases s; cases s'; simp)

lemma ch_WriteLine_cases:
  assumes "ch_WriteLine s p c l t = (e, t')"
  shows "e \<noteq> None \<and> t' = t \<or>
    e = None \<and> \<not> shut t s \<and> length (gc_buf (ch t (peer s))) < 64 \<and>
    t' = t\<lparr>ch := (ch t)(peer s := (ch t (peer s))\<lparr>gc_buf := gc_buf (ch t (peer s)) @ [l]\<rparr>)\<rparr>"
  using assms
  by (auto simp: ch_WriteLine_def Let_def dest!: go_select_in split: if_splits option.splits)

lemma ch_ReadLine_cases:
  assumes "ch_ReadLine s p c t = Some (r, t')"
  shows "(\<exists>l ls. r = Inr l \<and> gc_buf (ch t s) = l # ls \<and>
      t' = t\<lparr>ch := (ch t)(s := (ch t s)\<lparr>gc_buf := ls\<rparr>)\<rparr>) \<or>
    (\<exists>e. r = Inl e \<and> t' = t \<and> (e = EOF \<or> c = Some e))"
  using assms
  by (auto simp: ch_ReadLine_def dest!: go_select_in split: if_splits list.splits)

text \<open>Either end of a pair is a transport.\<close>

interpretation chan: transport "ch_ReadLine s" "ch_WriteLine s" "ch_Close s" "\<lambda>t. gc_buf (ch t s)"
  "\<lambda>t. gc_buf (ch t (peer s))" "\<lambda>t. shut t s" chan_inv for s
proof (unfold_locales, goal_cases)
  case (1 t p c l t')
  then show ?case
    by (cases s) (auto simp: chan_inv_def dest!: ch_WriteLine_cases)
next
  case (2 t p c l e t')
  then show ?case by (auto dest!: ch_WriteLine_cases)
next
  case (3 t p c l t')
  then show ?case by (cases s) (auto simp: chan_inv_def dest!: ch_ReadLine_cases)
next
  case (4 t p c e t')
  then show ?case by (auto dest!: ch_ReadLine_cases)
next
  case (5 t p c)
  then show ?case
    by (auto simp: ch_ReadLine_def go_select_None split: if_splits list.splits)
next
  case (6 t e t')
  then show ?case by (cases s) (auto simp: chan_inv_def ch_Close_def split: if_splits)
qed

section \<open>Properties\<close>

text \<open>An interleaving of calls at both ends of a pair: what each end wrote and read.\<close>

fun run_pair :: "(side \<times> tr_call) list \<Rightarrow> chan_pair \<Rightarrow>
    (side \<Rightarrow> line list) \<times> (side \<Rightarrow> line list) \<times> chan_pair" where
  "run_pair [] t = ((\<lambda>_. []), (\<lambda>_. []), t)"
| "run_pair ((s, c) # cs) t =
     (let (w, r, u) = run_calls (ch_ReadLine s) (ch_WriteLine s) (ch_Close s) [c] t;
          (W, R, v) = run_pair cs u
      in (W(s := w @ W s), R(s := r @ R s), v))"

lemma run_pair_fifo:
  "\<lbrakk> chan_inv t; run_pair cs t = (W, R, t') \<rbrakk> \<Longrightarrow>
    gc_buf (ch t s) @ W (peer s) = R s @ gc_buf (ch t' s) \<and> chan_inv t' \<and>
    (shut t s \<longrightarrow> W s = [] \<and> shut t' s)"
proof (induction cs arbitrary: t W R s)
  case (Cons sc cs)
  obtain a c where sc: "sc = (a, c)" by (cases sc)
  obtain w r u where run: "run_calls (ch_ReadLine a) (ch_WriteLine a) (ch_Close a) [c] t = (w, r, u)"
    by (metis prod_cases3)
  obtain W1 R1 where rest: "run_pair cs u = (W1, R1, t')" and W: "W = W1(a := w @ W1 a)"
    and R: "R = R1(a := r @ R1 a)"
    using Cons.prems(2) run by (auto simp: sc split: prod.splits)
  note step = chan.run_fifo [OF Cons.prems(1) run]
  have other: "shut u (peer a) = shut t (peer a)"
    using run by (cases c)
      (auto simp: ch_Close_def dest!: ch_ReadLine_cases ch_WriteLine_cases
        split: option.splits sum.splits prod.splits if_splits)
  show ?case
  proof (cases "s = a")
    case True
    with step Cons.IH [OF _ rest, of a] W R show ?thesis by auto
  next
    case False
    then have "s = peer a" by (cases s; cases a; simp)
    with step Cons.IH [OF _ rest, of "peer a"] W R other show ?thesis by auto
  qed
qed simp

text \<open>C40: Whatever the interleaving of reads, writes and closes at the two ends of a channel pair,
  the lines that one end has read are, in order, the first of the lines that the other end's
  \<open>WriteLine\<close> accepted, and the rest, at most 64 lines, wait in the channel: no line is lost,
  doubled or reordered.\<close>

theorem channel_pair_fifo:
  "case run_pair cs NewChannelTransportPair of (W, R, t) \<Rightarrow>
     W (peer s) = R s @ gc_buf (ch t s) \<and> length (gc_buf (ch t s)) \<le> 64"
proof -
  obtain W R t where run: "run_pair cs NewChannelTransportPair = (W, R, t)" by (metis prod_cases3)
  have "chan_inv NewChannelTransportPair"
    by (simp add: chan_inv_def NewChannelTransportPair_def)
  from run_pair_fifo [OF this run, of s]
  have "W (peer s) = R s @ gc_buf (ch t s) \<and> chan_inv t"
    by (simp add: NewChannelTransportPair_def)
  then show ?thesis by (cases s) (simp_all add: run chan_inv_def)
qed

text \<open>After an end of a channel pair was closed it accepts no further line, whatever is called at
  either end, and closing it again changes nothing.\<close>

lemma channel_closed_rejects:
  assumes "chan_inv t" and "run_pair ((s, CClose) # cs) t = (W, R, t')"
  shows "W s = [] \<and> shut t' s \<and> ch_Close s t' = (None, t')"
proof -
  obtain u where u: "ch_Close s t = (None, u)" "shut u s"
    by (simp add: ch_Close_def)
  with assms(1) have "chan_inv u" using chan.close_ok by blast
  moreover obtain W1 R1 where "run_pair cs u = (W1, R1, t')" "W1 s = W s"
    using assms(2) u by (auto split: prod.splits)
  ultimately show ?thesis
    using run_pair_fifo [of u cs W1 R1 t' s] u(2) by (auto simp: ch_Close_def)
qed

text \<open>On an in-memory transport the lines handed to \<open>WriteLine\<close> with success are exactly what
  \<open>Outgoing\<close> returns, in order, and the lines read are the first of the incoming ones.\<close>

theorem in_memory_fifo:
  "case run_calls im_ReadLine im_WriteLine im_Close cs t of (w, r, t') \<Rightarrow>
     Outgoing t' = Outgoing t @ w \<and> im_incoming t = r @ im_incoming t'"
proof -
  obtain w r t' where run: "run_calls im_ReadLine im_WriteLine im_Close cs t = (w, r, t')"
    by (metis prod_cases3)
  show ?thesis using mem.run_fifo [OF _ run] by (simp add: run)
qed

end
