(* ===== verification/Process_Transport.thy ===== *)
theory Process_Transport
  imports Redact Transports
begin

text \<open>
  \<open>transport/transport_process.go\<close>: lines over the pipes of a child process, the redaction of what the
  child writes to its standard error, and \<open>Close\<close>. The pipes are the text still to come and how it
  ends; what the operating system decides is an argument. Spawning the process is left out, but for
  its arguments.
\<close>

section \<open>Text and lines\<close>

text \<open>\<open>bufio.Reader.ReadString('\n')\<close> on the text still to come: the text up to and with the first newline, or all
  of it; whether a newline was found; and the rest.\<close>

fun ReadString :: "string \<Rightarrow> string \<times> bool \<times> string" where
  "ReadString [] = ([], False, [])"
| "ReadString (c # cs) =
     (if c = CHR 0x0A then ([c], True, cs)
      else case ReadString cs of (l, found, rest) \<Rightarrow> (c # l, found, rest))"

definition trim_newline :: "string \<Rightarrow> string" where
  "trim_newline l = (if l \<noteq> [] \<and> last l = CHR 0x0A then butlast l else l)"

definition newline :: "string" where
  "newline = [CHR 0x0A]"

text \<open>\<open>strings.Join\<close> and \<open>strings.Split\<close> with a newline.\<close>

fun join_lines :: "string list \<Rightarrow> string" where
  "join_lines [] = []"
| "join_lines [l] = l"
| "join_lines (l # ls) = l @ newline @ join_lines ls"

fun split_lines :: "string \<Rightarrow> string list" where
  "split_lines [] = [[]]"
| "split_lines (c # cs) =
     (if c = CHR 0x0A then [] # split_lines cs
      else case split_lines cs of l # ls \<Rightarrow> (c # l) # ls | [] \<Rightarrow> [[c]])"

section \<open>Standard error\<close>

definition key_name :: regexp where
  "key_name = ralt [rlit ''PGP PRIVATE KEY BLOCK'', rseq [pem_kind, rlit ''PRIVATE KEY'']]"

definition pemBeginRe :: regexp where
  "pemBeginRe = rseq [rlit ''-----BEGIN '', key_name, rlit ''-----'']"

definition pemEndRe :: regexp where
  "pemEndRe = rseq [rlit ''-----END '', key_name, rlit ''-----'']"

text \<open>\<open>redactString\<close> of this file, with the file's own copy of the patterns of \<open>internal/redact\<close>.\<close>

definition redactString :: "string \<Rightarrow> string" where
  "redactString s = of_bytes
     (foldl (\<lambda>result (re, t). replace_all re t result) (to_bytes s)
       (zip secretPatterns secretReplacements))"

lemma redactString_eq: "redactString s = RedactString s"
  by (simp add: redactString_def RedactString_def)

text \<open>The file's own copy of \<open>RedactSecrets\<close>, which is exported too.\<close>

function RedactSecrets_transport :: "gvalue \<Rightarrow> gvalue" where
  "RedactSecrets_transport (GString s) = GString (redactString s)"
| "RedactSecrets_transport (GMap kvs) = GMap (map (\<lambda>(k, v).
     (k, if match_string secretKeyPattern k then GString ''***'' else RedactSecrets_transport v)) kvs)"
| "RedactSecrets_transport (GList vs) = GList (map RedactSecrets_transport vs)"
| "RedactSecrets_transport (GRaw j) = (case encode_any (RedactSecrets_transport (decode_any j)) of
     Some out \<Rightarrow> GRaw out
   | None \<Rightarrow> GBadRaw [])"
| "RedactSecrets_transport (GBadRaw s) = GBadRaw (redactString s)"
| "RedactSecrets_transport (GOther j) = GOther j"
  by pat_completeness auto
termination
  by (relation "measures [\<lambda>v. if has_raw v then 1 else 0, size]") (auto simp: decode_any_no_raw list_ex_iff)

lemma RedactSecrets_transport_eq: "RedactSecrets_transport v = RedactSecrets v"
  by (induction v rule: RedactSecrets.induct) (auto simp: redactString_eq)

definition flushRedacted :: "string list \<Rightarrow> string list" where
  "flushRedacted ls = split_lines (redactString (join_lines ls))"

text \<open>The state of \<open>logStderr\<close> between two lines, and the lines it has logged.\<close>

record stderr_state =
  accum :: "string list"
  inBlock :: bool
  logged :: "string list"

definition stderr_line :: "string \<Rightarrow> stderr_state \<Rightarrow> stderr_state" where
  "stderr_line line st = (let trimmed = trim_newline line in
     if inBlock st then
       let a = accum st @ [trimmed] in
       if match_string pemEndRe trimmed
       then st\<lparr>accum := [], inBlock := False, logged := logged st @ flushRedacted a\<rparr>
       else st\<lparr>accum := a\<rparr>
     else if match_string pemBeginRe trimmed then
       if match_string pemEndRe trimmed
       then st\<lparr>accum := [], inBlock := False, logged := logged st @ flushRedacted [trimmed]\<rparr>
       else st\<lparr>accum := [trimmed], inBlock := True\<rparr>
     else if line \<noteq> [] then st\<lparr>logged := logged st @ [redactString trimmed]\<rparr>
     else st)"

text \<open>The loop on the whole text: the last read, which meets the end or an error, is handled like a line, and an
  open block is flushed.\<close>

lemma ReadString_shorter: "ReadString s = (l, True, rest) \<Longrightarrow> length rest < length s"
  by (induction s arbitrary: l) (auto split: if_splits prod.splits)

function log_stderr_from :: "string \<Rightarrow> stderr_state \<Rightarrow> stderr_state" where
  "log_stderr_from s st = (case ReadString s of
     (l, True, rest) \<Rightarrow> log_stderr_from rest (stderr_line l st)
   | (l, False, rest) \<Rightarrow> (let st1 = stderr_line l st in
       if inBlock st1 \<and> accum st1 \<noteq> [] then st1\<lparr>logged := logged st1 @ flushRedacted (accum st1)\<rparr> else st1))"
  by pat_completeness auto

termination
  by (relation "measure (\<lambda>(s, st). length s)") (auto dest: ReadString_shorter [OF sym])

declare log_stderr_from.simps [simp del]

definition logStderr :: "string \<Rightarrow> string list" where
  "logStderr s = logged (log_stderr_from s \<lparr>accum = [], inBlock = False, logged = []\<rparr>)"

section \<open>The transport\<close>

text \<open>
  \<open>stdin\<close>: \<open>None\<close> once it is nil, otherwise the text written so far. \<open>stdout\<close>: the text to come, and the
  error with which the pipe ends after it.
\<close>

record child =
  cp_stdin :: "string option"
  cp_stdout :: string
  cp_end :: go_error
  cp_closed :: bool
  cp_once :: bool                       \<comment> \<open>whether \<open>closeOnce\<close> has run\<close>
  cp_signalled :: bool

definition io_error :: "go_error \<Rightarrow> go_error" where
  "io_error e = WrapErr ''io error'' e"

definition timeout_error :: "go_error \<Rightarrow> go_error" where
  "timeout_error e = WrapErr ''timeout'' e"

text \<open>
  \<open>ReadLine\<close>: \<open>before\<close> and \<open>later\<close> are the errors of the context on entry and after the read, \<open>deadline\<close> whether
  the read ended with \<open>os.ErrDeadlineExceeded\<close>, in which case what was read of the line is lost.
\<close>

definition cp_ReadLine :: "go_error option \<Rightarrow> bool \<Rightarrow> go_error option \<Rightarrow> child \<Rightarrow> (go_error + string) \<times> child" where
  "cp_ReadLine before deadline later t = (case before of
     Some e \<Rightarrow> (Inl (timeout_error e), t)
   | None \<Rightarrow> (case ReadString (cp_stdout t) of (l, found, rest) \<Rightarrow>
       let t1 = t\<lparr>cp_stdout := rest\<rparr> in
       if found then (Inr (trim_newline l), t1)
       else if deadline then
         (case later of
            Some e \<Rightarrow> (Inl (timeout_error e), t1)
          | None \<Rightarrow> (Inl (io_error DeadlineExceeded), t1))
       else if errors_Is (cp_end t) EOF then
         (if l \<noteq> [] then (Inr (trim_newline l), t1) else (Inl EOF, t1))
       else (Inl (io_error (cp_end t)), t1)))"

text \<open>\<open>WriteLine\<close>: \<open>werr\<close> is the error of the write, which then wrote the part \<open>n\<close> of the text.\<close>

definition cp_WriteLine :: "go_error option \<Rightarrow> (go_error \<times> nat) option \<Rightarrow> go_error option \<Rightarrow> string \<Rightarrow> child \<Rightarrow>
    go_error option \<times> child" where
  "cp_WriteLine before werr later line t = (case before of
     Some e \<Rightarrow> (Some (timeout_error e), t)
   | None \<Rightarrow>
       if cp_closed t then (Some (PlainErr ''transport closed''), t)
       else (case cp_stdin t of
          None \<Rightarrow> (Some (PlainErr ''stdin not available''), t)
        | Some w \<Rightarrow> (case werr of
            None \<Rightarrow> (None, t\<lparr>cp_stdin := Some (w @ line @ newline)\<rparr>)
          | Some (e, n) \<Rightarrow> (Some (case later of Some c \<Rightarrow> timeout_error c | None \<Rightarrow> io_error e),
              t\<lparr>cp_stdin := Some (w @ take n (line @ newline))\<rparr>))))"

text \<open>\<open>Close\<close>: \<open>cerr\<close> is the error of closing \<open>stdin\<close>. Closing \<open>stdout\<close> ends the reads with \<open>os.ErrClosed\<close>, of which
  only the text matters.\<close>

definition cp_Close :: "go_error option \<Rightarrow> child \<Rightarrow> go_error option \<times> child" where
  "cp_Close cerr t =
     (if cp_once t then (None, t)
      else (if cp_stdin t = None then None else cerr,
        t\<lparr>cp_once := True, cp_closed := True, cp_stdin := None, cp_stdout := [],
          cp_end := PlainErr ''file already closed'', cp_signalled := True\<rparr>))"

text \<open>The arguments of the child process.\<close>

record spawn_options =
  so_WorkDir :: "string option"
  so_Session :: "string option"
  so_Model :: "string option"

definition spawn_args :: "spawn_options \<Rightarrow> string list" where
  "spawn_args opts = [''--wire''] @
     (case so_WorkDir opts of None \<Rightarrow> [] | Some d \<Rightarrow> [''--work-dir'', d]) @
     (case so_Session opts of None \<Rightarrow> [] | Some x \<Rightarrow> [''--session'', x]) @
     (case so_Model opts of None \<Rightarrow> [] | Some m \<Rightarrow> [''--model'', m])"

section \<open>Lines survive the pipe\<close>

fun write_lines :: "string list \<Rightarrow> child \<Rightarrow> child" where
  "write_lines [] t = t"
| "write_lines (l # ls) t = write_lines ls (snd (cp_WriteLine None None None l t))"

fun read_lines :: "nat \<Rightarrow> child \<Rightarrow> (go_error + string) list \<times> child" where
  "read_lines 0 t = ([], t)"
| "read_lines (Suc n) t = (case cp_ReadLine None False None t of
     (r, t1) \<Rightarrow> (case read_lines n t1 of (rs, t2) \<Rightarrow> (r # rs, t2)))"

lemma ReadString_line: "CHR 0x0A \<notin> set l \<Longrightarrow> ReadString (l @ newline @ rest) = (l @ newline, True, rest)"
  by (induction l) (auto simp: newline_def)

lemma ReadString_none: "CHR 0x0A \<notin> set l \<Longrightarrow> ReadString l = (l, False, [])"
  by (induction l) auto

lemma trim_line [simp]: "trim_newline (l @ newline) = l"
  by (simp add: trim_newline_def newline_def)

lemma trim_none: "CHR 0x0A \<notin> set l \<Longrightarrow> trim_newline l = l"
  by (metis last_in_set trim_newline_def)

lemma write_lines_text:
  "cp_stdin t = Some w \<Longrightarrow> \<not> cp_closed t \<Longrightarrow>
    cp_stdin (write_lines ls t) = Some (w @ concat (map (\<lambda>l. l @ newline) ls))"
proof (induction ls arbitrary: t w)
  case (Cons l ls)
  from Cons.prems have "snd (cp_WriteLine None None None l t) = t\<lparr>cp_stdin := Some (w @ l @ newline)\<rparr>"
    by (simp add: cp_WriteLine_def)
  with Cons.IH [of "t\<lparr>cp_stdin := Some (w @ l @ newline)\<rparr>" "w @ l @ newline"] Cons.prems(2) show ?case by simp
qed simp

lemma read_lines_text:
  "list_all (\<lambda>l. CHR 0x0A \<notin> set l) ls \<Longrightarrow> cp_stdout t = concat (map (\<lambda>l. l @ newline) ls) @ rest \<Longrightarrow>
    read_lines (length ls) t = (map Inr ls, t\<lparr>cp_stdout := rest\<rparr>)"
proof (induction ls arbitrary: t)
  case (Cons l ls)
  let ?t = "t\<lparr>cp_stdout := concat (map (\<lambda>l. l @ newline) ls) @ rest\<rparr>"
  have "cp_ReadLine None False None t = (Inr l, ?t)"
    using Cons.prems ReadString_line [of l "concat (map (\<lambda>l. l @ newline) ls) @ rest"]
    by (simp add: cp_ReadLine_def)
  with Cons.IH [of ?t] Cons.prems show ?case by simp
qed simp

lemma read_lines_add:
  "read_lines (n + m) u = (case read_lines n u of (rs, v) \<Rightarrow> case read_lines m v of (ss, w) \<Rightarrow> (rs @ ss, w))"
  by (induction n arbitrary: u) (auto split: prod.splits)

text \<open>A last line without a newline is read too, and then the end.\<close>

lemma read_last_line:
  assumes "list_all (\<lambda>l. CHR 0x0A \<notin> set l) (fin # ls)" and "fin \<noteq> []" and "cp_end u = EOF"
    and "cp_stdout u = concat (map (\<lambda>l. l @ newline) ls) @ fin"
  shows "fst (read_lines (length ls + 2) u) = map Inr ls @ [Inr fin, Inl EOF]"
proof -
  from read_lines_text [OF _ assms(4)] assms(1)
  have "read_lines (length ls) u = (map Inr ls, u\<lparr>cp_stdout := fin\<rparr>)" by simp
  moreover have "cp_ReadLine None False None (u\<lparr>cp_stdout := fin\<rparr>) = (Inr fin, u\<lparr>cp_stdout := []\<rparr>)"
    "cp_ReadLine None False None (u\<lparr>cp_stdout := []\<rparr>) = (Inl EOF, u\<lparr>cp_stdout := []\<rparr>)"
    using assms(1-3) by (simp_all add: cp_ReadLine_def ReadString_none trim_none)
  ultimately show ?thesis unfolding read_lines_add by (simp add: numeral_2_eq_2)
qed

definition demo_child :: child where
  "demo_child = \<lparr>cp_stdin = Some [], cp_stdout = [], cp_end = EOF, cp_closed = False, cp_once = False, cp_signalled = False\<rparr>"

text \<open>After \<open>Close\<close> nothing is written, and a second \<open>Close\<close> changes nothing.\<close>

lemma closed_child_rejects:
  "cp_Close c t = (e, t') \<Longrightarrow> \<not> cp_once t \<Longrightarrow>
    fst (cp_WriteLine ctx werr later l t') \<noteq> None \<and> snd (cp_WriteLine ctx werr later l t') = t' \<and> cp_Close c' t' = (None, t')"
  by (auto simp: cp_Close_def cp_WriteLine_def split: option.split)

section \<open>What is logged of standard error\<close>

text \<open>The text falls into lines logged alone and blocks of lines logged as one.\<close>

datatype chunk = PlainLine string | KeyBlock "string list"

fun chunk_lines :: "chunk \<Rightarrow> string list" where
  "chunk_lines (PlainLine l) = [l]"
| "chunk_lines (KeyBlock ls) = ls"

fun log_chunk :: "chunk \<Rightarrow> string list" where
  "log_chunk (PlainLine l) = [RedactString l]"
| "log_chunk (KeyBlock ls) = split_lines (RedactString (join_lines ls))"

text \<open>A line alone opens no block; a block opens with a BEGIN line and has an END line nowhere but at its end.\<close>

definition chunk_ok :: "chunk \<Rightarrow> bool" where
  "chunk_ok c = (case c of
     PlainLine l \<Rightarrow> \<not> match_string pemBeginRe l
   | KeyBlock ls \<Rightarrow> ls \<noteq> [] \<and> match_string pemBeginRe (hd ls) \<and> list_all (\<lambda>l. \<not> match_string pemEndRe l) (butlast ls))"

definition chunk_complete :: "chunk \<Rightarrow> bool" where
  "chunk_complete c = (case c of PlainLine l \<Rightarrow> True | KeyBlock ls \<Rightarrow> match_string pemEndRe (last ls))"

fun run_lines :: "string list \<Rightarrow> stderr_state \<Rightarrow> stderr_state" where
  "run_lines [] st = st"
| "run_lines [l] st = (let st1 = stderr_line l st in
     if inBlock st1 \<and> accum st1 \<noteq> [] then st1\<lparr>logged := logged st1 @ flushRedacted (accum st1)\<rparr> else st1)"
| "run_lines (l # ls) st = run_lines ls (stderr_line (l @ newline) st)"

lemma ReadString_found:
  "ReadString s = (l, True, rest) \<Longrightarrow> \<exists>x. l = x @ newline \<and> CHR 0x0A \<notin> set x \<and> split_lines s = x # split_lines rest"
proof (induction s arbitrary: l)
  case (Cons c s)
  show ?case
  proof (cases "c = CHR 0x0A")
    case True
    with Cons.prems show ?thesis by (simp add: newline_def)
  next
    case False
    with Cons.prems obtain l' where "l = c # l'" "ReadString s = (l', True, rest)"
      by (auto split: prod.splits)
    with Cons.IH [of l'] False show ?thesis by auto
  qed
qed simp

lemma ReadString_end:
  "ReadString s = (l, False, rest) \<Longrightarrow> l = s \<and> CHR 0x0A \<notin> set s \<and> split_lines s = [s]"
proof (induction s arbitrary: l)
  case (Cons c s)
  then show ?case by (fastforce split: prod.splits if_splits)
qed simp

lemma split_lines_nonempty [simp]: "split_lines s \<noteq> []"
  by (induction s) (auto split: list.split)

lemma log_stderr_lines: "log_stderr_from s st = run_lines (split_lines s) st"
proof (induction s st rule: log_stderr_from.induct)
  case (1 s st)
  obtain l found rest where r: "ReadString s = (l, found, rest)" by (metis prod_cases3)
  show ?case
  proof (cases found)
    case True
    with r ReadString_found [of s l rest] obtain x where x: "l = x @ newline" "split_lines s = x # split_lines rest" by auto
    have "log_stderr_from s st = log_stderr_from rest (stderr_line l st)"
      using r True by (subst log_stderr_from.simps) simp
    also have "\<dots> = run_lines (split_lines rest) (stderr_line l st)" using 1 [OF r [symmetric]] True by simp
    also have "\<dots> = run_lines (split_lines s) st"
      unfolding x by (cases "split_lines rest") simp_all
    finally show ?thesis .
  next
    case False
    with r ReadString_end [of s l rest] show ?thesis
      by (subst log_stderr_from.simps) simp
  qed
qed

text \<open>What the machine logs, as chunks: from a state outside a block, or inside one with the lines \<open>a\<close>.\<close>

fun chunks :: "string list option \<Rightarrow> string list \<Rightarrow> chunk list" where
  "chunks None [] = []"
| "chunks (Some a) [] = [KeyBlock a]"
| "chunks None (l # ls) =
     (if match_string pemBeginRe l then
        (if match_string pemEndRe l then KeyBlock [l] # chunks None ls else chunks (Some [l]) ls)
      else PlainLine l # chunks None ls)"
| "chunks (Some a) (l # ls) =
     (if match_string pemEndRe l then KeyBlock (a @ [l]) # chunks None ls else chunks (Some (a @ [l])) ls)"

lemma chunks_lines: "concat (map chunk_lines (chunks st ls)) = (case st of None \<Rightarrow> [] | Some a \<Rightarrow> a) @ ls"
  by (induction st ls rule: chunks.induct) auto

lemma chunks_ok:
  "(\<forall>a. st = Some a \<longrightarrow> a \<noteq> [] \<and> match_string pemBeginRe (hd a) \<and> list_all (\<lambda>l. \<not> match_string pemEndRe l) a) \<Longrightarrow>
    list_all chunk_ok (chunks st ls)"
  by (induction st ls rule: chunks.induct) (auto simp: chunk_ok_def list_all_iff dest: in_set_butlastD)

lemma chunks_nonempty: "st \<noteq> None \<or> ls \<noteq> [] \<Longrightarrow> chunks st ls \<noteq> []"
  by (induction st ls rule: chunks.induct) auto

lemma chunks_complete: "list_all chunk_complete (butlast (chunks st ls))"
  by (induction st ls rule: chunks.induct) (auto simp: chunk_complete_def)

text \<open>A last line that is empty and alone is not logged.\<close>

definition drop_empty :: "chunk list \<Rightarrow> chunk list" where
  "drop_empty cs = (if cs \<noteq> [] \<and> last cs = PlainLine [] then butlast cs else cs)"

lemma drop_empty_Cons: "cs \<noteq> [] \<Longrightarrow> drop_empty (x # cs) = x # drop_empty cs"
  by (simp add: drop_empty_def)

definition stderr_in :: "string list option \<Rightarrow> string list \<Rightarrow> stderr_state" where
  "stderr_in b out = (case b of
     None \<Rightarrow> \<lparr>accum = [], inBlock = False, logged = out\<rparr> | Some a \<Rightarrow> \<lparr>accum = a, inBlock = True, logged = out\<rparr>)"

lemma no_begin_empty: "\<not> match_string pemBeginRe []"
  by code_simp

lemma run_lines_chunks:
  "ls \<noteq> [] \<Longrightarrow> list_all (\<lambda>l. CHR 0x0A \<notin> set l) ls \<Longrightarrow>
    logged (run_lines ls (stderr_in b out)) = out @ concat (map log_chunk (drop_empty (chunks b ls)))"
proof (induction ls arbitrary: b out)
  case (Cons l ls)
  have l: "trim_newline l = l" "l @ newline \<noteq> []" using Cons.prems(2) by (simp_all add: trim_none newline_def)
  have step: "stderr_line (l @ newline) (stderr_in b out) = (case chunks b [l] of
      [c] \<Rightarrow> (case c of PlainLine x \<Rightarrow> stderr_in None (out @ log_chunk c)
        | KeyBlock x \<Rightarrow> if match_string pemEndRe l then stderr_in None (out @ log_chunk c) else stderr_in (Some x) out)
    | _ \<Rightarrow> stderr_in None out)"
    using l(2) by (cases b) (simp_all add: stderr_line_def stderr_in_def flushRedacted_def redactString_eq Let_def)
  show ?case
  proof (cases ls)
    case Nil
    then show ?thesis
      using l(1) no_begin_empty
      by (cases b) (auto simp: stderr_line_def stderr_in_def flushRedacted_def redactString_eq Let_def drop_empty_def)
  next
    case (Cons m ms)
    then have ne: "ls \<noteq> []" and run: "run_lines (l # ls) st = run_lines ls (stderr_line (l @ newline) st)" for st
      by simp_all
    have no_nl: "list_all (\<lambda>l. CHR 0x0A \<notin> set l) ls" using Cons.prems(2) by simp
    note IH = Cons.IH [OF ne no_nl]
    show ?thesis
      unfolding run step using IH chunks_nonempty [of None ls] ne
      by (cases b) (auto simp: drop_empty_Cons)
  qed
qed simp

lemma split_lines_no_newline: "list_all (\<lambda>l. CHR 0x0A \<notin> set l) (split_lines s)"
  by (induction s) (auto split: list.splits)

lemma logStderr_chunks: "logStderr s = concat (map log_chunk (drop_empty (chunks None (split_lines s))))"
  using run_lines_chunks [OF split_lines_nonempty split_lines_no_newline, of s None "[]"]
  by (simp add: logStderr_def log_stderr_lines stderr_in_def)

text \<open>C19: What is logged of the child's standard error is a division of its lines, none lost, doubled or reordered, into
  lines logged alone after redaction and blocks redacted as one text. A line that opens a private key
  block is never logged alone; a block goes from its BEGIN line to the first END line, and only the last one may
  lack its END. (An empty rest after the last newline is not logged.)\<close>

theorem stderr_redacted_in_blocks:
  "\<exists>cs. logStderr s = concat (map log_chunk (drop_empty cs)) \<and> concat (map chunk_lines cs) = split_lines s \<and>
    list_all chunk_ok cs \<and> list_all chunk_complete (butlast cs)"
  using logStderr_chunks [of s] chunks_lines [of None "split_lines s"] chunks_ok [of None "split_lines s"]
    chunks_complete [of None "split_lines s"] by (intro exI [of _ "chunks None (split_lines s)"]) simp

end
