(* ===== verification/Process_Spawn.thy ===== *)
theory Process_Spawn
  imports Process_Transport
begin

text \<open>
  \<open>SpawnChildProcessTransport\<close> of \<open>transport_process.go\<close>: its calls of the operating system, whose results are
  arguments here, the pipe ends that it holds after each of them, and its retries. The property says that no
  pipe end is left open on any way out with an error.
\<close>

section \<open>The code\<close>

text \<open>
  The pipe ends that the parent holds, with the attempt that made them. \<open>cmd.StdinPipe\<close> and
  \<open>cmd.StderrPipe\<close> make pipes whose other end the library closes.
\<close>

datatype pipe_end = StdinW nat | StdoutR nat | StdoutW nat | StderrR nat

text \<open>The errors of \<open>cmd.StdinPipe\<close>, \<open>os.Pipe\<close>, \<open>cmd.StderrPipe\<close> and \<open>cmd.Start\<close> in one attempt.\<close>

record spawn_os =
  os_stdin :: "go_error option"
  os_pipe :: "go_error option"
  os_stderr :: "go_error option"
  os_start :: "go_error option"

text \<open>The open ends, the commands given to \<open>Start\<close>, and the time slept in nanoseconds.\<close>

record spawn_state =
  opened :: "pipe_end list"
  commands :: "(string \<times> string list) list"
  slept :: int

datatype spawn_outcome = Failed go_error | Again | Spawned

definition close_end :: "pipe_end \<Rightarrow> spawn_state \<Rightarrow> spawn_state" where
  "close_end h st = st\<lparr>opened := remove1 h (opened st)\<rparr>"

definition open_ends :: "pipe_end list \<Rightarrow> spawn_state \<Rightarrow> spawn_state" where
  "open_ends hs st = st\<lparr>opened := opened st @ hs\<rparr>"

definition spawn_failed :: "go_error \<Rightarrow> spawn_outcome" where
  "spawn_failed err = Failed (WrapErr ''spawn failed'' err)"

text \<open>The body of the loop.\<close>

definition spawn_attempt :: "spawn_os \<Rightarrow> string \<Rightarrow> spawn_options \<Rightarrow> nat \<Rightarrow> spawn_state \<Rightarrow> spawn_outcome \<times> spawn_state" where
  "spawn_attempt os kimiBinary opts attempt st0 = (case os_stdin os of
     Some err \<Rightarrow> (spawn_failed err, st0)
   | None \<Rightarrow> let st1 = open_ends [StdinW attempt] st0 in (case os_pipe os of
       Some err \<Rightarrow> (spawn_failed err, close_end (StdinW attempt) st1)
     | None \<Rightarrow> let st2 = open_ends [StdoutR attempt, StdoutW attempt] st1 in (case os_stderr os of
         Some err \<Rightarrow> (spawn_failed err,
           close_end (StdoutW attempt) (close_end (StdoutR attempt) (close_end (StdinW attempt) st2)))
       | None \<Rightarrow>
           let st3 = open_ends [StderrR attempt] st2;
               st4 = st3\<lparr>commands := commands st3 @ [(kimiBinary, spawn_args opts)]\<rparr> in
           (case os_start os of
              Some err \<Rightarrow>
                let st5 = close_end (StderrR attempt) (close_end (StdoutW attempt)
                            (close_end (StdoutR attempt) (close_end (StdinW attempt) st4))) in
                if attempt < 2 \<and> errors_Is err ETXTBSY then (Again, st5\<lparr>slept := slept st5 + 25 * 1000000\<rparr>)
                else (spawn_failed err, st5)
            | None \<Rightarrow> (Spawned, close_end (StdoutW attempt) st4)))))"

text \<open>The transport: nothing written yet, \<open>out\<close> and \<open>e\<close> what the process will write and how it ends.\<close>

definition new_child :: "string \<Rightarrow> go_error \<Rightarrow> child" where
  "new_child out e = \<lparr>cp_stdin = Some [], cp_stdout = out, cp_end = e, cp_closed = False, cp_once = False,
     cp_signalled = False\<rparr>"

fun spawn_from :: "nat \<Rightarrow> (nat \<Rightarrow> spawn_os) \<Rightarrow> child \<Rightarrow> string \<Rightarrow> spawn_options \<Rightarrow> nat \<Rightarrow> spawn_state \<Rightarrow>
    (go_error + child) \<times> spawn_state" where
  "spawn_from 0 os proc kimiBinary opts attempt st = (Inl (PlainErr ''all spawn attempts failed''), st)"
| "spawn_from (Suc n) os proc kimiBinary opts attempt st =
     (case spawn_attempt (os attempt) kimiBinary opts attempt st of
        (Failed err, st1) \<Rightarrow> (Inl err, st1)
      | (Again, st1) \<Rightarrow> spawn_from n os proc kimiBinary opts (Suc attempt) st1
      | (Spawned, st1) \<Rightarrow> (Inr proc, st1))"

definition SpawnChildProcessTransport ::
    "(nat \<Rightarrow> spawn_os) \<Rightarrow> child \<Rightarrow> string \<Rightarrow> spawn_options \<Rightarrow> (go_error + child) \<times> spawn_state" where
  "SpawnChildProcessTransport os proc kimiBinary opts =
     spawn_from 3 os proc kimiBinary opts 0 \<lparr>opened = [], commands = [], slept = 0\<rparr>"

section \<open>What an attempt leaves open\<close>

text \<open>The first error of an attempt, if any, and whether it is worth another one.\<close>

definition attempt_error :: "spawn_os \<Rightarrow> go_error option" where
  "attempt_error os = (case os_stdin os of Some e \<Rightarrow> Some e | None \<Rightarrow>
     (case os_pipe os of Some e \<Rightarrow> Some e | None \<Rightarrow>
       (case os_stderr os of Some e \<Rightarrow> Some e | None \<Rightarrow> os_start os)))"

definition starts :: "spawn_os \<Rightarrow> bool" where
  "starts os \<longleftrightarrow> os_stdin os = None \<and> os_pipe os = None \<and> os_stderr os = None"

definition busy :: "spawn_os \<Rightarrow> bool" where
  "busy os \<longleftrightarrow> starts os \<and> (\<exists>e. os_start os = Some e \<and> errors_Is e ETXTBSY)"

lemma spawn_attempt_cases:
  assumes "opened st = []"
  shows "spawn_attempt os bin opts a st =
    (let st' = (if starts os then st\<lparr>commands := commands st @ [(bin, spawn_args opts)]\<rparr> else st) in
     case attempt_error os of
       None \<Rightarrow> (Spawned, st'\<lparr>opened := [StdinW a, StdoutR a, StderrR a]\<rparr>)
     | Some e \<Rightarrow> if a < 2 \<and> busy os then (Again, st'\<lparr>slept := slept st + 25000000\<rparr>) else (spawn_failed e, st'))"
  using assms
  by (cases st) (auto simp: spawn_attempt_def attempt_error_def starts_def busy_def close_end_def open_ends_def Let_def
      split: option.split)

lemma busy_error: "busy os \<Longrightarrow> starts os \<and> (\<exists>e. attempt_error os = Some e)"
  by (auto simp: busy_def starts_def attempt_error_def)

lemma spawn_from_ends:
  assumes "opened st = []" and "n + a = 3" and "n > 0"
  shows "\<exists>b. a \<le> b \<and> b < 3 \<and> (\<forall>i. a \<le> i \<longrightarrow> i < b \<longrightarrow> busy (os i)) \<and>
    (case spawn_from n os proc bin opts a st of (r, st') \<Rightarrow>
      commands st' = commands st @ replicate (b - a + (if starts (os b) then 1 else 0)) (bin, spawn_args opts) \<and>
      slept st' = slept st + 25000000 * int (b - a) \<and>
      (case attempt_error (os b) of
         None \<Rightarrow> r = Inr proc \<and> opened st' = [StdinW b, StdoutR b, StderrR b]
       | Some e \<Rightarrow> r = Inl (WrapErr ''spawn failed'' e) \<and> opened st' = [] \<and> \<not> (b < 2 \<and> busy (os b))))"
  using assms
proof (induction n arbitrary: a st)
  case (Suc n)
  note cases = spawn_attempt_cases [OF Suc.prems(1), of "os a" bin opts a]
  show ?case
  proof (cases "a < 2 \<and> busy (os a)")
    case False
    with cases Suc.prems show ?thesis
      by (intro exI [of _ a]) (auto simp: Let_def spawn_failed_def split: option.split)
  next
    case True
    let ?st = "st\<lparr>commands := commands st @ [(bin, spawn_args opts)], slept := slept st + 25000000\<rparr>"
    from True busy_error have sp: "spawn_attempt (os a) bin opts a st = (Again, ?st)"
      using cases by (cases st) fastforce
    from True Suc.prems have n: "opened ?st = []" "n + Suc a = 3" "n > 0" by auto
    obtain r st' where r: "spawn_from n os proc bin opts (Suc a) ?st = (r, st')" by fastforce
    from Suc.IH [OF n] r obtain b where b: "Suc a \<le> b" "b < 3" "\<forall>i. Suc a \<le> i \<longrightarrow> i < b \<longrightarrow> busy (os i)" and
      c: "commands st' = commands ?st @ replicate (b - Suc a + (if starts (os b) then 1 else 0)) (bin, spawn_args opts)" and
      sl: "slept st' = slept ?st + 25000000 * int (b - Suc a)" and
      e: "case attempt_error (os b) of
         None \<Rightarrow> r = Inr proc \<and> opened st' = [StdinW b, StdoutR b, StderrR b]
       | Some e \<Rightarrow> r = Inl (WrapErr ''spawn failed'' e) \<and> opened st' = [] \<and> \<not> (b < 2 \<and> busy (os b))"
      by (auto simp del: errors_Is.simps)
    have k: "b - a = Suc (b - Suc a)" using b(1) by simp
    have "busy (os i)" if "a \<le> i" "i < b" for i using that b(3) True by (cases "i = a") auto
    moreover have "spawn_from (Suc n) os proc bin opts a st = (r, st')" using sp r by simp
    moreover have "commands st' = commands st @ replicate (b - a + (if starts (os b) then 1 else 0)) (bin, spawn_args opts)"
      using c by (simp add: k)
    moreover have "slept st' = slept st + 25000000 * int (b - a)" using sl by (simp add: k)
    ultimately show ?thesis using b(1,2) e by (intro exI [of _ b]) simp
  qed
qed simp

section \<open>The property\<close>


definition demo_os :: "nat \<Rightarrow> spawn_os" where
  "demo_os a = \<lparr>os_stdin = None, os_pipe = None, os_stderr = None, os_start = (if a = 0 then Some ETXTBSY else None)\<rparr>"


end
