(* ===== verification/Json_Text.thy ===== *)
theory Json_Text
  imports Process_Transport
begin

text \<open>
  The text of messages, as \<open>encoding/json\<close> writes and reads it. The other theories take a message to be a
  JSON value; here a value is printed as \<open>json.Marshal\<close> prints it (compact, with its escapes) and text
  is read as \<open>json.Unmarshal\<close> scans it (white space, the literals, at most 10000 levels of nesting).
  Reading what was printed gives the value back, with bytes that are no UTF-8 replaced in its strings;
  the printed text has no newline; so messages survive the pipes of a child process.
\<close>

section \<open>Strings\<close>

definition rune_at :: "string \<Rightarrow> (int \<times> nat) option" where
  "rune_at s = next_rune (to_bytes s)"

text \<open>The replacement character in UTF-8.\<close>

definition bad_rune :: string where
  "bad_rune = [CHR 0xEF, CHR 0xBF, CHR 0xBD]"

definition hex_digits :: "nat \<Rightarrow> string" where
  "hex_digits n = [hex_char (n div 4096 mod 16), hex_char (n div 256 mod 16), hex_char (n div 16 mod 16),
     hex_char (n mod 16)]"

definition u_escape :: "nat \<Rightarrow> string" where
  "u_escape n = CHR 0x5C # CHR ''u'' # hex_digits n"

definition simple_escapes :: "(char \<times> char) list" where
  "simple_escapes = [(CHR 0x22, CHR 0x22), (CHR 0x5C, CHR 0x5C), (CHR ''b'', CHR 0x08), (CHR ''f'', CHR 0x0C),
     (CHR ''n'', CHR 0x0A), (CHR ''r'', CHR 0x0D), (CHR ''t'', CHR 0x09)]"

text \<open>An ASCII character; \<open>json.Marshal\<close> also escapes the three characters that HTML cares about.\<close>

definition enc_ascii :: "char \<Rightarrow> string" where
  "enc_ascii c = (case map_of (map prod.swap simple_escapes) c of
     Some e \<Rightarrow> [CHR 0x5C, e]
   | None \<Rightarrow>
       if (of_char c :: nat) < 32 \<or> c \<in> {CHR ''<'', CHR ''>'', CHR 0x26} then u_escape (of_char c) else [c])"

definition enc_rune :: "int \<Rightarrow> nat \<Rightarrow> string \<Rightarrow> string" where
  "enc_rune r w s =
     (if r < 128 then enc_ascii (hd s)
      else if r = 65533 \<and> w = 1 then u_escape 65533
      else if r = 8232 \<or> r = 8233 then u_escape (nat r)
      else take w s)"

function enc_chars :: "string \<Rightarrow> string" where
  "enc_chars s = (case rune_at s of
     None \<Rightarrow> []
   | Some (r, w) \<Rightarrow> enc_rune r w s @ enc_chars (drop w s))"
  by pat_completeness auto

termination
  by (relation "measure length") (auto simp: rune_at_def to_bytes_def dest!: next_rune_width)

declare enc_chars.simps [simp del]

text \<open>The string that arrives.\<close>

function utf8_string :: "string \<Rightarrow> string" where
  "utf8_string s = (case rune_at s of
     None \<Rightarrow> []
   | Some (r, w) \<Rightarrow> (if r = 65533 \<and> w = 1 then bad_rune else take w s) @ utf8_string (drop w s))"
  by pat_completeness auto

termination
  by (relation "measure length") (auto simp: rune_at_def to_bytes_def dest!: next_rune_width)

declare utf8_string.simps [simp del]

text \<open>Reading: four hexadecimal digits; the UTF-8 of a code point; what follows a backslash, with surrogate pairs; the
  rest of a string after its opening quote.\<close>

definition hex_val :: "char \<Rightarrow> nat option" where
  "hex_val c = (let n = of_char c in
     if 48 \<le> n \<and> n \<le> 57 then Some (n - 48)
     else if 97 \<le> n \<and> n \<le> 102 then Some (n - 87)
     else if 65 \<le> n \<and> n \<le> 70 then Some (n - 55) else None)"

fun hex4 :: "string \<Rightarrow> (nat \<times> string) option" where
  "hex4 (a # b # c # d # s) = (case (hex_val a, hex_val b, hex_val c, hex_val d) of
     (Some w, Some x, Some y, Some z) \<Rightarrow> Some (4096 * w + 256 * x + 16 * y + z, s)
   | _ \<Rightarrow> None)"
| "hex4 s = None"

definition utf8 :: "nat \<Rightarrow> string" where
  "utf8 n = map char_of
     (if n < 128 then [n]
      else if n < 2048 then [192 + n div 64, 128 + n mod 64]
      else if n < 65536 then [224 + n div 4096, 128 + n div 64 mod 64, 128 + n mod 64]
      else [240 + n div 262144, 128 + n div 4096 mod 64, 128 + n div 64 mod 64, 128 + n mod 64])"

definition low_surrogate :: "string \<Rightarrow> (nat \<times> string) option" where
  "low_surrogate s = (case s of
     a # b # r \<Rightarrow> if a = CHR 0x5C \<and> b = CHR ''u'' then
         (case hex4 r of Some (m, t) \<Rightarrow> if 56320 \<le> m \<and> m < 57344 then Some (m, t) else None | None \<Rightarrow> None)
       else None
   | _ \<Rightarrow> None)"

definition dec_escape :: "string \<Rightarrow> (string \<times> string) option" where
  "dec_escape s = (case s of
     [] \<Rightarrow> None
   | e # r \<Rightarrow>
       if e = CHR ''u'' then (case hex4 r of
           None \<Rightarrow> None
         | Some (n, r1) \<Rightarrow>
             if 55296 \<le> n \<and> n < 57344 then
               (case low_surrogate r1 of
                  Some (m, r2) \<Rightarrow> if n < 56320 then Some (utf8 (65536 + (n - 55296) * 1024 + (m - 56320)), r2)
                    else Some (bad_rune, r1)
                | None \<Rightarrow> Some (bad_rune, r1))
             else Some (utf8 n, r1))
       else if e = CHR ''/'' then Some (''/'', r)
       else map_option (\<lambda>c. ([c], r)) (map_of simple_escapes e))"

lemma hex4_shorter: "hex4 s = Some (n, r) \<Longrightarrow> length r < length s"
  by (induction s rule: hex4.induct) (auto split: option.splits prod.splits)

lemma dec_escape_shorter: "dec_escape s = Some (t, r) \<Longrightarrow> length r < length s"
  by (auto simp: dec_escape_def low_surrogate_def dest!: hex4_shorter split: list.splits if_splits option.splits)

function dec_chars :: "string \<Rightarrow> (string \<times> string) option" where
  "dec_chars [] = None"
| "dec_chars (c # s) =
     (if c = CHR 0x22 then Some ([], s)
      else if c = CHR 0x5C then (case dec_escape s of
          None \<Rightarrow> None
        | Some (t, r) \<Rightarrow> map_option (\<lambda>(u, q). (t @ u, q)) (dec_chars r))
      else if (of_char c :: nat) < 32 then None
      else (case rune_at (c # s) of
          None \<Rightarrow> None
        | Some (r, w) \<Rightarrow> map_option (\<lambda>(u, q). ((if r = 65533 \<and> w = 1 then bad_rune else take w (c # s)) @ u, q))
            (dec_chars (drop w (c # s)))))"
  by pat_completeness auto

termination
  by (relation "measure length") (auto simp: rune_at_def to_bytes_def dest: dec_escape_shorter dest!: next_rune_width)

declare dec_chars.simps(2) [simp del]

text \<open>The three kinds of runes.\<close>

lemma to_bytes_Cons [simp]: "to_bytes (c # s) = of_char c # to_bytes s" "to_bytes [] = []"
  by (simp_all add: to_bytes_def)

lemma int_char: "int (of_char c) = of_char c"
  by (rule of_nat_of_char)

lemma rune_ascii: "(of_char c :: int) < 128 \<Longrightarrow> rune_at (c # s) = Some (of_char c, 1)"
  by (simp add: rune_at_def)

definition multi_rune :: "string \<Rightarrow> int \<Rightarrow> nat \<Rightarrow> bool" where
  "multi_rune u r w \<longleftrightarrow> 2 \<le> w \<and> length u = w \<and> 128 \<le> r \<and> (\<forall>c \<in> set u. 128 \<le> (of_char c :: int)) \<and>
     (\<forall>x. rune_at (u @ x) = Some (r, w))"

lemma rune_kind:
  assumes "rune_at (c # s) = Some (r, w)"
  shows "r = of_char c \<and> w = 1 \<and> (of_char c :: int) < 128 \<or> r = 65533 \<and> w = 1 \<and> 128 \<le> (of_char c :: int) \<or>
    multi_rune (take w (c # s)) r w"
proof (cases "(of_char c :: int) < 128")
  case True
  with assms show ?thesis by (simp add: rune_ascii)
next
  case False
  then have b0: "128 \<le> (of_char c :: int)" by simp
  show ?thesis
  proof (cases "r = 65533 \<and> w = 1")
    case bad: False
    have "multi_rune (take w (c # s)) r w"
    proof (cases s)
      case Nil
      with assms b0 bad show ?thesis by (auto simp: rune_at_def next_rune_def split: if_splits)
    next
      case (Cons c1 s1)
      show ?thesis
      proof (cases s1)
        case Nil
        with assms b0 bad Cons show ?thesis
          by (auto simp: rune_at_def next_rune_def rune2_def multi_rune_def second_ok_def cont_def
              split: if_splits)
      next
        case c2: (Cons c2 s2)
        show ?thesis
        proof (cases s2)
          case Nil
          with assms b0 bad Cons c2 show ?thesis
            by (auto simp: rune_at_def next_rune_def rune2_def rune3_def multi_rune_def second_ok_def cont_def
                split: if_splits)
        next
          case (Cons c3 s3)
          with assms b0 bad \<open>s = c1 # s1\<close> c2 show ?thesis
            by (auto simp: rune_at_def next_rune_def rune2_def rune3_def rune4_def multi_rune_def second_ok_def cont_def
                split: if_splits)
        qed
      qed
    qed
    then show ?thesis by blast
  qed (use False in simp)
qed

lemma int_char_less: "(of_char c :: nat) < numeral k \<longleftrightarrow> (of_char c :: int) < numeral k"
  by (subst int_char [symmetric], rule of_nat_less_numeral_iff [symmetric])

lemma hex_val_char [simp]: "d < 16 \<Longrightarrow> hex_val (hex_char d) = Some d"
  by (simp add: hex_val_def hex_char_def Let_def)

lemma hex4_digits:
  assumes "n < 65536"
  shows "hex4 (hex_digits n @ s) = Some (n, s)"
proof -
  have "n div 16 div 16 = n div 256" "n div 256 div 16 = n div 4096" by (simp_all add: div_mult2_eq [symmetric])
  then have "n = 16 * (n div 16) + n mod 16" "n div 16 = 16 * (n div 256) + n div 16 mod 16"
    "n div 256 = 16 * (n div 4096) + n div 256 mod 16" by (metis mult_div_mod_eq)+
  then have "4096 * (n div 4096) + 256 * (n div 256 mod 16) + 16 * (n div 16 mod 16) + n mod 16 = n"
    by linarith
  moreover have "n div 4096 < 16" using assms by simp
  ultimately show ?thesis by (simp add: hex_digits_def)
qed

lemma dec_u_escape:
  assumes "n < 65536" and "\<not> (55296 \<le> n \<and> n < 57344)"
  shows "dec_chars (u_escape n @ s) = map_option (\<lambda>(u, q). (utf8 n @ u, q)) (dec_chars s)"
proof -
  have "dec_escape (CHR ''u'' # hex_digits n @ s) = Some (utf8 n, s)"
    using assms(2) by (auto simp: dec_escape_def hex4_digits [OF assms(1)])
  then show ?thesis by (simp add: u_escape_def dec_chars.simps(2))
qed

lemma utf8_ascii: "(of_char c :: nat) < 128 \<Longrightarrow> utf8 (of_char c) = [c]"
  by (simp add: utf8_def)

lemma dec_enc_ascii:
  assumes "(of_char c :: int) < 128"
  shows "dec_chars (enc_ascii c @ s) = map_option (\<lambda>(u, q). (c # u, q)) (dec_chars s)"
proof (cases "map_of (map prod.swap simple_escapes) c")
  case (Some e)
  then have "map_of simple_escapes e = Some c \<and> e \<noteq> CHR ''u'' \<and> e \<noteq> CHR ''/''"
    by (auto simp: simple_escapes_def split: if_splits)
  with Some show ?thesis by (simp add: enc_ascii_def dec_chars.simps(2) dec_escape_def)
next
  case None
  have c: "(of_char c :: nat) < 128" using assms int_char_less by blast
  show ?thesis
  proof (cases "(of_char c :: nat) < 32 \<or> c \<in> {CHR ''<'', CHR ''>'', CHR 0x26}")
    case True
    with None dec_u_escape [of "of_char c" s] c show ?thesis by (simp add: enc_ascii_def utf8_ascii)
  next
    case False
    from None have "c \<noteq> CHR 0x22" "c \<noteq> CHR 0x5C" by (auto simp: simple_escapes_def)
    with None False assms show ?thesis
      by (simp add: enc_ascii_def dec_chars.simps(2) rune_ascii)
  qed
qed

lemma dec_multi_rune:
  assumes "multi_rune u r w"
  shows "dec_chars (u @ s) = map_option (\<lambda>(v, q). (u @ v, q)) (dec_chars s)"
proof -
  from assms obtain c t where u: "u = c # t" by (cases u) (auto simp: multi_rune_def)
  with assms have "128 \<le> (of_char c :: int)" "rune_at (c # t @ s) = Some (r, w)" "length (c # t) = w" "w \<noteq> 1"
    by (auto simp: multi_rune_def)
  moreover from this(1) have "c \<noteq> CHR 0x22" "c \<noteq> CHR 0x5C" "\<not> (of_char c :: nat) < 32"
    by (auto simp: int_char_less)
  ultimately show ?thesis by (auto simp: u dec_chars.simps(2))
qed

lemma separator_bytes:
  fixes x y z :: int
  assumes "(x - 224) * 4096 + (y - 128) * 64 + (z - 128) = r" and "8232 \<le> r" and "r \<le> 8233"
    and "128 \<le> y" and "y \<le> 191" and "128 \<le> z" and "z \<le> 191"
  shows "x = 226" "y = 128" "z = r - 8064"
proof -
  have e: "4096 * x + 64 * y + z = r + 925824" using assms(1) by (simp add: algebra_simps)
  have "225 < x" using e assms(2-) by linarith
  moreover have "x < 227" using e assms(2-) by linarith
  ultimately show x: "x = 226" by linarith
  have "y < 129" using e assms(2-) x by linarith
  with assms(4) show y: "y = 128" by linarith
  show "z = r - 8064" using e x y by linarith
qed

lemma char_of_int: "(of_char c :: int) = b \<Longrightarrow> c = char_of (nat b)"
  by (metis char_of_char int_char nat_int)

text \<open>The two line separators have one encoding.\<close>

lemma multi_separators:
  assumes "multi_rune u r w" and "r = 8232 \<or> r = 8233"
  shows "u = utf8 (nat r)"
proof -
  from assms(1) have "rune_at (u @ []) = Some (r, w)" "length u = w" unfolding multi_rune_def by blast+
  then have at: "rune_at u = Some (r, w)" "length u = w" by simp_all
  from at(1) obtain c0 v where u: "u = c0 # v" by (cases u) (auto simp: rune_at_def)
  let ?b = "\<lambda>c. (of_char c :: int)"
  have two: "\<not> (194 \<le> ?b c0 \<and> ?b c0 \<le> 223 \<and> rune2 (?b c0) b = (r, w))" for b
    using assms by (auto simp: rune2_def multi_rune_def second_ok_def cont_def split: if_splits)
  have four: "\<not> (240 \<le> ?b c0 \<and> ?b c0 \<le> 244 \<and> rune4 (?b c0) b c d = (r, w))" for b c d
    using assms by (auto simp: rune4_def multi_rune_def second_ok_def cont_def split: if_splits)
  from at(1) assms(1) obtain c1 c2 t where v: "v = c1 # c2 # t" "224 \<le> ?b c0" "?b c0 \<le> 239"
    "rune3 (?b c0) (?b c1) (?b c2) = (r, w)"
    using two four
    by (auto simp: u rune_at_def next_rune_def multi_rune_def to_bytes_def split: if_splits list.splits)
  with assms(1) have w: "w = 3" "second_ok (?b c0) (?b c1)" "cont (?b c2)"
    "(?b c0 - 224) * 4096 + (?b c1 - 128) * 64 + (?b c2 - 128) = r"
    by (auto simp: rune3_def multi_rune_def split: if_splits)
  then have c1: "128 \<le> ?b c1" "?b c1 \<le> 191" and c2: "128 \<le> ?b c2" "?b c2 \<le> 191"
    by (auto simp: second_ok_def cont_def split: if_splits)
  have r: "8232 \<le> r" "r \<le> 8233" using assms(2) by auto
  from separator_bytes [OF w(4) r c1 c2] have "?b c0 = 226" "?b c1 = 128" "?b c2 = r - 8064" .
  moreover have "t = []" using at(2) w(1) by (simp add: u v)
  ultimately show ?thesis using assms(2) by (auto simp: u v utf8_def dest!: char_of_int)
qed

lemma rune_at_None: "rune_at s = None \<longleftrightarrow> s = []"
  by (cases s) (auto simp: rune_at_def next_rune_def split: list.splits)

lemma utf8_bad: "utf8 65533 = bad_rune"
  by (simp add: utf8_def bad_rune_def char_of_def bit_0)

lemma dec_enc_rune:
  assumes "rune_at s = Some (r, w)"
  shows "dec_chars (enc_rune r w s @ x) =
    map_option (\<lambda>(u, q). ((if r = 65533 \<and> w = 1 then bad_rune else take w s) @ u, q)) (dec_chars x)"
proof -
  from assms obtain c t where s: "s = c # t" by (cases s) (auto simp: rune_at_def)
  from rune_kind [OF assms [unfolded s]]
  consider (ascii) "r = of_char c" "w = 1" "(of_char c :: int) < 128" | (bad) "r = 65533" "w = 1"
    | (multi) "multi_rune (take w (c # t)) r w" by blast
  then show ?thesis
  proof cases
    case ascii
    with dec_enc_ascii [OF ascii(3), of x] show ?thesis by (simp add: enc_rune_def s)
  next
    case bad
    then have "enc_rune r w s = u_escape 65533" by (simp add: enc_rune_def)
    moreover have "dec_chars (u_escape 65533 @ x) = map_option (\<lambda>(u, q). (utf8 65533 @ u, q)) (dec_chars x)"
      by (rule dec_u_escape) simp_all
    ultimately show ?thesis by (simp only: bad utf8_bad simp_thms if_True)
  next
    case multi
    then have w: "w \<noteq> 1" "\<not> r < 128" by (auto simp: multi_rune_def)
    show ?thesis
    proof (cases "r = 8232 \<or> r = 8233")
      case True
      with multi_separators [OF multi True] dec_u_escape [of "nat r" x] w show ?thesis by (auto simp: enc_rune_def s)
    next
      case False
      with dec_multi_rune [OF multi, of x] w show ?thesis by (simp add: enc_rune_def s)
    qed
  qed
qed

lemma dec_enc_chars: "dec_chars (enc_chars s @ CHR 0x22 # q) = Some (utf8_string s, q)"
proof (induction s rule: enc_chars.induct)
  case (1 s)
  show ?case
  proof (cases "rune_at s")
    case None
    then show ?thesis by (simp add: enc_chars.simps [of s] utf8_string.simps [of s] dec_chars.simps(2))
  next
    case (Some rw)
    obtain r w where rw: "rw = (r, w)" by (cases rw)
    with Some have at: "rune_at s = Some (r, w)" by simp
    from 1 [OF at refl] dec_enc_rune [OF at] at show ?thesis
      by (simp add: enc_chars.simps [of s] utf8_string.simps [of s])
  qed
qed

text \<open>What is printed has no newline.\<close>

lemma hex_char_plain: "hex_char d \<noteq> CHR 0x0A" if "d < 16"
  using that hex_val_char [OF that] by (auto simp: hex_val_def)

lemma u_escape_plain: "CHR 0x0A \<notin> set (u_escape n)"
proof -
  have "hex_char (k mod 16) \<noteq> CHR 0x0A" for k by (rule hex_char_plain) simp
  from this [of "n div 4096"] this [of "n div 256"] this [of "n div 16"] this [of n] show ?thesis
    unfolding u_escape_def hex_digits_def by (simp only: list.set insert_iff empty_iff) auto
qed

lemma enc_chars_plain: "CHR 0x0A \<notin> set (enc_chars s)"
proof (induction s rule: enc_chars.induct)
  case (1 s)
  show ?case
  proof (cases "rune_at s")
    case (Some rw)
    obtain r w where rw: "rw = (r, w)" by (cases rw)
    with Some have at: "rune_at s = Some (r, w)" by simp
    then obtain c t where s: "s = c # t" by (cases s) (auto simp: rune_at_def)
    have "CHR 0x0A \<notin> set (enc_ascii c)"
      using u_escape_plain by (auto simp: enc_ascii_def simple_escapes_def split: option.splits if_splits)
    moreover have "CHR 0x0A \<notin> set u" if "multi_rune u r w" for u using that by (auto simp: multi_rune_def)
    ultimately have "CHR 0x0A \<notin> set (enc_rune r w s)"
      using rune_kind [OF at [unfolded s]] u_escape_plain
      by (auto simp: enc_rune_def s)
    with 1 [OF at refl] at show ?thesis by (simp add: enc_chars.simps [of s])
  qed (simp add: enc_chars.simps [of s])
qed

section \<open>Values\<close>

text \<open>A number as the scanner accepts it.\<close>

definition exp_ok :: "string \<Rightarrow> bool" where
  "exp_ok s = (case s of
     [] \<Rightarrow> True
   | c # r \<Rightarrow> c \<in> {CHR ''e'', CHR ''E''} \<and>
       (let t = (case r of d # u \<Rightarrow> if d \<in> {CHR ''+'', CHR ''-''} then u else r | [] \<Rightarrow> [])
        in t \<noteq> [] \<and> list_all is_digit t))"

definition frac_ok :: "string \<Rightarrow> bool" where
  "frac_ok s = (case s of
     [] \<Rightarrow> True
   | c # r \<Rightarrow> if c = CHR ''.'' then takeWhile is_digit r \<noteq> [] \<and> exp_ok (dropWhile is_digit r) else exp_ok s)"

definition number_ok :: "string \<Rightarrow> bool" where
  "number_ok s = (let t = (case s of c # r \<Rightarrow> if c = CHR ''-'' then r else s | [] \<Rightarrow> []); i = takeWhile is_digit t in
     i \<noteq> [] \<and> (hd i = CHR ''0'' \<longrightarrow> length i = 1) \<and> frac_ok (dropWhile is_digit t))"

definition number_char :: "char \<Rightarrow> bool" where
  "number_char c \<longleftrightarrow> is_digit c \<or> c \<in> {CHR ''-'', CHR ''+'', CHR ''.'', CHR ''e'', CHR ''E''}"

fun print_json :: "json \<Rightarrow> string" where
  "print_json JNull = ''null''"
| "print_json (JBool b) = (if b then ''true'' else ''false'')"
| "print_json (JNum n) = n"
| "print_json (JStr s) = CHR 0x22 # enc_chars s @ [CHR 0x22]"
| "print_json (JArr js) = CHR ''['' # comma_sep (map print_json js) @ '']''"
| "print_json (JObj kvs) = CHR ''{'' #
     comma_sep (map (\<lambda>(k, v). CHR 0x22 # enc_chars k @ CHR 0x22 # CHR '':'' # print_json v) kvs) @ ''}''"

definition is_space :: "char \<Rightarrow> bool" where
  "is_space c \<longleftrightarrow> c \<in> {CHR 0x20, CHR 0x09, CHR 0x0A, CHR 0x0D}"

definition skip_space :: "string \<Rightarrow> string" where
  "skip_space s = dropWhile is_space s"

definition literals :: "(string \<times> json) list" where
  "literals = [(''null'', JNull), (''true'', JBool True), (''false'', JBool False)]"

text \<open>A literal or a number.\<close>

definition scan_scalar :: "string \<Rightarrow> (json \<times> string) option" where
  "scan_scalar s = (case find (\<lambda>(l, j). take (length l) s = l) literals of
     Some (l, j) \<Rightarrow> Some (j, drop (length l) s)
   | None \<Rightarrow> (let n = takeWhile number_char s in
       if number_ok n then Some (JNum n, dropWhile number_char s) else None))"

text \<open>The scanner, with fuel for its recursion (the length of the text is enough) and the levels of nesting that
  are left. The library's messages for malformed text are not told apart.\<close>

fun scan_value :: "nat \<Rightarrow> nat \<Rightarrow> string \<Rightarrow> (json \<times> string) option"
  and scan_elements :: "nat \<Rightarrow> nat \<Rightarrow> string \<Rightarrow> (json list \<times> string) option"
  and scan_members :: "nat \<Rightarrow> nat \<Rightarrow> string \<Rightarrow> ((string \<times> json) list \<times> string) option" where
  "scan_value 0 d s = None"
| "scan_value (Suc n) d s = (case skip_space s of
     [] \<Rightarrow> None
   | c # r \<Rightarrow>
       if c = CHR 0x22 then map_option (\<lambda>(t, q). (JStr t, q)) (dec_chars r)
       else if c = CHR ''['' then
         (if d = 0 then None
          else case skip_space r of
            e # q \<Rightarrow> if e = CHR '']'' then Some (JArr [], q)
              else map_option (\<lambda>(js, q). (JArr js, q)) (scan_elements n (d - 1) r)
          | [] \<Rightarrow> None)
       else if c = CHR ''{'' then
         (if d = 0 then None
          else case skip_space r of
            e # q \<Rightarrow> if e = CHR ''}'' then Some (JObj [], q)
              else map_option (\<lambda>(kvs, q). (JObj kvs, q)) (scan_members n (d - 1) r)
          | [] \<Rightarrow> None)
       else scan_scalar (c # r))"
| "scan_elements 0 d s = None"
| "scan_elements (Suc n) d s = (case scan_value n d s of
     None \<Rightarrow> None
   | Some (j, r) \<Rightarrow> (case skip_space r of
       c # q \<Rightarrow> if c = CHR '','' then map_option (\<lambda>(js, t). (j # js, t)) (scan_elements n d q)
         else if c = CHR '']'' then Some ([j], q) else None
     | [] \<Rightarrow> None))"
| "scan_members 0 d s = None"
| "scan_members (Suc n) d s = (case skip_space s of
     [] \<Rightarrow> None
   | c # r \<Rightarrow> if c \<noteq> CHR 0x22 then None else (case dec_chars r of
       None \<Rightarrow> None
     | Some (k, r1) \<Rightarrow> (case skip_space r1 of
         [] \<Rightarrow> None
       | e # r2 \<Rightarrow> if e \<noteq> CHR '':'' then None else (case scan_value n d r2 of
           None \<Rightarrow> None
         | Some (v, r3) \<Rightarrow> (case skip_space r3 of
             f # q \<Rightarrow> if f = CHR '','' then map_option (\<lambda>(kvs, t). ((k, v) # kvs, t)) (scan_members n d q)
               else if f = CHR ''}'' then Some ([(k, v)], q) else None
           | [] \<Rightarrow> None)))))"

text \<open>\<open>json.Unmarshal\<close> up to the decoding: one value and nothing but white space after it.\<close>

definition read_json :: "string \<Rightarrow> line" where
  "read_json s = (case scan_value (length s + 1) 10000 s of
     None \<Rightarrow> Inl SyntaxError
   | Some (j, r) \<Rightarrow> if skip_space r = [] then Inr j else Inl SyntaxError)"

section \<open>What is printed is read back\<close>

text \<open>The values that can be printed and read: numbers in the scanner's grammar, nesting within the limit.\<close>

fun printable :: "nat \<Rightarrow> json \<Rightarrow> bool" where
  "printable d (JNum n) = number_ok n"
| "printable d (JArr js) = (d \<noteq> 0 \<and> (\<forall>j \<in> set js. printable (d - 1) j))"
| "printable d (JObj kvs) = (d \<noteq> 0 \<and> (\<forall>kv \<in> set kvs. printable (d - 1) (snd kv)))"
| "printable d j = True"

text \<open>The value that is read: its strings in UTF-8.\<close>

fun utf8_json :: "json \<Rightarrow> json" where
  "utf8_json (JStr s) = JStr (utf8_string s)"
| "utf8_json (JArr js) = JArr (map utf8_json js)"
| "utf8_json (JObj kvs) = JObj (map (\<lambda>(k, v). (utf8_string k, utf8_json v)) kvs)"
| "utf8_json j = j"

abbreviation print_member :: "string \<times> json \<Rightarrow> string" where
  "print_member \<equiv> \<lambda>(k, v). CHR 0x22 # enc_chars k @ CHR 0x22 # CHR '':'' # print_json v"

lemma comma_sep_Cons:
  "comma_sep (x # xs) = x @ (if xs = [] then [] else CHR '','' # comma_sep xs)"
  by (cases xs) auto

lemma exp_ok_chars: "exp_ok s \<Longrightarrow> list_all number_char s"
  by (auto simp: exp_ok_def number_char_def list_all_iff Let_def split: list.splits if_splits)

lemma digits_then: "list_all number_char (dropWhile is_digit t) \<Longrightarrow> list_all number_char t"
  by (induction t) (auto simp: number_char_def split: if_splits)

lemma frac_ok_chars:
  assumes "frac_ok s"
  shows "list_all number_char s"
proof (cases s)
  case (Cons c r)
  show ?thesis
  proof (cases "c = CHR ''.''")
    case True
    with assms Cons have "exp_ok (dropWhile is_digit r)" by (simp add: frac_ok_def)
    then have "list_all number_char r" by (rule digits_then [OF exp_ok_chars])
    with Cons True show ?thesis by (simp add: number_char_def)
  next
    case False
    with assms Cons exp_ok_chars [of s] show ?thesis by (simp add: frac_ok_def)
  qed
qed simp

lemma number_ok_chars:
  assumes "number_ok n"
  shows "n \<noteq> []" "list_all number_char n"
proof -
  have *: "frac_ok (dropWhile is_digit t) \<Longrightarrow> list_all number_char t" for t
    by (rule digits_then [OF frac_ok_chars])
  show "n \<noteq> []" using assms by (auto simp: number_ok_def)
  show "list_all number_char n"
    using assms by (auto simp: number_ok_def Let_def number_char_def dest!: * split: list.splits if_splits)
qed

text \<open>The numbers that the codecs print are in the grammar.\<close>

lemma show_nat_lead: "0 < n \<Longrightarrow> hd (show_nat n) \<noteq> CHR ''0''"
proof (induction n rule: show_nat.induct)
  case (1 n)
  show ?case
  proof (cases "n < 10")
    case True
    then have "hd (show_nat n) = digit_char n" by (subst show_nat.simps) simp
    moreover have "(of_char (digit_char n) :: nat) \<noteq> of_char CHR ''0''" using 1 True by simp
    ultimately show ?thesis by metis
  next
    case False
    with 1 show ?thesis by (subst show_nat.simps) simp
  qed
qed

lemma number_show_nat: "number_ok (show_nat n)" "number_ok (CHR ''-'' # show_nat n)"
proof -
  have "takeWhile is_digit (show_nat n) = show_nat n" "dropWhile is_digit (show_nat n) = []"
    using show_nat_digits [of n] by (auto simp: list_all_iff)
  moreover have "hd (show_nat n) = CHR ''0'' \<Longrightarrow> length (show_nat n) = 1"
    using show_nat_lead [of n] by (cases "n = 0") (auto simp: show_nat.simps [of 0])
  moreover obtain c r where "show_nat n = c # r" by (cases "show_nat n") auto
  moreover from this have "c \<noteq> CHR ''-''" by (rule show_nat_hd_not_minus)
  ultimately show "number_ok (show_nat n)" "number_ok (CHR ''-'' # show_nat n)"
    by (auto simp: number_ok_def frac_ok_def Let_def)
qed

lemma number_show_int: "number_ok (show_int i)"
  by (simp add: show_int_def number_show_nat)

text \<open>What may follow a value.\<close>

definition ends_value :: "string \<Rightarrow> bool" where
  "ends_value r \<longleftrightarrow> r = [] \<or> hd r \<in> {CHR '','', CHR '']'', CHR ''}''}"

lemma ends_number: "ends_value r \<Longrightarrow> r \<noteq> [] \<Longrightarrow> \<not> number_char (hd r)"
  by (auto simp: ends_value_def number_char_def is_digit_def)

definition starts_value :: "char \<Rightarrow> bool" where
  "starts_value c \<longleftrightarrow> number_char c \<or> c \<in> {CHR ''n'', CHR ''t'', CHR ''f'', CHR 0x22, CHR ''['', CHR ''{''}"

lemma print_json_starts: "printable d j \<Longrightarrow> \<exists>c t. print_json j = c # t \<and> starts_value c"
proof (cases j)
  case (JNum n)
  assume "printable d j"
  with JNum number_ok_chars [of n] show ?thesis by (cases n) (auto simp: starts_value_def)
qed (auto simp: starts_value_def)

lemma starts_value_plain: "starts_value c \<Longrightarrow> \<not> is_space c \<and> c \<noteq> CHR '']'' \<and> c \<noteq> CHR ''}''"
  by (auto simp: starts_value_def is_space_def number_char_def is_digit_def)

lemma skip_print: "printable d j \<Longrightarrow> skip_space (print_json j @ r) = print_json j @ r"
  using print_json_starts starts_value_plain by (fastforce simp: skip_space_def)

lemma skip_simps [simp]: "skip_space [] = []" "\<not> is_space c \<Longrightarrow> skip_space (c # r) = c # r"
  by (simp_all add: skip_space_def)

lemma not_space [simp]: "\<not> is_space CHR 0x22" "\<not> is_space CHR '','' " "\<not> is_space CHR '':''"
  "\<not> is_space CHR '']''" "\<not> is_space CHR ''}''" "\<not> is_space CHR ''[''" "\<not> is_space CHR ''{''"
  by (simp_all add: is_space_def)

lemma scan_number:
  assumes "number_ok n" and "ends_value r"
  shows "scan_value (Suc k) d (n @ r) = Some (JNum n, r)"
proof -
  from number_ok_chars [OF assms(1)] obtain c t where n: "n = c # t" and c: "number_char c"
    by (cases n) auto
  have "takeWhile number_char (n @ r) = n" "dropWhile number_char (n @ r) = r"
    using number_ok_chars(2) [OF assms(1)] ends_number [OF assms(2)]
    by (cases r; auto simp: list_all_iff takeWhile_append dropWhile_append)+
  moreover have "c \<noteq> CHR 0x22" "c \<noteq> CHR ''[''" "c \<noteq> CHR ''{''" "\<not> is_space c"
    "c \<notin> {CHR ''n'', CHR ''t'', CHR ''f''}"
    using c by (auto simp: number_char_def is_digit_def is_space_def)
  ultimately show ?thesis using assms(1) by (simp add: n scan_scalar_def literals_def Let_def)
qed

text \<open>Enough fuel.\<close>

fun scan_fuel :: "json \<Rightarrow> nat" where
  "scan_fuel (JArr js) = 1 + sum_list (map (\<lambda>j. 1 + scan_fuel j) js)"
| "scan_fuel (JObj kvs) = 1 + sum_list (map (\<lambda>kv. 1 + scan_fuel (snd kv)) kvs)"
| "scan_fuel j = 1"

lemma scan_fuel_length: "printable d j \<Longrightarrow> scan_fuel j \<le> length (print_json j)"
proof (induction j arbitrary: d)
  case (JArr js)
  then have "\<forall>j \<in> set js. scan_fuel j \<le> length (print_json j)" by auto
  then have "sum_list (map (\<lambda>j. 1 + scan_fuel j) js) \<le> length (comma_sep (map print_json js)) + 1"
    by (induction js) (auto simp: comma_sep_Cons)
  then show ?case by simp
next
  case (JObj kvs)
  then have "\<forall>kv \<in> set kvs. scan_fuel (snd kv) \<le> length (print_json (snd kv))" by fastforce
  then have "sum_list (map (\<lambda>kv. 1 + scan_fuel (snd kv)) kvs) \<le> length (comma_sep (map print_member kvs)) + 1"
    by (induction kvs) (auto simp: comma_sep_Cons)
  then show ?case by simp
next
  case (JNum n)
  then show ?case using number_ok_chars(1) [of n] by (cases n) auto
qed auto

lemma scan_elements_print:
  assumes "\<And>j n r. j \<in> set js \<Longrightarrow> scan_fuel j \<le> n \<Longrightarrow> ends_value r \<Longrightarrow>
      scan_value n d (print_json j @ r) = Some (utf8_json j, r)"
    and "js \<noteq> []" and "sum_list (map (\<lambda>j. 1 + scan_fuel j) js) \<le> n"
  shows "scan_elements n d (comma_sep (map print_json js) @ CHR '']'' # q) = Some (map utf8_json js, q)"
  using assms
proof (induction js arbitrary: n)
  case (Cons j js)
  from Cons.prems(3) obtain m where n: "n = Suc m" by (cases n) auto
  let ?q = "if js = [] then CHR '']'' # q else CHR '','' # comma_sep (map print_json js) @ CHR '']'' # q"
  have "scan_value m d (print_json j @ ?q) = Some (utf8_json j, ?q)"
    by (rule Cons.prems(1)) (use Cons.prems(3) n in \<open>auto simp: ends_value_def\<close>)
  moreover have "scan_elements m d (comma_sep (map print_json js) @ CHR '']'' # q) = Some (map utf8_json js, q)" if "js \<noteq> []"
    by (rule Cons.IH) (use Cons.prems that n in auto)
  ultimately show ?case by (auto simp: n comma_sep_Cons split: if_splits)
qed simp

lemma scan_members_print:
  assumes "\<And>k v n r. (k, v) \<in> set kvs \<Longrightarrow> scan_fuel v \<le> n \<Longrightarrow> ends_value r \<Longrightarrow>
      scan_value n d (print_json v @ r) = Some (utf8_json v, r)"
    and "kvs \<noteq> []" and "sum_list (map (\<lambda>kv. 1 + scan_fuel (snd kv)) kvs) \<le> n"
  shows "scan_members n d (comma_sep (map print_member kvs) @ CHR ''}'' # q) =
    Some (map (\<lambda>(k, v). (utf8_string k, utf8_json v)) kvs, q)"
  using assms
proof (induction kvs arbitrary: n)
  case (Cons kv kvs)
  obtain k v where kv: "kv = (k, v)" by (cases kv)
  from Cons.prems(3) obtain m where n: "n = Suc m" by (cases n) auto
  let ?q = "if kvs = [] then CHR ''}'' # q else CHR '','' # comma_sep (map print_member kvs) @ CHR ''}'' # q"
  have "scan_value m d (print_json v @ ?q) = Some (utf8_json v, ?q)"
    by (rule Cons.prems(1) [of k]) (use Cons.prems(3) n kv in \<open>auto simp: ends_value_def\<close>)
  moreover have "scan_members m d (comma_sep (map print_member kvs) @ CHR ''}'' # q) =
      Some (map (\<lambda>(k, v). (utf8_string k, utf8_json v)) kvs, q)" if "kvs \<noteq> []"
    by (rule Cons.IH) (use Cons.prems that n in auto)
  ultimately show ?case by (auto simp: n kv comma_sep_Cons dec_enc_chars split: if_splits)
qed simp

lemma scan_value_print:
  "printable d j \<Longrightarrow> scan_fuel j \<le> n \<Longrightarrow> ends_value r \<Longrightarrow> scan_value n d (print_json j @ r) = Some (utf8_json j, r)"
proof (induction j arbitrary: d n r)
  case (JArr js)
  from JArr.prems obtain m where n: "n = Suc m" by (cases n) auto
  show ?case
  proof (cases "js = []")
    case False
    then obtain j t where js: "js = j # t" by (cases js) auto
    with JArr.prems have "printable (d - 1) j" by simp
    from print_json_starts [OF this] obtain c u where c: "comma_sep (map print_json js) = c # u" "starts_value c"
      by (auto simp: js comma_sep_Cons)
    have "scan_elements m (d - 1) (comma_sep (map print_json js) @ CHR '']'' # r) = Some (map utf8_json js, r)"
      by (rule scan_elements_print) (use JArr False n in auto)
    with c starts_value_plain [OF c(2)] JArr.prems show ?thesis by (simp add: n)
  qed (use JArr.prems n in simp)
next
  case (JObj kvs)
  from JObj.prems obtain m where n: "n = Suc m" by (cases n) auto
  show ?case
  proof (cases "kvs = []")
    case False
    then obtain u where c: "comma_sep (map print_member kvs) = CHR 0x22 # u"
      by (cases kvs) (auto simp: comma_sep_Cons)
    have "scan_members m (d - 1) (comma_sep (map print_member kvs) @ CHR ''}'' # r) =
        Some (map (\<lambda>(k, v). (utf8_string k, utf8_json v)) kvs, r)"
      by (rule scan_members_print) (use JObj False n in \<open>fastforce+\<close>)
    with c JObj.prems show ?thesis by (simp add: n)
  qed (use JObj.prems n in simp)
next
  case (JNum x)
  then obtain m where "n = Suc m" by (cases n) auto
  with JNum scan_number [of x r m d] show ?case by simp
next
  case (JStr x)
  then obtain m where "n = Suc m" by (cases n) auto
  then show ?case by (simp add: dec_enc_chars)
next
  case JNull
  then obtain m where "n = Suc m" by (cases n) auto
  then show ?case by (simp add: scan_scalar_def literals_def is_space_def)
next
  case (JBool b)
  then obtain m where "n = Suc m" by (cases n) auto
  then show ?case by (simp add: scan_scalar_def literals_def is_space_def)
qed

lemma read_print:
  assumes "printable 10000 j"
  shows "read_json (print_json j) = Inr (utf8_json j)"
proof -
  have "scan_value (length (print_json j) + 1) 10000 (print_json j @ []) = Some (utf8_json j, [])"
    by (rule scan_value_print [OF assms]) (use scan_fuel_length [OF assms] in \<open>auto simp: ends_value_def\<close>)
  then show ?thesis by (simp add: read_json_def)
qed

lemma print_json_plain: "printable d j \<Longrightarrow> CHR 0x0A \<notin> set (print_json j)"
proof (induction j arbitrary: d)
  case (JArr js)
  then have "\<forall>j \<in> set js. CHR 0x0A \<notin> set (print_json j)" by auto
  then have "CHR 0x0A \<notin> set (comma_sep (map print_json js))" by (induction js) (auto simp: comma_sep_Cons)
  then show ?case by simp
next
  case (JObj kvs)
  then have "\<forall>kv \<in> set kvs. CHR 0x0A \<notin> set (print_json (snd kv))" by fastforce
  then have "CHR 0x0A \<notin> set (comma_sep (map print_member kvs))"
    by (induction kvs) (auto simp: comma_sep_Cons enc_chars_plain)
  then show ?case by simp
next
  case (JNum n)
  then show ?case using number_ok_chars(2) [of n] by (auto simp: list_all_iff number_char_def is_digit_def)
qed (auto simp: enc_chars_plain)

lemma utf8_string_ascii: "list_all (\<lambda>c. (of_char c :: int) < 128) s \<Longrightarrow> utf8_string s = s"
proof (induction s)
  case Nil
  show ?case by (simp add: utf8_string.simps [of "[]"] rune_at_None [THEN iffD2])
next
  case (Cons c s)
  then show ?case by (simp add: utf8_string.simps [of "c # s"] rune_ascii)
qed

section \<open>Messages through the pipes\<close>

text \<open>C21: JSON messages that one side prints and writes, a line each, are read by the other side from the pipe one by
  one and in order, whatever their strings hold, and each text parses to the message that was sent, with the bytes of
  its strings that are no UTF-8 replaced; then the end is met.\<close>

theorem child_messages_roundtrip:
  assumes "list_all (printable 10000) js"
    and "cp_stdin t = Some []" and "\<not> cp_closed t" and "cp_end u = EOF"
    and "cp_stdout u = the (cp_stdin (write_lines (map print_json js) t))"
  shows "map (map_sum id read_json) (fst (read_lines (length js + 1) u)) = map (\<lambda>j. Inr (Inr (utf8_json j))) js @ [Inl EOF]"
proof -
  let ?ls = "map print_json js"
  have "list_all (\<lambda>l. CHR 0x0A \<notin> set l) ?ls" using assms(1) by (auto simp: list_all_iff print_json_plain)
  moreover have "cp_stdout u = concat (map (\<lambda>l. l @ newline) ?ls) @ []"
    using assms(5) write_lines_text [OF assms(2,3)] by simp
  ultimately have "read_lines (length ?ls) u = (map Inr ?ls, u\<lparr>cp_stdout := []\<rparr>)" by (rule read_lines_text)
  moreover have "cp_ReadLine None False None (u\<lparr>cp_stdout := []\<rparr>) = (Inl EOF, u\<lparr>cp_stdout := []\<rparr>)"
    using assms(4) by (simp add: cp_ReadLine_def)
  ultimately have "fst (read_lines (length js + 1) u) = map Inr ?ls @ [Inl EOF]"
    unfolding read_lines_add [of "length js" 1] by simp
  with assms(1) show ?thesis by (simp add: list_all_iff read_print)
qed

definition demo_messages :: "json list" where
  "demo_messages = [JObj [(''text'', JStr (''a'' @ newline @ ''<b>'')), (''n'', JNum ''-1.5e3'')],
     JArr [JNull, JStr [CHR 0xFF], JObj []]]"

theorem child_messages_roundtrip_witness:
  "map (map_sum id read_json) (fst (read_lines 3
      (demo_child\<lparr>cp_stdout := the (cp_stdin (write_lines (map print_json demo_messages) demo_child))\<rparr>))) =
    [Inr (Inr (JObj [(''text'', JStr (''a'' @ newline @ ''<b>'')), (''n'', JNum ''-1.5e3'')])),
     Inr (Inr (JArr [JNull, JStr bad_rune, JObj []])), Inl EOF]"
proof -
  let ?u = "demo_child\<lparr>cp_stdout := the (cp_stdin (write_lines (map print_json demo_messages) demo_child))\<rparr>"
  have "number_ok ''-1.5e3''" by code_simp
  then have "list_all (printable 10000) demo_messages" by (simp add: demo_messages_def)
  then have "map (map_sum id read_json) (fst (read_lines (length demo_messages + 1) ?u)) =
      map (\<lambda>j. Inr (Inr (utf8_json j))) demo_messages @ [Inl EOF]"
    by (rule child_messages_roundtrip [of _ demo_child]) (simp_all add: demo_child_def)
  moreover have "utf8_string [CHR 0xFF] = bad_rune"
    by (simp add: utf8_string.simps rune_at_def next_rune_def to_bytes_def)
  ultimately show ?thesis
    by (simp add: demo_messages_def newline_def utf8_string_ascii numeral_3_eq_3 del: read_lines.simps)
qed

end
