(* ===== verification/Content.thy ===== *)
theory Content
  imports Json
begin

text \<open>
  \<open>protocol/protocol_content.go\<close>: content parts, user input and tool output, with their custom
  JSON codecs. A Go pointer field is an \<open>option\<close>; a decoder ignores the old target where the code
  resets it (\<open>*u = UserInput{}\<close>, \<open>*cp = ContentPart(aux.alias)\<close>). \<open>norm_content_part\<close> is what a
  part becomes on its way over the wire.
\<close>

section \<open>Content parts\<close>

record text_part =
  tp_text :: string

record think_part =
  tk_think :: string
  tk_encrypted :: string

record media_url =
  mu_url :: string
  mu_id :: string

record image_url_part = iu_image_url :: media_url
record audio_url_part = au_audio_url :: media_url
record video_url_part = vu_video_url :: media_url

record content_part =
  cp_type :: string
  cp_text :: "text_part option"
  cp_think :: "think_part option"
  cp_image_url :: "image_url_part option"
  cp_audio_url :: "audio_url_part option"
  cp_video_url :: "video_url_part option"

abbreviation ContentPartTypeText :: string where "ContentPartTypeText \<equiv> ''text''"
abbreviation ContentPartTypeThink :: string where "ContentPartTypeThink \<equiv> ''think''"
abbreviation ContentPartTypeImageURL :: string where "ContentPartTypeImageURL \<equiv> ''image_url''"
abbreviation ContentPartTypeAudioURL :: string where "ContentPartTypeAudioURL \<equiv> ''audio_url''"
abbreviation ContentPartTypeVideoURL :: string where "ContentPartTypeVideoURL \<equiv> ''video_url''"

definition zero_text_part :: text_part where
  "zero_text_part = \<lparr>tp_text = []\<rparr>"

definition zero_think_part :: think_part where
  "zero_think_part = \<lparr>tk_think = [], tk_encrypted = []\<rparr>"

definition zero_media_url :: media_url where
  "zero_media_url = \<lparr>mu_url = [], mu_id = []\<rparr>"

definition zero_content_part :: content_part where
  "zero_content_part = \<lparr>cp_type = [], cp_text = None, cp_think = None, cp_image_url = None,
     cp_audio_url = None, cp_video_url = None\<rparr>"

definition dec_text_part :: "text_part dec" where
  "dec_text_part = dec_struct ''TextPart'' [(''text'', fld tp_text tp_text_update dec_string)]"

definition dec_think_part :: "think_part dec" where
  "dec_think_part = dec_struct ''ThinkPart''
     [(''think'', fld tk_think tk_think_update dec_string),
      (''encrypted'', fld tk_encrypted tk_encrypted_update dec_string)]"

definition dec_media_url :: "media_url dec" where
  "dec_media_url = dec_struct ''MediaURL''
     [(''url'', fld mu_url mu_url_update dec_string),
      (''id'', fld mu_id mu_id_update dec_string)]"

definition dec_image_url_part :: "image_url_part dec" where
  "dec_image_url_part = dec_struct ''ImageURLPart''
     [(''image_url'', fld iu_image_url iu_image_url_update dec_media_url)]"

definition dec_audio_url_part :: "audio_url_part dec" where
  "dec_audio_url_part = dec_struct ''AudioURLPart''
     [(''audio_url'', fld au_audio_url au_audio_url_update dec_media_url)]"

definition dec_video_url_part :: "video_url_part dec" where
  "dec_video_url_part = dec_struct ''VideoURLPart''
     [(''video_url'', fld vu_video_url vu_video_url_update dec_media_url)]"

definition enc_text_part :: "text_part \<Rightarrow> json" where
  "enc_text_part t = JObj [(''text'', JStr (tp_text t))]"

definition enc_think_part :: "think_part \<Rightarrow> json" where
  "enc_think_part t = JObj ([(''think'', JStr (tk_think t))] @ o_str ''encrypted'' (tk_encrypted t))"

definition enc_media_url :: "media_url \<Rightarrow> json" where
  "enc_media_url m = JObj ([(''url'', JStr (mu_url m))] @ o_str ''id'' (mu_id m))"

definition enc_image_url_part :: "image_url_part \<Rightarrow> json" where
  "enc_image_url_part p = JObj [(''image_url'', enc_media_url (iu_image_url p))]"

definition enc_audio_url_part :: "audio_url_part \<Rightarrow> json" where
  "enc_audio_url_part p = JObj [(''audio_url'', enc_media_url (au_audio_url p))]"

definition enc_video_url_part :: "video_url_part \<Rightarrow> json" where
  "enc_video_url_part p = JObj [(''video_url'', enc_media_url (vu_video_url p))]"

text \<open>\<open>ContentPart.MarshalJSON\<close>: flat for text and think, the struct as declared otherwise.\<close>

definition marshal_content_part :: "content_part \<Rightarrow> json" where
  "marshal_content_part cp =
     (if cp_type cp = ContentPartTypeText then
        JObj [(''type'', JStr (cp_type cp)),
              (''text'', JStr (case cp_text cp of None \<Rightarrow> [] | Some t \<Rightarrow> tp_text t))]
      else if cp_type cp = ContentPartTypeThink then
        JObj ([(''type'', JStr (cp_type cp)),
               (''think'', JStr (case cp_think cp of None \<Rightarrow> [] | Some t \<Rightarrow> tk_think t))] @
              o_str ''encrypted'' (case cp_think cp of None \<Rightarrow> [] | Some t \<Rightarrow> tk_encrypted t))
      else
        JObj ([(''type'', JStr (cp_type cp))] @
              o_ptr ''text'' enc_text_part (cp_text cp) @
              o_ptr ''think'' enc_think_part (cp_think cp) @
              o_ptr ''image_url'' enc_image_url_part (cp_image_url cp) @
              o_ptr ''audio_url'' enc_audio_url_part (cp_audio_url cp) @
              o_ptr ''video_url'' enc_video_url_part (cp_video_url cp)))"

text \<open>The anonymous struct of \<open>ContentPart.UnmarshalJSON\<close>; its \<open>Text\<close> and \<open>Think\<close> hide the alias's.\<close>

record content_aux =
  ca_alias :: content_part
  ca_text :: raw_json
  ca_think :: raw_json

definition ca_alias_fld :: "(content_part \<Rightarrow> 'a) \<Rightarrow> (('a \<Rightarrow> 'a) \<Rightarrow> content_part \<Rightarrow> content_part) \<Rightarrow>
    'a dec \<Rightarrow> content_aux field" where
  "ca_alias_fld get upd d =
     fld (\<lambda>a. get (ca_alias a)) (\<lambda>f a. a\<lparr>ca_alias := upd f (ca_alias a)\<rparr>) d"

definition zero_content_aux :: content_aux where
  "zero_content_aux = \<lparr>ca_alias = zero_content_part, ca_text = None, ca_think = None\<rparr>"

definition content_aux_fields :: "(string \<times> content_aux field) list" where
  "content_aux_fields =
     [(''type'', ca_alias_fld cp_type cp_type_update dec_string),
      (''image_url'', ca_alias_fld cp_image_url cp_image_url_update
         (dec_ptr \<lparr>iu_image_url = zero_media_url\<rparr> dec_image_url_part)),
      (''audio_url'', ca_alias_fld cp_audio_url cp_audio_url_update
         (dec_ptr \<lparr>au_audio_url = zero_media_url\<rparr> dec_audio_url_part)),
      (''video_url'', ca_alias_fld cp_video_url cp_video_url_update
         (dec_ptr \<lparr>vu_video_url = zero_media_url\<rparr> dec_video_url_part)),
      (''text'', fld ca_text ca_text_update dec_raw),
      (''think'', fld ca_think ca_think_update dec_raw)]"

definition content_text :: "raw_json \<Rightarrow> text_part option" where
  "content_text r = (case r of
     None \<Rightarrow> None
   | Some j \<Rightarrow> (case dec_string [] j of
       Inr s \<Rightarrow> Some \<lparr>tp_text = s\<rparr>
     | Inl _ \<Rightarrow> (case dec_text_part zero_text_part j of Inr tp \<Rightarrow> Some tp | Inl _ \<Rightarrow> None)))"

definition content_think :: "raw_json \<Rightarrow> think_part option" where
  "content_think r = (case r of
     None \<Rightarrow> None
   | Some j \<Rightarrow> (case dec_string [] j of
       Inr s \<Rightarrow> Some \<lparr>tk_think = s, tk_encrypted = []\<rparr>
     | Inl _ \<Rightarrow> (case dec_think_part zero_think_part j of Inr tp \<Rightarrow> Some tp | Inl _ \<Rightarrow> None)))"

definition dec_content_part :: "content_part dec" where
  "dec_content_part old j =
     bind_res (dec_struct ''ContentPart'' content_aux_fields zero_content_aux j) (\<lambda>aux.
       let cp = ca_alias aux;
           cp1 = (if cp_text cp = None then cp\<lparr>cp_text := content_text (ca_text aux)\<rparr> else cp);
           cp2 = (if cp_think cp1 = None then cp1\<lparr>cp_think := content_think (ca_think aux)\<rparr> else cp1)
       in Inr cp2)"

section \<open>User input and tool output\<close>

record user_input =
  ui_text :: string
  ui_parts :: "content_part list"

record tool_output =
  to_text :: string
  to_parts :: "content_part list"

definition zero_user_input :: user_input where
  "zero_user_input = \<lparr>ui_text = [], ui_parts = []\<rparr>"

definition zero_tool_output :: tool_output where
  "zero_tool_output = \<lparr>to_text = [], to_parts = []\<rparr>"

definition marshal_user_input :: "user_input \<Rightarrow> derr + json" where
  "marshal_user_input u =
     (if ui_text u \<noteq> [] \<and> ui_parts u \<noteq> [] then
        Inl (Custom ''user_input cannot have both text and parts'')
      else if ui_text u \<noteq> [] then Inr (JStr (ui_text u))
      else if ui_parts u \<noteq> [] then Inr (JArr (map marshal_content_part (ui_parts u)))
      else Inr (JStr []))"

definition marshal_tool_output :: "tool_output \<Rightarrow> derr + json" where
  "marshal_tool_output u =
     (if to_text u \<noteq> [] \<and> to_parts u \<noteq> [] then
        Inl (Custom ''tool_output cannot have both text and parts'')
      else if to_text u \<noteq> [] then Inr (JStr (to_text u))
      else if to_parts u \<noteq> [] then Inr (JArr (map marshal_content_part (to_parts u)))
      else Inr (JStr []))"

text \<open>
  The first byte of the data tells a string, an array and \<open>null\<close> apart from the other values, so
  the switch on it is a case distinction on the value.
\<close>

fun dec_user_input :: "user_input dec" where
  "dec_user_input u (JStr s) = Inr (zero_user_input\<lparr>ui_text := s\<rparr>)"
| "dec_user_input u (JArr js) =
     map_res (\<lambda>ps. zero_user_input\<lparr>ui_parts := ps\<rparr>)
       (dec_list zero_content_part dec_content_part [] (JArr js))"
| "dec_user_input u j =
     Inl (Got ''user_input must be a string or an array of content parts'' j)"

fun dec_tool_output :: "tool_output dec" where
  "dec_tool_output u (JStr s) = Inr (zero_tool_output\<lparr>to_text := s\<rparr>)"
| "dec_tool_output u (JArr js) =
     map_res (\<lambda>ps. zero_tool_output\<lparr>to_parts := ps\<rparr>)
       (dec_list zero_content_part dec_content_part [] (JArr js))"
| "dec_tool_output u j =
     Inl (Got ''tool_output must be a string or an array of content parts'' j)"

section \<open>Display blocks and tool results\<close>

record todo_item =
  td_title :: string
  td_status :: string

record display_block =
  db_type :: string
  db_text :: string
  db_path :: string
  db_old_text :: string
  db_new_text :: string
  db_is_summary :: "bool option"
  db_items :: "todo_item list"
  db_language :: string
  db_command :: string
  db_data :: raw_json

record tool_return_value =
  tr_is_error :: bool
  tr_output :: tool_output
  tr_message :: string
  tr_display :: "display_block list"
  tr_extras :: raw_json

definition zero_todo_item :: todo_item where
  "zero_todo_item = \<lparr>td_title = [], td_status = []\<rparr>"

definition zero_display_block :: display_block where
  "zero_display_block = \<lparr>db_type = [], db_text = [], db_path = [], db_old_text = [],
     db_new_text = [], db_is_summary = None, db_items = [], db_language = [], db_command = [],
     db_data = None\<rparr>"

definition zero_tool_return_value :: tool_return_value where
  "zero_tool_return_value = \<lparr>tr_is_error = False, tr_output = zero_tool_output, tr_message = [],
     tr_display = [], tr_extras = None\<rparr>"

definition dec_todo_item :: "todo_item dec" where
  "dec_todo_item = dec_struct ''TodoDisplayItem''
     [(''title'', fld td_title td_title_update dec_string),
      (''status'', fld td_status td_status_update dec_string)]"

definition enc_todo_item :: "todo_item \<Rightarrow> json" where
  "enc_todo_item t = JObj [(''title'', JStr (td_title t)), (''status'', JStr (td_status t))]"

definition dec_display_block :: "display_block dec" where
  "dec_display_block = dec_struct ''DisplayBlock''
     [(''type'', fld db_type db_type_update dec_string),
      (''text'', fld db_text db_text_update dec_string),
      (''path'', fld db_path db_path_update dec_string),
      (''old_text'', fld db_old_text db_old_text_update dec_string),
      (''new_text'', fld db_new_text db_new_text_update dec_string),
      (''is_summary'', fld db_is_summary db_is_summary_update (dec_ptr False dec_bool)),
      (''items'', fld db_items db_items_update (dec_list zero_todo_item dec_todo_item)),
      (''language'', fld db_language db_language_update dec_string),
      (''command'', fld db_command db_command_update dec_string),
      (''data'', fld db_data db_data_update dec_raw)]"

definition enc_display_block :: "display_block \<Rightarrow> json" where
  "enc_display_block b = JObj ([(''type'', JStr (db_type b))] @ o_str ''text'' (db_text b) @
     o_str ''path'' (db_path b) @ o_str ''old_text'' (db_old_text b) @
     o_str ''new_text'' (db_new_text b) @ o_ptr ''is_summary'' JBool (db_is_summary b) @
     o_list ''items'' enc_todo_item (db_items b) @ o_str ''language'' (db_language b) @
     o_str ''command'' (db_command b) @ o_raw ''data'' (db_data b))"

definition dec_tool_return_value :: "tool_return_value dec" where
  "dec_tool_return_value = dec_struct ''ToolReturnValue''
     [(''is_error'', fld tr_is_error tr_is_error_update dec_bool),
      (''output'', fld tr_output tr_output_update dec_tool_output),
      (''message'', fld tr_message tr_message_update dec_string),
      (''display'', fld tr_display tr_display_update (dec_list zero_display_block dec_display_block)),
      (''extras'', fld tr_extras tr_extras_update dec_raw)]"

definition enc_tool_return_value :: "tool_return_value \<Rightarrow> derr + json" where
  "enc_tool_return_value v = bind_res (marshal_tool_output (tr_output v)) (\<lambda>out.
     Inr (JObj ([(''is_error'', JBool (tr_is_error v)), (''output'', out),
                 (''message'', JStr (tr_message v))] @
                o_list ''display'' enc_display_block (tr_display v) @
                o_raw ''extras'' (tr_extras v))))"

definition NewDisplayBlockBrief :: "string \<Rightarrow> display_block" where
  "NewDisplayBlockBrief text = zero_display_block\<lparr>db_type := ''brief'', db_text := text\<rparr>"

definition NewDisplayBlockDiff :: "string \<Rightarrow> string \<Rightarrow> string \<Rightarrow> display_block" where
  "NewDisplayBlockDiff path oldText newText =
     zero_display_block\<lparr>db_type := ''diff'', db_path := path, db_old_text := oldText,
       db_new_text := newText\<rparr>"

definition NewDisplayBlockTodo :: "todo_item list \<Rightarrow> display_block" where
  "NewDisplayBlockTodo items = zero_display_block\<lparr>db_type := ''todo'', db_items := items\<rparr>"

definition NewDisplayBlockShell :: "string \<Rightarrow> string \<Rightarrow> display_block" where
  "NewDisplayBlockShell command language =
     zero_display_block\<lparr>db_type := ''shell'', db_command := command, db_language := language\<rparr>"

section \<open>Round trips\<close>

lemmas content_decs [codec] = dec_text_part_def dec_think_part_def dec_media_url_def
  dec_image_url_part_def dec_audio_url_part_def dec_video_url_part_def
lemmas content_encs [codec] = enc_text_part_def enc_think_part_def enc_media_url_def
  enc_image_url_part_def enc_audio_url_part_def enc_video_url_part_def
lemmas content_zeros [codec] = zero_text_part_def zero_think_part_def zero_media_url_def
  zero_content_part_def zero_content_aux_def

lemma dec_enc_media_url: "dec_media_url zero_media_url (enc_media_url m) = Inr m"
  by (simp add: codec)

lemma dec_enc_text_part: "dec_text_part zero_text_part (enc_text_part t) = Inr t"
  by (simp add: codec)

lemma dec_enc_think_part: "dec_think_part zero_think_part (enc_think_part t) = Inr t"
  by (simp add: codec)

lemma dec_enc_image_url_part:
  "dec_image_url_part \<lparr>iu_image_url = zero_media_url\<rparr> (enc_image_url_part p) = Inr p"
  by (simp add: codec)

lemma dec_enc_audio_url_part:
  "dec_audio_url_part \<lparr>au_audio_url = zero_media_url\<rparr> (enc_audio_url_part p) = Inr p"
  by (simp add: codec)

lemma dec_enc_video_url_part:
  "dec_video_url_part \<lparr>vu_video_url = zero_media_url\<rparr> (enc_video_url_part p) = Inr p"
  by (simp add: codec)

lemma dec_enc_todo_item: "dec_todo_item zero_todo_item (enc_todo_item t) = Inr t"
  by (simp add: codec dec_todo_item_def enc_todo_item_def zero_todo_item_def)

lemma dec_enc_display_block: "dec_display_block zero_display_block (enc_display_block b) = Inr b"
  by (simp add: codec dec_display_block_def enc_display_block_def zero_display_block_def
      dec_enc_todo_item)

text \<open>
  What a content part is after one trip over the wire: a text part keeps its type and text only, a
  think part its type and thought only (its \<open>Encrypted\<close> is written but not read back), any other
  part is unchanged.
\<close>

definition norm_content_part :: "content_part \<Rightarrow> content_part" where
  "norm_content_part cp =
     (if cp_type cp = ContentPartTypeText then
        zero_content_part\<lparr>cp_type := cp_type cp,
          cp_text := Some \<lparr>tp_text = (case cp_text cp of None \<Rightarrow> [] | Some t \<Rightarrow> tp_text t)\<rparr>\<rparr>
      else if cp_type cp = ContentPartTypeThink then
        zero_content_part\<lparr>cp_type := cp_type cp,
          cp_think := Some \<lparr>tk_think = (case cp_think cp of None \<Rightarrow> [] | Some t \<Rightarrow> tk_think t),
                           tk_encrypted = []\<rparr>\<rparr>
      else cp)"

lemma enc_parts_nonnull [simp]:
  "enc_image_url_part p \<noteq> JNull" "enc_audio_url_part q \<noteq> JNull" "enc_video_url_part r \<noteq> JNull"
  by (simp_all add: content_encs)

lemma content_text_nested: "content_text (Some (enc_text_part t)) = Some t"
proof -
  have "dec_string [] (enc_text_part t) = Inl (TypeMismatch ''string'')"
    by (simp add: enc_text_part_def)
  then show ?thesis by (simp add: content_text_def dec_enc_text_part)
qed

lemma content_think_nested: "content_think (Some (enc_think_part t)) = Some t"
proof -
  have "dec_string [] (enc_think_part t) = Inl (TypeMismatch ''string'')"
    by (simp add: enc_think_part_def)
  then show ?thesis by (simp add: content_think_def dec_enc_think_part)
qed

lemma content_text_opt:
  "content_text (map_option enc_text_part p) = p"
  by (cases p) (simp_all add: content_text_nested, simp add: content_text_def)

lemma content_think_opt:
  "content_think (map_option enc_think_part p) = p"
  by (cases p) (simp_all add: content_think_nested, simp add: content_think_def)

lemma opt_ptr_raw:
  "upd (\<lambda>_. None) s = s \<Longrightarrow>
    opt_field (p = None) (Some (fld get upd dec_raw)) (e (the p)) s = Inr (upd (\<lambda>_. map_option e p) s)"
  by (cases p) (auto simp: opt_field_def fld_def)

lemma dec_flat_text:
  "dec_content_part old (JObj [(''type'', JStr ''text''), (''text'', JStr t)]) =
    Inr (zero_content_part\<lparr>cp_type := ''text'', cp_text := Some \<lparr>tp_text = t\<rparr>\<rparr>)"
  by (simp add: dec_content_part_def content_aux_fields_def ca_alias_fld_def codec
      content_text_def content_think_def)

lemma dec_flat_think:
  "dec_content_part old (JObj ([(''type'', JStr ''think''), (''think'', JStr t)] @ o_str ''encrypted'' e)) =
    Inr (zero_content_part\<lparr>cp_type := ''think'', cp_think := Some \<lparr>tk_think = t, tk_encrypted = []\<rparr>\<rparr>)"
proof -
  have "lookup_field content_aux_fields ''encrypted'' = None"
    by (simp add: content_aux_fields_def codec ascii_upper_def)
  then have "dec_fields content_aux_fields (o_str ''encrypted'' e) s = Inr s" for s
    by (simp add: o_str_def)
  then show ?thesis
    by (simp add: dec_content_part_def codec)
      (simp add: content_aux_fields_def ca_alias_fld_def codec content_text_def content_think_def)
qed

lemma dec_alias_part:
  "dec_content_part old (JObj ([(''type'', JStr (cp_type cp))] @
              o_ptr ''text'' enc_text_part (cp_text cp) @
              o_ptr ''think'' enc_think_part (cp_think cp) @
              o_ptr ''image_url'' enc_image_url_part (cp_image_url cp) @
              o_ptr ''audio_url'' enc_audio_url_part (cp_audio_url cp) @
              o_ptr ''video_url'' enc_video_url_part (cp_video_url cp))) = Inr cp"
  by (simp add: dec_content_part_def content_aux_fields_def ca_alias_fld_def opt_ptr_raw
      dec_enc_image_url_part dec_enc_audio_url_part dec_enc_video_url_part
      content_text_opt content_think_opt Let_def codec
      del: content_decs content_encs zero_media_url_def)

lemma dec_marshal_content_part:
  "dec_content_part old (marshal_content_part cp) = Inr (norm_content_part cp)"
  unfolding marshal_content_part_def norm_content_part_def
  by (simp add: dec_flat_text dec_flat_think [simplified] dec_alias_part [simplified])

lemma norm_content_part_idem: "norm_content_part (norm_content_part cp) = norm_content_part cp"
  by (simp add: norm_content_part_def)

definition norm_user_input :: "user_input \<Rightarrow> user_input" where
  "norm_user_input u = u\<lparr>ui_parts := map norm_content_part (ui_parts u)\<rparr>"

definition norm_tool_output :: "tool_output \<Rightarrow> tool_output" where
  "norm_tool_output u = u\<lparr>to_parts := map norm_content_part (to_parts u)\<rparr>"

definition norm_tool_return_value :: "tool_return_value \<Rightarrow> tool_return_value" where
  "norm_tool_return_value v = v\<lparr>tr_output := norm_tool_output (tr_output v)\<rparr>"

lemma dec_parts:
  "dec_list zero_content_part dec_content_part xs (JArr (map marshal_content_part ps)) =
    Inr (map norm_content_part ps)"
  by (simp add: traverse_map dec_marshal_content_part)

lemma marshal_user_input_nonnull: "marshal_user_input u = Inr j \<Longrightarrow> j \<noteq> JNull"
  by (auto simp: marshal_user_input_def split: if_splits)

lemma dec_marshal_user_input:
  "marshal_user_input u = Inr j \<Longrightarrow> dec_user_input v j = Inr (norm_user_input u)"
  by (cases u) (auto simp: marshal_user_input_def norm_user_input_def zero_user_input_def
      dec_parts [simplified] split: if_splits)

lemma dec_marshal_tool_output:
  "marshal_tool_output u = Inr j \<Longrightarrow> dec_tool_output v j = Inr (norm_tool_output u)"
  by (cases u) (auto simp: marshal_tool_output_def norm_tool_output_def zero_tool_output_def
      dec_parts [simplified] split: if_splits)

lemma marshal_user_input_ok:
  "is_ok (marshal_user_input u) \<longleftrightarrow> ui_text u = [] \<or> ui_parts u = []"
  by (simp add: marshal_user_input_def)

lemma dec_user_input_ok: "dec_user_input v j = Inr u \<Longrightarrow> is_ok (marshal_user_input u)"
  by (cases j) (auto simp: zero_user_input_def marshal_user_input_ok map_res_eq_Inr)

lemma dec_user_input_null: "dec_user_input v JNull \<noteq> Inr u"
  by simp

lemma dec_enc_tool_return_value:
  assumes "enc_tool_return_value r = Inr j"
  shows "dec_tool_return_value zero_tool_return_value j = Inr (norm_tool_return_value r)"
proof -
  from assms obtain out where out: "marshal_tool_output (tr_output r) = Inr out"
    and j: "j = JObj ([(''is_error'', JBool (tr_is_error r)), (''output'', out),
                 (''message'', JStr (tr_message r))] @
                o_list ''display'' enc_display_block (tr_display r) @
                o_raw ''extras'' (tr_extras r))"
    by (auto simp: enc_tool_return_value_def bind_res_eq_Inr)
  show ?thesis
    by (simp add: j codec dec_tool_return_value_def zero_tool_return_value_def
        dec_marshal_tool_output [OF out] dec_enc_display_block norm_tool_return_value_def)
qed

lemma dec_tool_output_ok: "dec_tool_output v j = Inr u \<Longrightarrow> is_ok (marshal_tool_output u)"
  by (cases j) (auto simp: zero_tool_output_def marshal_tool_output_def map_res_eq_Inr)

lemma zero_input_ok: "is_ok (marshal_user_input zero_user_input)" "is_ok (marshal_tool_output zero_tool_output)"
  by (simp_all add: marshal_user_input_def zero_user_input_def marshal_tool_output_def zero_tool_output_def)

lemma dec_tool_return_value_ok:
  assumes "is_ok (marshal_tool_output (tr_output w))" and "dec_tool_return_value w j = Inr v"
  shows "is_ok (marshal_tool_output (tr_output v))"
  by (rule dec_struct_keeps [where P = "\<lambda>v. is_ok (marshal_tool_output (tr_output v))",
        OF _ _ assms(2) [unfolded dec_tool_return_value_def]])
    (auto simp: fld_def map_res_eq_Inr assms(1) dest!: dec_tool_output_ok)

section \<open>Properties\<close>

text \<open>C30: A content part of any type, sent and read back, is the part in its normal form: text and
  think parts come back with their type and text, every other part comes back unchanged. In
  particular sending what was read loses nothing more.\<close>

theorem content_part_roundtrip:
  "\<exists>cp'. dec_content_part old (marshal_content_part cp) = Inr cp' \<and>
     cp' = (if cp_type cp = ContentPartTypeText \<or> cp_type cp = ContentPartTypeThink
            then norm_content_part cp else cp) \<and>
     dec_content_part old (marshal_content_part cp') = Inr cp'"
  by (simp add: dec_marshal_content_part norm_content_part_idem)
    (simp add: norm_content_part_def)

text \<open>The encrypted half of a thought is written next to it, where it is not read back.\<close>

lemma encrypted_lost:
  "dec_content_part zero_content_part (JObj [(''type'', JStr ''think''),
      (''think'', JObj [(''think'', JStr ''t''), (''encrypted'', JStr ''e'')])]) =
    Inr (zero_content_part\<lparr>cp_type := ''think'',
      cp_think := Some \<lparr>tk_think = ''t'', tk_encrypted = ''e''\<rparr>\<rparr>)"
  "dec_content_part zero_content_part (marshal_content_part (zero_content_part\<lparr>cp_type := ''think'',
      cp_think := Some \<lparr>tk_think = ''t'', tk_encrypted = ''e''\<rparr>\<rparr>)) =
    Inr (zero_content_part\<lparr>cp_type := ''think'',
      cp_think := Some \<lparr>tk_think = ''t'', tk_encrypted = []\<rparr>\<rparr>)"
  by (simp_all add: dec_marshal_content_part norm_content_part_def)
    (simp add: dec_content_part_def content_aux_fields_def ca_alias_fld_def codec
      content_text_def content_think_def)

text \<open>A user input can be marshalled exactly when it does not hold both text and parts, and then
  what is written is read back as the input with its parts in normal form.\<close>

lemma user_input_roundtrip:
  "(ui_text u = [] \<or> ui_parts u = []) =
     (\<exists>j. marshal_user_input u = Inr j \<and> dec_user_input v j = Inr (norm_user_input u))"
  using marshal_user_input_ok [of u] dec_marshal_user_input [of u] by (auto simp: is_ok_iff)

end
