(* ===== verification/Events.thy ===== *)
theory Events
  imports Content
begin

text \<open>
  \<open>protocol/protocol_event.go\<close>: the twenty wire events, their envelope
  \<open>{"type": ..., "payload": ...}\<close>, \<open>MarshalEvent\<close> and \<open>ParseEvent\<close>. The interface \<open>Event\<close> is the
  datatype \<open>event\<close>, one constructor per struct, and a nil interface value is \<open>None\<close>. A pointer to an
  event struct behaves as the struct itself in \<open>MarshalEvent\<close> and is not a value of its own here.
\<close>

section \<open>Event structs\<close>

record turn_begin_event =
  tb_user_input :: user_input

definition zero_turn_begin_event :: turn_begin_event where
  "zero_turn_begin_event = \<lparr>
     tb_user_input = zero_user_input\<rparr>"

definition dec_turn_begin_event :: "turn_begin_event dec" where
  "dec_turn_begin_event = dec_struct ''TurnBeginEvent'' [
     (''user_input'', fld tb_user_input tb_user_input_update dec_user_input)]"

definition enc_turn_begin_event :: "turn_begin_event \<Rightarrow> derr + json" where
  "enc_turn_begin_event x = bind_res (marshal_user_input (tb_user_input x)) (\<lambda>m_user_input. Inr (JObj (
     [(''user_input'', m_user_input)])))"

record step_begin_event =
  sb_n :: u32

definition zero_step_begin_event :: step_begin_event where
  "zero_step_begin_event = \<lparr>
     sb_n = 0\<rparr>"

definition dec_step_begin_event :: "step_begin_event dec" where
  "dec_step_begin_event = dec_struct ''StepBeginEvent'' [
     (''n'', fld sb_n sb_n_update dec_uint32)]"

definition enc_step_begin_event :: "step_begin_event \<Rightarrow> json" where
  "enc_step_begin_event x = JObj (
     [(''n'', enc_u32 (sb_n x))])"

record step_retry_event =
  sr_n :: u32
  sr_next_attempt :: u32
  sr_max_attempts :: u32
  sr_wait_s :: u32
  sr_error_type :: string
  sr_status_code :: "u32 option"

definition zero_step_retry_event :: step_retry_event where
  "zero_step_retry_event = \<lparr>
     sr_n = 0, sr_next_attempt = 0, sr_max_attempts = 0, sr_wait_s = 0, sr_error_type = [],
     sr_status_code = None\<rparr>"

definition dec_step_retry_event :: "step_retry_event dec" where
  "dec_step_retry_event = dec_struct ''StepRetryEvent'' [
     (''n'', fld sr_n sr_n_update dec_uint32),
     (''next_attempt'', fld sr_next_attempt sr_next_attempt_update dec_uint32),
     (''max_attempts'', fld sr_max_attempts sr_max_attempts_update dec_uint32),
     (''wait_s'', fld sr_wait_s sr_wait_s_update dec_uint32),
     (''error_type'', fld sr_error_type sr_error_type_update dec_string),
     (''status_code'', fld sr_status_code sr_status_code_update (dec_ptr 0 dec_uint32))]"

definition enc_step_retry_event :: "step_retry_event \<Rightarrow> json" where
  "enc_step_retry_event x = JObj (
     [(''n'', enc_u32 (sr_n x)), (''next_attempt'', enc_u32 (sr_next_attempt x)), (''max_attempts'', enc_u32 (sr_max_attempts x)), (''wait_s'', enc_u32 (sr_wait_s x)), (''error_type'', JStr (sr_error_type x))] @
     o_ptr ''status_code'' enc_u32 (sr_status_code x))"

record token_usage =
  tu_input_other :: u64
  tu_output :: u64
  tu_input_cache_read :: u64
  tu_input_cache_creation :: u64

definition zero_token_usage :: token_usage where
  "zero_token_usage = \<lparr>
     tu_input_other = 0, tu_output = 0, tu_input_cache_read = 0, tu_input_cache_creation = 0\<rparr>"

definition dec_token_usage :: "token_usage dec" where
  "dec_token_usage = dec_struct ''TokenUsage'' [
     (''input_other'', fld tu_input_other tu_input_other_update dec_uint64),
     (''output'', fld tu_output tu_output_update dec_uint64),
     (''input_cache_read'', fld tu_input_cache_read tu_input_cache_read_update dec_uint64),
     (''input_cache_creation'', fld tu_input_cache_creation tu_input_cache_creation_update dec_uint64)]"

definition enc_token_usage :: "token_usage \<Rightarrow> json" where
  "enc_token_usage x = JObj (
     [(''input_other'', enc_u64 (tu_input_other x)), (''output'', enc_u64 (tu_output x)), (''input_cache_read'', enc_u64 (tu_input_cache_read x)), (''input_cache_creation'', enc_u64 (tu_input_cache_creation x))])"

record status_update_event =
  su_context_usage :: "string option"
  su_context_tokens :: "u64 option"
  su_max_context_tokens :: "u64 option"
  su_token_usage :: "token_usage option"
  su_message_id :: string
  su_plan_mode :: "bool option"

definition zero_status_update_event :: status_update_event where
  "zero_status_update_event = \<lparr>
     su_context_usage = None, su_context_tokens = None, su_max_context_tokens = None,
     su_token_usage = None, su_message_id = [], su_plan_mode = None\<rparr>"

definition dec_status_update_event :: "status_update_event dec" where
  "dec_status_update_event = dec_struct ''StatusUpdateEvent'' [
     (''context_usage'', fld su_context_usage su_context_usage_update (dec_ptr [] dec_float)),
     (''context_tokens'', fld su_context_tokens su_context_tokens_update (dec_ptr 0 dec_uint64)),
     (''max_context_tokens'', fld su_max_context_tokens su_max_context_tokens_update (dec_ptr 0 dec_uint64)),
     (''token_usage'', fld su_token_usage su_token_usage_update (dec_ptr zero_token_usage dec_token_usage)),
     (''message_id'', fld su_message_id su_message_id_update dec_string),
     (''plan_mode'', fld su_plan_mode su_plan_mode_update (dec_ptr False dec_bool))]"

definition enc_status_update_event :: "status_update_event \<Rightarrow> json" where
  "enc_status_update_event x = JObj (
     o_ptr ''context_usage'' JNum (su_context_usage x) @
     o_ptr ''context_tokens'' enc_u64 (su_context_tokens x) @
     o_ptr ''max_context_tokens'' enc_u64 (su_max_context_tokens x) @
     o_ptr ''token_usage'' enc_token_usage (su_token_usage x) @
     o_str ''message_id'' (su_message_id x) @ o_ptr ''plan_mode'' JBool (su_plan_mode x))"

record tool_call_function =
  tf_name :: string
  tf_arguments :: "string option"

definition zero_tool_call_function :: tool_call_function where
  "zero_tool_call_function = \<lparr>
     tf_name = [], tf_arguments = None\<rparr>"

definition dec_tool_call_function :: "tool_call_function dec" where
  "dec_tool_call_function = dec_struct ''ToolCallFunction'' [
     (''name'', fld tf_name tf_name_update dec_string),
     (''arguments'', fld tf_arguments tf_arguments_update (dec_ptr [] dec_string))]"

definition enc_tool_call_function :: "tool_call_function \<Rightarrow> json" where
  "enc_tool_call_function x = JObj (
     [(''name'', JStr (tf_name x))] @ o_ptr ''arguments'' JStr (tf_arguments x))"

record tool_call_part_event =
  tp_arguments_part :: "string option"

definition zero_tool_call_part_event :: tool_call_part_event where
  "zero_tool_call_part_event = \<lparr>
     tp_arguments_part = None\<rparr>"

definition dec_tool_call_part_event :: "tool_call_part_event dec" where
  "dec_tool_call_part_event = dec_struct ''ToolCallPartEvent'' [
     (''arguments_part'', fld tp_arguments_part tp_arguments_part_update (dec_ptr [] dec_string))]"

definition enc_tool_call_part_event :: "tool_call_part_event \<Rightarrow> json" where
  "enc_tool_call_part_event x = JObj (
     o_ptr ''arguments_part'' JStr (tp_arguments_part x))"

record tool_result_event =
  te_tool_call_id :: string
  te_return_value :: tool_return_value

definition zero_tool_result_event :: tool_result_event where
  "zero_tool_result_event = \<lparr>
     te_tool_call_id = [], te_return_value = zero_tool_return_value\<rparr>"

definition dec_tool_result_event :: "tool_result_event dec" where
  "dec_tool_result_event = dec_struct ''ToolResultEvent'' [
     (''tool_call_id'', fld te_tool_call_id te_tool_call_id_update dec_string),
     (''return_value'', fld te_return_value te_return_value_update dec_tool_return_value)]"

definition enc_tool_result_event :: "tool_result_event \<Rightarrow> derr + json" where
  "enc_tool_result_event x = bind_res (enc_tool_return_value (te_return_value x)) (\<lambda>m_return_value. Inr (JObj (
     [(''tool_call_id'', JStr (te_tool_call_id x)), (''return_value'', m_return_value)])))"

record approval_response_event =
  ar_request_id :: string
  ar_response :: string
  ar_feedback :: string

definition zero_approval_response_event :: approval_response_event where
  "zero_approval_response_event = \<lparr>
     ar_request_id = [], ar_response = [], ar_feedback = []\<rparr>"

definition dec_approval_response_event :: "approval_response_event dec" where
  "dec_approval_response_event = dec_struct ''ApprovalResponseEvent'' [
     (''request_id'', fld ar_request_id ar_request_id_update dec_string),
     (''response'', fld ar_response ar_response_update dec_string),
     (''feedback'', fld ar_feedback ar_feedback_update dec_string)]"

definition enc_approval_response_event :: "approval_response_event \<Rightarrow> json" where
  "enc_approval_response_event x = JObj (
     [(''request_id'', JStr (ar_request_id x)), (''response'', JStr (ar_response x))] @
     o_str ''feedback'' (ar_feedback x))"

record subagent_event_payload =
  sp_type :: string
  sp_payload :: raw_json

definition zero_subagent_event_payload :: subagent_event_payload where
  "zero_subagent_event_payload = \<lparr>
     sp_type = [], sp_payload = None\<rparr>"

definition dec_subagent_event_payload :: "subagent_event_payload dec" where
  "dec_subagent_event_payload = dec_struct ''SubagentEventPayload'' [
     (''type'', fld sp_type sp_type_update dec_string),
     (''payload'', fld sp_payload sp_payload_update dec_raw)]"

definition enc_subagent_event_payload :: "subagent_event_payload \<Rightarrow> json" where
  "enc_subagent_event_payload x = JObj (
     [(''type'', JStr (sp_type x)), (''payload'', enc_raw (sp_payload x))])"

record subagent_event =
  se_parent_tool_call_id :: "string option"
  se_agent_id :: "string option"
  se_subagent_type :: "string option"
  se_event :: subagent_event_payload

definition zero_subagent_event :: subagent_event where
  "zero_subagent_event = \<lparr>
     se_parent_tool_call_id = None, se_agent_id = None, se_subagent_type = None,
     se_event = zero_subagent_event_payload\<rparr>"

definition dec_subagent_event :: "subagent_event dec" where
  "dec_subagent_event = dec_struct ''SubagentEvent'' [
     (''parent_tool_call_id'', fld se_parent_tool_call_id se_parent_tool_call_id_update (dec_ptr [] dec_string)),
     (''agent_id'', fld se_agent_id se_agent_id_update (dec_ptr [] dec_string)),
     (''subagent_type'', fld se_subagent_type se_subagent_type_update (dec_ptr [] dec_string)),
     (''event'', fld se_event se_event_update dec_subagent_event_payload)]"

definition enc_subagent_event :: "subagent_event \<Rightarrow> json" where
  "enc_subagent_event x = JObj (
     o_ptr ''parent_tool_call_id'' JStr (se_parent_tool_call_id x) @
     o_ptr ''agent_id'' JStr (se_agent_id x) @
     o_ptr ''subagent_type'' JStr (se_subagent_type x) @
     [(''event'', enc_subagent_event_payload (se_event x))])"

record steer_input_event =
  si_user_input :: user_input

definition zero_steer_input_event :: steer_input_event where
  "zero_steer_input_event = \<lparr>
     si_user_input = zero_user_input\<rparr>"

definition dec_steer_input_event :: "steer_input_event dec" where
  "dec_steer_input_event = dec_struct ''SteerInputEvent'' [
     (''user_input'', fld si_user_input si_user_input_update dec_user_input)]"

definition enc_steer_input_event :: "steer_input_event \<Rightarrow> derr + json" where
  "enc_steer_input_event x = bind_res (marshal_user_input (si_user_input x)) (\<lambda>m_user_input. Inr (JObj (
     [(''user_input'', m_user_input)])))"

record btw_begin_event =
  bb_id :: string
  bb_question :: string

definition zero_btw_begin_event :: btw_begin_event where
  "zero_btw_begin_event = \<lparr>
     bb_id = [], bb_question = []\<rparr>"

definition dec_btw_begin_event :: "btw_begin_event dec" where
  "dec_btw_begin_event = dec_struct ''BtwBeginEvent'' [
     (''id'', fld bb_id bb_id_update dec_string),
     (''question'', fld bb_question bb_question_update dec_string)]"

definition enc_btw_begin_event :: "btw_begin_event \<Rightarrow> json" where
  "enc_btw_begin_event x = JObj (
     [(''id'', JStr (bb_id x)), (''question'', JStr (bb_question x))])"

record btw_end_event =
  be_id :: string
  be_response :: "string option"
  be_error :: "string option"

definition zero_btw_end_event :: btw_end_event where
  "zero_btw_end_event = \<lparr>
     be_id = [], be_response = None, be_error = None\<rparr>"

definition dec_btw_end_event :: "btw_end_event dec" where
  "dec_btw_end_event = dec_struct ''BtwEndEvent'' [
     (''id'', fld be_id be_id_update dec_string),
     (''response'', fld be_response be_response_update (dec_ptr [] dec_string)),
     (''error'', fld be_error be_error_update (dec_ptr [] dec_string))]"

definition enc_btw_end_event :: "btw_end_event \<Rightarrow> json" where
  "enc_btw_end_event x = JObj (
     [(''id'', JStr (be_id x))] @ o_ptr ''response'' JStr (be_response x) @
     o_ptr ''error'' JStr (be_error x))"

record plan_display_event =
  pd_content :: string
  pd_file_path :: string

definition zero_plan_display_event :: plan_display_event where
  "zero_plan_display_event = \<lparr>
     pd_content = [], pd_file_path = []\<rparr>"

definition dec_plan_display_event :: "plan_display_event dec" where
  "dec_plan_display_event = dec_struct ''PlanDisplayEvent'' [
     (''content'', fld pd_content pd_content_update dec_string),
     (''file_path'', fld pd_file_path pd_file_path_update dec_string)]"

definition enc_plan_display_event :: "plan_display_event \<Rightarrow> json" where
  "enc_plan_display_event x = JObj (
     [(''content'', JStr (pd_content x)), (''file_path'', JStr (pd_file_path x))])"

record hook_triggered_event =
  ht_event :: string
  ht_target :: string
  ht_hook_count :: u32

definition zero_hook_triggered_event :: hook_triggered_event where
  "zero_hook_triggered_event = \<lparr>
     ht_event = [], ht_target = [], ht_hook_count = 0\<rparr>"

definition dec_hook_triggered_event :: "hook_triggered_event dec" where
  "dec_hook_triggered_event = dec_struct ''HookTriggeredEvent'' [
     (''event'', fld ht_event ht_event_update dec_string),
     (''target'', fld ht_target ht_target_update dec_string),
     (''hook_count'', fld ht_hook_count ht_hook_count_update dec_uint32)]"

definition enc_hook_triggered_event :: "hook_triggered_event \<Rightarrow> json" where
  "enc_hook_triggered_event x = JObj (
     [(''event'', JStr (ht_event x)), (''target'', JStr (ht_target x)), (''hook_count'', enc_u32 (ht_hook_count x))])"

record hook_resolved_event =
  hr_event :: string
  hr_target :: string
  hr_action :: string
  hr_reason :: string
  hr_duration_ms :: u64

definition zero_hook_resolved_event :: hook_resolved_event where
  "zero_hook_resolved_event = \<lparr>
     hr_event = [], hr_target = [], hr_action = [], hr_reason = [], hr_duration_ms = 0\<rparr>"

definition dec_hook_resolved_event :: "hook_resolved_event dec" where
  "dec_hook_resolved_event = dec_struct ''HookResolvedEvent'' [
     (''event'', fld hr_event hr_event_update dec_string),
     (''target'', fld hr_target hr_target_update dec_string),
     (''action'', fld hr_action hr_action_update dec_string),
     (''reason'', fld hr_reason hr_reason_update dec_string),
     (''duration_ms'', fld hr_duration_ms hr_duration_ms_update dec_uint64)]"

definition enc_hook_resolved_event :: "hook_resolved_event \<Rightarrow> json" where
  "enc_hook_resolved_event x = JObj (
     [(''event'', JStr (hr_event x)), (''target'', JStr (hr_target x)), (''action'', JStr (hr_action x)), (''reason'', JStr (hr_reason x)), (''duration_ms'', enc_u64 (hr_duration_ms x))])"

text \<open>
  \<open>ToolCallEvent\<close> is written by \<open>toolCallEventPayload\<close> with \<open>"type": "function"\<close> in front and read
  into an anonymous struct that embeds it.
\<close>

record tool_call_event =
  tc_id :: string
  tc_function :: tool_call_function
  tc_extras :: raw_json

definition zero_tool_call_event :: tool_call_event where
  "zero_tool_call_event = \<lparr>tc_id = [], tc_function = zero_tool_call_function, tc_extras = None\<rparr>"

record tool_call_payload =
  tl_type :: string
  tl_call :: tool_call_event

definition zero_tool_call_payload :: tool_call_payload where
  "zero_tool_call_payload = \<lparr>tl_type = [], tl_call = zero_tool_call_event\<rparr>"

definition toolCallEventPayload :: "tool_call_event \<Rightarrow> json" where
  "toolCallEventPayload v = JObj ([(''type'', JStr ''function''), (''id'', JStr (tc_id v)),
     (''function'', enc_tool_call_function (tc_function v))] @ o_raw ''extras'' (tc_extras v))"

definition tl_call_fld :: "(tool_call_event \<Rightarrow> 'a) \<Rightarrow>
    (('a \<Rightarrow> 'a) \<Rightarrow> tool_call_event \<Rightarrow> tool_call_event) \<Rightarrow> 'a dec \<Rightarrow> tool_call_payload field" where
  "tl_call_fld get upd d =
     fld (\<lambda>p. get (tl_call p)) (\<lambda>f p. p\<lparr>tl_call := upd f (tl_call p)\<rparr>) d"

definition dec_tool_call_payload :: "tool_call_payload dec" where
  "dec_tool_call_payload = dec_struct ''ToolCallEvent''
     [(''type'', fld tl_type tl_type_update dec_string),
      (''id'', tl_call_fld tc_id tc_id_update dec_string),
      (''function'', tl_call_fld tc_function tc_function_update dec_tool_call_function),
      (''extras'', tl_call_fld tc_extras tc_extras_update dec_raw)]"

section \<open>The event interface\<close>

datatype event =
    TurnBeginEvent turn_begin_event
  | TurnEndEvent
  | StepBeginEvent step_begin_event
  | StepInterruptedEvent
  | StepRetryEvent step_retry_event
  | CompactionBeginEvent
  | CompactionEndEvent
  | StatusUpdateEvent status_update_event
  | ContentPartEvent content_part
  | ToolCallEvent tool_call_event
  | ToolCallPartEvent tool_call_part_event
  | ToolResultEvent tool_result_event
  | ApprovalResponseEvent approval_response_event
  | SubagentEvent subagent_event
  | SteerInputEvent steer_input_event
  | BtwBeginEvent btw_begin_event
  | BtwEndEvent btw_end_event
  | PlanDisplayEvent plan_display_event
  | HookTriggeredEvent hook_triggered_event
  | HookResolvedEvent hook_resolved_event

fun eventType :: "event \<Rightarrow> string" where
  "eventType (TurnBeginEvent _) = ''TurnBegin''"
| "eventType TurnEndEvent = ''TurnEnd''"
| "eventType (StepBeginEvent _) = ''StepBegin''"
| "eventType StepInterruptedEvent = ''StepInterrupted''"
| "eventType (StepRetryEvent _) = ''StepRetry''"
| "eventType CompactionBeginEvent = ''CompactionBegin''"
| "eventType CompactionEndEvent = ''CompactionEnd''"
| "eventType (StatusUpdateEvent _) = ''StatusUpdate''"
| "eventType (ContentPartEvent _) = ''ContentPart''"
| "eventType (ToolCallEvent _) = ''ToolCall''"
| "eventType (ToolCallPartEvent _) = ''ToolCallPart''"
| "eventType (ToolResultEvent _) = ''ToolResult''"
| "eventType (ApprovalResponseEvent _) = ''ApprovalResponse''"
| "eventType (SubagentEvent _) = ''SubagentEvent''"
| "eventType (SteerInputEvent _) = ''SteerInput''"
| "eventType (BtwBeginEvent _) = ''BtwBegin''"
| "eventType (BtwEndEvent _) = ''BtwEnd''"
| "eventType (PlanDisplayEvent _) = ''PlanDisplay''"
| "eventType (HookTriggeredEvent _) = ''HookTriggered''"
| "eventType (HookResolvedEvent _) = ''HookResolved''"

definition TypeName :: "event option \<Rightarrow> string" where
  "TypeName e = (case e of None \<Rightarrow> [] | Some v \<Rightarrow> eventType v)"

text \<open>\<open>json.Marshal\<close> of the payload, by the type switch of \<open>MarshalEvent\<close>.\<close>

fun event_payload :: "event \<Rightarrow> derr + json" where
  "event_payload (ContentPartEvent part) = Inr (marshal_content_part part)"
| "event_payload (ToolCallEvent v) = Inr (toolCallEventPayload v)"
| "event_payload (TurnBeginEvent v) = enc_turn_begin_event v"
| "event_payload TurnEndEvent = Inr (JObj [])"
| "event_payload (StepBeginEvent v) = Inr (enc_step_begin_event v)"
| "event_payload StepInterruptedEvent = Inr (JObj [])"
| "event_payload (StepRetryEvent v) = Inr (enc_step_retry_event v)"
| "event_payload CompactionBeginEvent = Inr (JObj [])"
| "event_payload CompactionEndEvent = Inr (JObj [])"
| "event_payload (StatusUpdateEvent v) = Inr (enc_status_update_event v)"
| "event_payload (ToolCallPartEvent v) = Inr (enc_tool_call_part_event v)"
| "event_payload (ToolResultEvent v) = enc_tool_result_event v"
| "event_payload (ApprovalResponseEvent v) = Inr (enc_approval_response_event v)"
| "event_payload (SubagentEvent v) = Inr (enc_subagent_event v)"
| "event_payload (SteerInputEvent v) = enc_steer_input_event v"
| "event_payload (BtwBeginEvent v) = Inr (enc_btw_begin_event v)"
| "event_payload (BtwEndEvent v) = Inr (enc_btw_end_event v)"
| "event_payload (PlanDisplayEvent v) = Inr (enc_plan_display_event v)"
| "event_payload (HookTriggeredEvent v) = Inr (enc_hook_triggered_event v)"
| "event_payload (HookResolvedEvent v) = Inr (enc_hook_resolved_event v)"

definition MarshalEvent :: "event option \<Rightarrow> derr + json" where
  "MarshalEvent e = (case e of
     None \<Rightarrow> Inl (Custom ''cannot marshal nil event'')
   | Some v \<Rightarrow> bind_res (event_payload v) (\<lambda>p.
       Inr (JObj [(''type'', JStr (eventType v)), (''payload'', p)])))"

text \<open>The envelope struct that \<open>ParseEvent\<close> and \<open>ParseRequest\<close> decode first.\<close>

record envelope =
  env_type :: string
  env_payload :: raw_json

definition dec_envelope :: "raw_json \<Rightarrow> derr + envelope" where
  "dec_envelope data = unmarshal (dec_struct ''envelope''
     [(''type'', fld env_type env_type_update dec_string),
      (''payload'', fld env_payload env_payload_update dec_raw)])
     \<lparr>env_type = [], env_payload = None\<rparr> data"

definition parse_tool_call :: "raw_json \<Rightarrow> derr + event" where
  "parse_tool_call p = bind_res (unmarshal dec_tool_call_payload zero_tool_call_payload p) (\<lambda>payload.
     if tl_type payload \<noteq> ''function''
     then Inl (Custom (''tool call payload must have type=function, got '' @ go_quote (tl_type payload)))
     else Inr (ToolCallEvent (tl_call payload)))"

definition parse_payload :: "string \<Rightarrow> raw_json \<Rightarrow> derr + event" where
  "parse_payload t p =
     (if t = ''TurnBegin'' then
        map_res TurnBeginEvent (unmarshal dec_turn_begin_event zero_turn_begin_event p)
      else if t = ''TurnEnd'' then Inr TurnEndEvent
      else if t = ''StepBegin'' then
        map_res StepBeginEvent (unmarshal dec_step_begin_event zero_step_begin_event p)
      else if t = ''StepInterrupted'' then Inr StepInterruptedEvent
      else if t = ''StepRetry'' then
        map_res StepRetryEvent (unmarshal dec_step_retry_event zero_step_retry_event p)
      else if t = ''CompactionBegin'' then Inr CompactionBeginEvent
      else if t = ''CompactionEnd'' then Inr CompactionEndEvent
      else if t = ''StatusUpdate'' then
        map_res StatusUpdateEvent (unmarshal dec_status_update_event zero_status_update_event p)
      else if t = ''ContentPart'' then
        map_res ContentPartEvent (unmarshal dec_content_part zero_content_part p)
      else if t = ''ToolCall'' then parse_tool_call p
      else if t = ''ToolCallPart'' then
        map_res ToolCallPartEvent (unmarshal dec_tool_call_part_event zero_tool_call_part_event p)
      else if t = ''ToolResult'' then
        map_res ToolResultEvent (unmarshal dec_tool_result_event zero_tool_result_event p)
      else if t = ''ApprovalResponse'' then
        map_res ApprovalResponseEvent
          (unmarshal dec_approval_response_event zero_approval_response_event p)
      else if t = ''SubagentEvent'' then
        map_res SubagentEvent (unmarshal dec_subagent_event zero_subagent_event p)
      else if t = ''SteerInput'' then
        map_res SteerInputEvent (unmarshal dec_steer_input_event zero_steer_input_event p)
      else if t = ''BtwBegin'' then
        map_res BtwBeginEvent (unmarshal dec_btw_begin_event zero_btw_begin_event p)
      else if t = ''BtwEnd'' then
        map_res BtwEndEvent (unmarshal dec_btw_end_event zero_btw_end_event p)
      else if t = ''PlanDisplay'' then
        map_res PlanDisplayEvent (unmarshal dec_plan_display_event zero_plan_display_event p)
      else if t = ''HookTriggered'' then
        map_res HookTriggeredEvent (unmarshal dec_hook_triggered_event zero_hook_triggered_event p)
      else if t = ''HookResolved'' then
        map_res HookResolvedEvent (unmarshal dec_hook_resolved_event zero_hook_resolved_event p)
      else Inl (Custom (''unknown event type: '' @ t)))"

definition ParseEvent :: "raw_json \<Rightarrow> derr + event" where
  "ParseEvent data = bind_res (dec_envelope data) (\<lambda>env. parse_payload (env_type env) (env_payload env))"

section \<open>Round trips\<close>

lemmas dec_enc_scalars = dec_enc_u32 dec_enc_u64

lemma dec_enc_step_begin_event: "dec_step_begin_event zero_step_begin_event (enc_step_begin_event x) = Inr x"
  by (simp add: codec dec_step_begin_event_def enc_step_begin_event_def zero_step_begin_event_def)

lemma dec_enc_step_retry_event: "dec_step_retry_event zero_step_retry_event (enc_step_retry_event x) = Inr x"
  by (simp add: codec dec_step_retry_event_def enc_step_retry_event_def zero_step_retry_event_def)

lemma dec_enc_token_usage: "dec_token_usage zero_token_usage (enc_token_usage x) = Inr x"
  by (simp add: codec dec_token_usage_def enc_token_usage_def zero_token_usage_def)

lemma enc_token_usage_nonnull [simp]: "enc_token_usage x \<noteq> JNull"
  by (simp add: enc_token_usage_def)

lemma dec_enc_status_update_event:
  "dec_status_update_event zero_status_update_event (enc_status_update_event x) = Inr x"
  by (simp add: codec dec_status_update_event_def enc_status_update_event_def
      zero_status_update_event_def dec_enc_token_usage)

lemma dec_enc_tool_call_function: "dec_tool_call_function zero_tool_call_function (enc_tool_call_function x) = Inr x"
  by (simp add: codec dec_tool_call_function_def enc_tool_call_function_def zero_tool_call_function_def)

lemma dec_enc_tool_call_part_event: "dec_tool_call_part_event zero_tool_call_part_event (enc_tool_call_part_event x) = Inr x"
  by (simp add: codec dec_tool_call_part_event_def enc_tool_call_part_event_def zero_tool_call_part_event_def)

lemma dec_enc_approval_response_event: "dec_approval_response_event zero_approval_response_event (enc_approval_response_event x) = Inr x"
  by (simp add: codec dec_approval_response_event_def enc_approval_response_event_def zero_approval_response_event_def)

lemma dec_enc_btw_begin_event: "dec_btw_begin_event zero_btw_begin_event (enc_btw_begin_event x) = Inr x"
  by (simp add: codec dec_btw_begin_event_def enc_btw_begin_event_def zero_btw_begin_event_def)

lemma dec_enc_btw_end_event: "dec_btw_end_event zero_btw_end_event (enc_btw_end_event x) = Inr x"
  by (simp add: codec dec_btw_end_event_def enc_btw_end_event_def zero_btw_end_event_def)

lemma dec_enc_plan_display_event: "dec_plan_display_event zero_plan_display_event (enc_plan_display_event x) = Inr x"
  by (simp add: codec dec_plan_display_event_def enc_plan_display_event_def zero_plan_display_event_def)

lemma dec_enc_hook_triggered_event: "dec_hook_triggered_event zero_hook_triggered_event (enc_hook_triggered_event x) = Inr x"
  by (simp add: codec dec_hook_triggered_event_def enc_hook_triggered_event_def zero_hook_triggered_event_def)

lemma dec_enc_hook_resolved_event: "dec_hook_resolved_event zero_hook_resolved_event (enc_hook_resolved_event x) = Inr x"
  by (simp add: codec dec_hook_resolved_event_def enc_hook_resolved_event_def zero_hook_resolved_event_def)

text \<open>A nil raw message is written as \<open>null\<close> and comes back as the raw message \<open>null\<close>.\<close>

definition norm_raw :: "raw_json \<Rightarrow> raw_json" where
  "norm_raw r = Some (enc_raw r)"

definition norm_subagent_event :: "subagent_event \<Rightarrow> subagent_event" where
  "norm_subagent_event x = x\<lparr>se_event := (se_event x)\<lparr>sp_payload := norm_raw (sp_payload (se_event x))\<rparr>\<rparr>"

lemma dec_enc_subagent_event:
  "dec_subagent_event zero_subagent_event (enc_subagent_event x) = Inr (norm_subagent_event x)"
  by (simp add: codec dec_subagent_event_def enc_subagent_event_def zero_subagent_event_def
      dec_subagent_event_payload_def enc_subagent_event_payload_def zero_subagent_event_payload_def
      norm_subagent_event_def norm_raw_def)

lemma dec_toolCallEventPayload:
  "dec_tool_call_payload zero_tool_call_payload (toolCallEventPayload v) =
    Inr \<lparr>tl_type = ''function'', tl_call = v\<rparr>"
  by (simp add: codec dec_tool_call_payload_def toolCallEventPayload_def zero_tool_call_payload_def
      zero_tool_call_event_def tl_call_fld_def dec_enc_tool_call_function)

lemma dec_enc_turn_begin_event:
  "enc_turn_begin_event x = Inr j \<Longrightarrow> dec_turn_begin_event zero_turn_begin_event j =
    Inr (x\<lparr>tb_user_input := norm_user_input (tb_user_input x)\<rparr>)"
  by (auto simp: codec enc_turn_begin_event_def dec_turn_begin_event_def zero_turn_begin_event_def
      bind_res_eq_Inr dec_marshal_user_input)

lemma dec_enc_steer_input_event:
  "enc_steer_input_event x = Inr j \<Longrightarrow> dec_steer_input_event zero_steer_input_event j =
    Inr (x\<lparr>si_user_input := norm_user_input (si_user_input x)\<rparr>)"
  by (auto simp: codec enc_steer_input_event_def dec_steer_input_event_def zero_steer_input_event_def
      bind_res_eq_Inr dec_marshal_user_input)

lemma dec_enc_tool_result_event:
  "enc_tool_result_event x = Inr j \<Longrightarrow> dec_tool_result_event zero_tool_result_event j =
    Inr (x\<lparr>te_return_value := norm_tool_return_value (te_return_value x)\<rparr>)"
  by (auto simp: codec enc_tool_result_event_def dec_tool_result_event_def zero_tool_result_event_def
      bind_res_eq_Inr dec_enc_tool_return_value)

text \<open>What an event is after one trip over the wire.\<close>

fun norm_event :: "event \<Rightarrow> event" where
  "norm_event (TurnBeginEvent v) =
     TurnBeginEvent (v\<lparr>tb_user_input := norm_user_input (tb_user_input v)\<rparr>)"
| "norm_event (SteerInputEvent v) =
     SteerInputEvent (v\<lparr>si_user_input := norm_user_input (si_user_input v)\<rparr>)"
| "norm_event (ToolResultEvent v) =
     ToolResultEvent (v\<lparr>te_return_value := norm_tool_return_value (te_return_value v)\<rparr>)"
| "norm_event (ContentPartEvent p) = ContentPartEvent (norm_content_part p)"
| "norm_event (SubagentEvent v) = SubagentEvent (norm_subagent_event v)"
| "norm_event e = e"

lemma dec_envelope_enc [codec]:
  "dec_envelope (Some (JObj [(''type'', JStr t), (''payload'', p)])) =
    Inr \<lparr>env_type = t, env_payload = Some p\<rparr>"
  by (simp add: dec_envelope_def codec)

lemmas event_round_trips = dec_enc_step_begin_event dec_enc_step_retry_event
  dec_enc_status_update_event dec_enc_tool_call_part_event dec_enc_approval_response_event
  dec_enc_subagent_event dec_enc_btw_begin_event dec_enc_btw_end_event dec_enc_plan_display_event
  dec_enc_hook_triggered_event dec_enc_hook_resolved_event dec_marshal_content_part
  dec_enc_turn_begin_event dec_enc_steer_input_event dec_enc_tool_result_event

lemma parse_payload_event_payload:
  "event_payload e = Inr p \<Longrightarrow> parse_payload (eventType e) (Some p) = Inr (norm_event e)"
  by (cases e) (auto simp: parse_payload_def parse_tool_call_def dec_toolCallEventPayload
      event_round_trips)

lemma ParseEvent_MarshalEvent:
  "MarshalEvent (Some e) = Inr j \<Longrightarrow> ParseEvent (Some j) = Inr (norm_event e)"
  by (auto simp: MarshalEvent_def ParseEvent_def bind_res_eq_Inr dec_envelope_enc
      parse_payload_event_payload)

lemma norm_raw_idem [simp]: "norm_raw (norm_raw r) = norm_raw r"
  by (simp add: norm_raw_def)

lemma norm_tool_return_value_idem [simp]:
  "norm_tool_return_value (norm_tool_return_value v) = norm_tool_return_value v"
  by (simp add: norm_tool_return_value_def norm_tool_output_def norm_content_part_idem o_def)

lemma norm_user_input_idem [simp]: "norm_user_input (norm_user_input u) = norm_user_input u"
  by (simp add: norm_user_input_def norm_content_part_idem o_def)

lemma norm_event_idem: "norm_event (norm_event e) = norm_event e"
  by (cases e) (simp_all add: norm_content_part_idem norm_subagent_event_def)

text \<open>\<open>MarshalEvent\<close> fails only on an input or an output with both text and parts.\<close>

fun marshalable_event :: "event \<Rightarrow> bool" where
  "marshalable_event (TurnBeginEvent v) = is_ok (marshal_user_input (tb_user_input v))"
| "marshalable_event (SteerInputEvent v) = is_ok (marshal_user_input (si_user_input v))"
| "marshalable_event (ToolResultEvent v) = is_ok (marshal_tool_output (tr_output (te_return_value v)))"
| "marshalable_event e = True"

lemma MarshalEvent_ok: "is_ok (MarshalEvent (Some e)) \<longleftrightarrow> marshalable_event e"
  by (cases e) (auto simp: MarshalEvent_def is_ok_iff bind_res_eq_Inr enc_turn_begin_event_def
      enc_steer_input_event_def enc_tool_result_event_def enc_tool_return_value_def)

text \<open>A parsed event always has the type name of its envelope and can be marshalled again.\<close>

lemma parse_payload_type: "parse_payload t p = Inr e \<Longrightarrow> eventType e = t"
  by (auto simp: parse_payload_def parse_tool_call_def map_res_eq_Inr bind_res_eq_Inr split: if_splits)

lemma parse_payload_unknown:
  "t \<notin> range eventType \<Longrightarrow> parse_payload t p = Inl (Custom (''unknown event type: '' @ t))"
proof -
  assume "t \<notin> range eventType"
  then have "t \<noteq> eventType e" for e by auto
  from this [of "TurnBeginEvent v" for v] this [of TurnEndEvent] this [of "StepBeginEvent v" for v]
    this [of StepInterruptedEvent] this [of "StepRetryEvent v" for v] this [of CompactionBeginEvent]
    this [of CompactionEndEvent] this [of "StatusUpdateEvent v" for v]
    this [of "ContentPartEvent v" for v] this [of "ToolCallEvent v" for v]
    this [of "ToolCallPartEvent v" for v] this [of "ToolResultEvent v" for v]
    this [of "ApprovalResponseEvent v" for v] this [of "SubagentEvent v" for v]
    this [of "SteerInputEvent v" for v] this [of "BtwBeginEvent v" for v]
    this [of "BtwEndEvent v" for v] this [of "PlanDisplayEvent v" for v]
    this [of "HookTriggeredEvent v" for v] this [of "HookResolvedEvent v" for v]
  show ?thesis by (simp add: parse_payload_def)
qed

text \<open>What \<open>ParseEvent\<close> accepts can be marshalled again.\<close>

lemma dec_turn_begin_ok:
  assumes "dec_turn_begin_event zero_turn_begin_event j = Inr v"
  shows "is_ok (marshal_user_input (tb_user_input v))"
  by (rule dec_struct_keeps [OF _ _ assms [unfolded dec_turn_begin_event_def]])
    (auto simp: fld_def map_res_eq_Inr zero_turn_begin_event_def intro: zero_input_ok dec_user_input_ok)

lemma dec_steer_input_ok:
  assumes "dec_steer_input_event zero_steer_input_event j = Inr v"
  shows "is_ok (marshal_user_input (si_user_input v))"
  by (rule dec_struct_keeps [OF _ _ assms [unfolded dec_steer_input_event_def]])
    (auto simp: fld_def map_res_eq_Inr zero_steer_input_event_def intro: zero_input_ok dec_user_input_ok)

lemma dec_tool_result_ok:
  assumes "dec_tool_result_event zero_tool_result_event j = Inr v"
  shows "is_ok (marshal_tool_output (tr_output (te_return_value v)))"
  by (rule dec_struct_keeps [where P = "\<lambda>v. is_ok (marshal_tool_output (tr_output (te_return_value v)))",
        OF _ _ assms [unfolded dec_tool_result_event_def]])
    (auto simp: fld_def map_res_eq_Inr zero_tool_result_event_def zero_tool_return_value_def zero_input_ok
      dest!: dec_tool_return_value_ok [rotated])

lemma parse_payload_marshalable: "parse_payload t p = Inr e \<Longrightarrow> marshalable_event e"
  by (auto simp: parse_payload_def map_res_eq_Inr unmarshal_Inr parse_tool_call_def bind_res_eq_Inr
      simp del: marshal_user_input_ok
      intro: dec_turn_begin_ok dec_steer_input_ok dec_tool_result_ok split: if_splits)

lemma ParseEvent_marshalable: "ParseEvent r = Inr e \<Longrightarrow> marshalable_event e"
  by (auto simp: ParseEvent_def bind_res_eq_Inr intro: parse_payload_marshalable)

section \<open>Properties\<close>


text \<open>An event that was parsed can always be sent on: marshalling it succeeds, the next reader
  gets the event of the same type in its normal form, and from there on relaying changes nothing.\<close>

lemma event_relay:
  assumes "ParseEvent r = Inr e"
  shows "\<exists>j. MarshalEvent (Some e) = Inr j \<and> ParseEvent (Some j) = Inr (norm_event e) \<and>
    norm_event (norm_event e) = norm_event e"
  using ParseEvent_marshalable [OF assms] MarshalEvent_ok [of e]
  by (auto simp: is_ok_iff norm_event_idem intro: ParseEvent_MarshalEvent)

text \<open>The event that \<open>ParseEvent\<close> returns has the type name that stands in the envelope.\<close>

theorem event_type_names:
  assumes "ParseEvent (Some (JObj [(''type'', JStr t), (''payload'', p)])) = Inr e"
  shows "eventType e = t"
  using assms
  by (auto simp: ParseEvent_def dec_envelope_def codec bind_res_eq_Inr intro: parse_payload_type)

theorem event_type_names_witness: "eventType StepInterruptedEvent = ''StepInterrupted''"
  by (rule event_type_names [of _ "JObj []"])
    (simp add: ParseEvent_def dec_envelope_def codec parse_payload_def)

end
