(* ===== verification/Requests.thy ===== *)
theory Requests
  imports Events
begin

text \<open>
  \<open>protocol/protocol_request.go\<close>: the four requests an agent sends to the client, the client's
  responses, and \<open>MarshalRequest\<close>/\<open>ParseRequest\<close>. The interface \<open>Request\<close> is a datatype, nil is
  \<open>None\<close>.
\<close>

section \<open>Request structs\<close>

record approval_request =
  aq_id :: string
  aq_tool_call_id :: string
  aq_sender :: string
  aq_action :: string
  aq_description :: string
  aq_display :: "display_block list"
  aq_source_kind :: "string option"
  aq_source_id :: string
  aq_agent_id :: string
  aq_subagent_type :: string
  aq_source_description :: string

definition zero_approval_request :: approval_request where
  "zero_approval_request = \<lparr>
     aq_id = [], aq_tool_call_id = [], aq_sender = [], aq_action = [], aq_description = [],
     aq_display = [], aq_source_kind = None, aq_source_id = [], aq_agent_id = [],
     aq_subagent_type = [], aq_source_description = []\<rparr>"

definition dec_approval_request :: "approval_request dec" where
  "dec_approval_request = dec_struct ''ApprovalRequest'' [
     (''id'', fld aq_id aq_id_update dec_string),
     (''tool_call_id'', fld aq_tool_call_id aq_tool_call_id_update dec_string),
     (''sender'', fld aq_sender aq_sender_update dec_string),
     (''action'', fld aq_action aq_action_update dec_string),
     (''description'', fld aq_description aq_description_update dec_string),
     (''display'', fld aq_display aq_display_update (dec_list zero_display_block dec_display_block)),
     (''source_kind'', fld aq_source_kind aq_source_kind_update (dec_ptr [] dec_string)),
     (''source_id'', fld aq_source_id aq_source_id_update dec_string),
     (''agent_id'', fld aq_agent_id aq_agent_id_update dec_string),
     (''subagent_type'', fld aq_subagent_type aq_subagent_type_update dec_string),
     (''source_description'', fld aq_source_description aq_source_description_update dec_string)]"

definition enc_approval_request :: "approval_request \<Rightarrow> json" where
  "enc_approval_request x = JObj (
     [(''id'', JStr (aq_id x)), (''tool_call_id'', JStr (aq_tool_call_id x)), (''sender'', JStr (aq_sender x)), (''action'', JStr (aq_action x)), (''description'', JStr (aq_description x))] @
     o_list ''display'' enc_display_block (aq_display x) @
     o_ptr ''source_kind'' JStr (aq_source_kind x) @ o_str ''source_id'' (aq_source_id x) @
     o_str ''agent_id'' (aq_agent_id x) @ o_str ''subagent_type'' (aq_subagent_type x) @
     o_str ''source_description'' (aq_source_description x))"

record tool_call_request =
  tq_id :: string
  tq_name :: string
  tq_arguments :: "string option"

definition zero_tool_call_request :: tool_call_request where
  "zero_tool_call_request = \<lparr>
     tq_id = [], tq_name = [], tq_arguments = None\<rparr>"

definition dec_tool_call_request :: "tool_call_request dec" where
  "dec_tool_call_request = dec_struct ''ToolCallRequest'' [
     (''id'', fld tq_id tq_id_update dec_string),
     (''name'', fld tq_name tq_name_update dec_string),
     (''arguments'', fld tq_arguments tq_arguments_update (dec_ptr [] dec_string))]"

definition enc_tool_call_request :: "tool_call_request \<Rightarrow> json" where
  "enc_tool_call_request x = JObj (
     [(''id'', JStr (tq_id x)), (''name'', JStr (tq_name x))] @
     o_ptr ''arguments'' JStr (tq_arguments x))"

record question_option =
  qo_label :: string
  qo_description :: string

definition zero_question_option :: question_option where
  "zero_question_option = \<lparr>
     qo_label = [], qo_description = []\<rparr>"

definition dec_question_option :: "question_option dec" where
  "dec_question_option = dec_struct ''QuestionOption'' [
     (''label'', fld qo_label qo_label_update dec_string),
     (''description'', fld qo_description qo_description_update dec_string)]"

definition enc_question_option :: "question_option \<Rightarrow> json" where
  "enc_question_option x = JObj (
     [(''label'', JStr (qo_label x))] @ o_str ''description'' (qo_description x))"

record question_item =
  qi_question :: string
  qi_header :: string
  qi_options :: "question_option list option"
  qi_multi_select :: "bool option"

definition zero_question_item :: question_item where
  "zero_question_item = \<lparr>
     qi_question = [], qi_header = [], qi_options = None, qi_multi_select = None\<rparr>"

definition dec_question_item :: "question_item dec" where
  "dec_question_item = dec_struct ''QuestionItem'' [
     (''question'', fld qi_question qi_question_update dec_string),
     (''header'', fld qi_header qi_header_update dec_string),
     (''options'', fld qi_options qi_options_update (dec_slice zero_question_option dec_question_option)),
     (''multi_select'', fld qi_multi_select qi_multi_select_update (dec_ptr False dec_bool))]"

definition enc_question_item :: "question_item \<Rightarrow> json" where
  "enc_question_item x = JObj (
     [(''question'', JStr (qi_question x))] @ o_str ''header'' (qi_header x) @
     [(''options'', enc_slice enc_question_option (qi_options x))] @
     o_ptr ''multi_select'' JBool (qi_multi_select x))"

record question_request =
  qq_id :: string
  qq_tool_call_id :: string
  qq_questions :: "question_item list option"

definition zero_question_request :: question_request where
  "zero_question_request = \<lparr>
     qq_id = [], qq_tool_call_id = [], qq_questions = None\<rparr>"

definition dec_question_request :: "question_request dec" where
  "dec_question_request = dec_struct ''QuestionRequest'' [
     (''id'', fld qq_id qq_id_update dec_string),
     (''tool_call_id'', fld qq_tool_call_id qq_tool_call_id_update dec_string),
     (''questions'', fld qq_questions qq_questions_update (dec_slice zero_question_item dec_question_item))]"

definition enc_question_request :: "question_request \<Rightarrow> json" where
  "enc_question_request x = JObj (
     [(''id'', JStr (qq_id x)), (''tool_call_id'', JStr (qq_tool_call_id x)), (''questions'', enc_slice enc_question_item (qq_questions x))])"

record hook_request =
  hq_id :: string
  hq_subscription_id :: string
  hq_event :: string
  hq_target :: string
  hq_input_data :: raw_json

definition zero_hook_request :: hook_request where
  "zero_hook_request = \<lparr>
     hq_id = [], hq_subscription_id = [], hq_event = [], hq_target = [], hq_input_data = None\<rparr>"

definition dec_hook_request :: "hook_request dec" where
  "dec_hook_request = dec_struct ''HookRequest'' [
     (''id'', fld hq_id hq_id_update dec_string),
     (''subscription_id'', fld hq_subscription_id hq_subscription_id_update dec_string),
     (''event'', fld hq_event hq_event_update dec_string),
     (''target'', fld hq_target hq_target_update dec_string),
     (''input_data'', fld hq_input_data hq_input_data_update dec_raw)]"

definition enc_hook_request :: "hook_request \<Rightarrow> json" where
  "enc_hook_request x = JObj (
     [(''id'', JStr (hq_id x)), (''subscription_id'', JStr (hq_subscription_id x)), (''event'', JStr (hq_event x)), (''target'', JStr (hq_target x)), (''input_data'', enc_raw (hq_input_data x))])"

section \<open>Response structs\<close>

record approval_response =
  ax_request_id :: string
  ax_response :: string
  ax_feedback :: string

definition zero_approval_response :: approval_response where
  "zero_approval_response = \<lparr>
     ax_request_id = [], ax_response = [], ax_feedback = []\<rparr>"

definition dec_approval_response :: "approval_response dec" where
  "dec_approval_response = dec_struct ''ApprovalResponse'' [
     (''request_id'', fld ax_request_id ax_request_id_update dec_string),
     (''response'', fld ax_response ax_response_update dec_string),
     (''feedback'', fld ax_feedback ax_feedback_update dec_string)]"

definition enc_approval_response :: "approval_response \<Rightarrow> json" where
  "enc_approval_response x = JObj (
     [(''request_id'', JStr (ax_request_id x)), (''response'', JStr (ax_response x))] @
     o_str ''feedback'' (ax_feedback x))"

record tool_call_response =
  tx_tool_call_id :: string
  tx_return_value :: tool_return_value

definition zero_tool_call_response :: tool_call_response where
  "zero_tool_call_response = \<lparr>
     tx_tool_call_id = [], tx_return_value = zero_tool_return_value\<rparr>"

definition dec_tool_call_response :: "tool_call_response dec" where
  "dec_tool_call_response = dec_struct ''ToolCallResponse'' [
     (''tool_call_id'', fld tx_tool_call_id tx_tool_call_id_update dec_string),
     (''return_value'', fld tx_return_value tx_return_value_update dec_tool_return_value)]"

definition enc_tool_call_response :: "tool_call_response \<Rightarrow> derr + json" where
  "enc_tool_call_response x = bind_res (enc_tool_return_value (tx_return_value x)) (\<lambda>m_return_value. Inr (JObj (
     [(''tool_call_id'', JStr (tx_tool_call_id x)), (''return_value'', m_return_value)])))"

record question_response =
  qx_request_id :: string
  qx_answers :: "string gomap"

definition zero_question_response :: question_response where
  "zero_question_response = \<lparr>
     qx_request_id = [], qx_answers = None\<rparr>"

definition dec_question_response :: "question_response dec" where
  "dec_question_response = dec_struct ''QuestionResponse'' [
     (''request_id'', fld qx_request_id qx_request_id_update dec_string),
     (''answers'', fld qx_answers qx_answers_update (dec_map [] dec_string))]"

definition enc_question_response :: "question_response \<Rightarrow> json" where
  "enc_question_response x = JObj (
     [(''request_id'', JStr (qx_request_id x)), (''answers'', enc_map JStr (qx_answers x))])"

record hook_response =
  hx_request_id :: string
  hx_action :: string
  hx_reason :: string

definition zero_hook_response :: hook_response where
  "zero_hook_response = \<lparr>
     hx_request_id = [], hx_action = [], hx_reason = []\<rparr>"

definition dec_hook_response :: "hook_response dec" where
  "dec_hook_response = dec_struct ''HookResponse'' [
     (''request_id'', fld hx_request_id hx_request_id_update dec_string),
     (''action'', fld hx_action hx_action_update dec_string),
     (''reason'', fld hx_reason hx_reason_update dec_string)]"

definition enc_hook_response :: "hook_response \<Rightarrow> json" where
  "enc_hook_response x = JObj (
     [(''request_id'', JStr (hx_request_id x)), (''action'', JStr (hx_action x)), (''reason'', JStr (hx_reason x))])"

section \<open>The request interface\<close>

datatype request =
    ApprovalRequest approval_request
  | ToolCallRequest tool_call_request
  | QuestionRequest question_request
  | HookRequest hook_request

fun requestType :: "request \<Rightarrow> string" where
  "requestType (ApprovalRequest _) = ''ApprovalRequest''"
| "requestType (ToolCallRequest _) = ''ToolCallRequest''"
| "requestType (QuestionRequest _) = ''QuestionRequest''"
| "requestType (HookRequest _) = ''HookRequest''"

definition Kind :: "request option \<Rightarrow> string" where
  "Kind r = (case r of None \<Rightarrow> [] | Some v \<Rightarrow> requestType v)"

fun request_payload :: "request \<Rightarrow> json" where
  "request_payload (ApprovalRequest v) = enc_approval_request v"
| "request_payload (ToolCallRequest v) = enc_tool_call_request v"
| "request_payload (QuestionRequest v) = enc_question_request v"
| "request_payload (HookRequest v) = enc_hook_request v"

definition MarshalRequest :: "request option \<Rightarrow> derr + json" where
  "MarshalRequest r = (case r of
     None \<Rightarrow> Inl (Custom ''cannot marshal nil request'')
   | Some v \<Rightarrow> Inr (JObj [(''type'', JStr (requestType v)), (''payload'', request_payload v)]))"

definition ParseRequest :: "raw_json \<Rightarrow> derr + request" where
  "ParseRequest data = bind_res (dec_envelope data) (\<lambda>env.
     let t = env_type env; p = env_payload env in
     if t = ''ApprovalRequest'' then
       map_res ApprovalRequest (unmarshal dec_approval_request zero_approval_request p)
     else if t = ''ToolCallRequest'' then
       map_res ToolCallRequest (unmarshal dec_tool_call_request zero_tool_call_request p)
     else if t = ''QuestionRequest'' then
       map_res QuestionRequest (unmarshal dec_question_request zero_question_request p)
     else if t = ''HookRequest'' then
       map_res HookRequest (unmarshal dec_hook_request zero_hook_request p)
     else Inl (Custom (''unknown request type: '' @ t)))"

section \<open>Round trips\<close>

lemma dec_enc_approval_request: "dec_approval_request zero_approval_request (enc_approval_request x) = Inr x"
  by (simp add: codec dec_approval_request_def enc_approval_request_def zero_approval_request_def dec_enc_display_block)

lemma dec_enc_tool_call_request: "dec_tool_call_request zero_tool_call_request (enc_tool_call_request x) = Inr x"
  by (simp add: codec dec_tool_call_request_def enc_tool_call_request_def zero_tool_call_request_def dec_enc_display_block)

lemma dec_enc_question_option: "dec_question_option zero_question_option (enc_question_option x) = Inr x"
  by (simp add: codec dec_question_option_def enc_question_option_def zero_question_option_def dec_enc_display_block)

lemma dec_enc_question_item: "dec_question_item zero_question_item (enc_question_item x) = Inr x"
  by (simp add: codec dec_question_item_def enc_question_item_def zero_question_item_def
      dec_slice_enc dec_enc_question_option)

lemma dec_enc_question_request:
  "dec_question_request zero_question_request (enc_question_request x) = Inr x"
  by (simp add: codec dec_question_request_def enc_question_request_def zero_question_request_def
      dec_slice_enc dec_enc_question_item)

definition norm_hook_request :: "hook_request \<Rightarrow> hook_request" where
  "norm_hook_request x = x\<lparr>hq_input_data := norm_raw (hq_input_data x)\<rparr>"

lemma dec_enc_hook_request:
  "dec_hook_request zero_hook_request (enc_hook_request x) = Inr (norm_hook_request x)"
  by (simp add: codec dec_hook_request_def enc_hook_request_def zero_hook_request_def
      norm_hook_request_def norm_raw_def)

text \<open>A request comes back as it was sent, but for a nil \<open>input_data\<close>, which comes back as \<open>null\<close>.\<close>

fun norm_request :: "request \<Rightarrow> request" where
  "norm_request (HookRequest x) = HookRequest (norm_hook_request x)"
| "norm_request r = r"

lemma MarshalRequest_ok: "\<exists>j. MarshalRequest (Some r) = Inr j"
  by (simp add: MarshalRequest_def)

lemma ParseRequest_MarshalRequest:
  "MarshalRequest (Some r) = Inr j \<Longrightarrow> ParseRequest (Some j) = Inr (norm_request r)"
  by (cases r) (auto simp: MarshalRequest_def ParseRequest_def dec_envelope_enc
      dec_enc_approval_request dec_enc_tool_call_request dec_enc_question_request
      dec_enc_hook_request)

lemma ParseRequest_type:
  "ParseRequest data = Inr r \<Longrightarrow> \<exists>env. dec_envelope data = Inr env \<and> env_type env = requestType r"
  by (auto simp: ParseRequest_def bind_res_eq_Inr map_res_eq_Inr Let_def split: if_splits)

lemma dec_enc_approval_response: "dec_approval_response zero_approval_response (enc_approval_response x) = Inr x"
  by (simp add: codec dec_approval_response_def enc_approval_response_def zero_approval_response_def)

lemma dec_enc_hook_response: "dec_hook_response zero_hook_response (enc_hook_response x) = Inr x"
  by (simp add: codec dec_hook_response_def enc_hook_response_def zero_hook_response_def)

lemma dec_enc_tool_call_response:
  "enc_tool_call_response x = Inr j \<Longrightarrow> dec_tool_call_response zero_tool_call_response j =
    Inr (x\<lparr>tx_return_value := norm_tool_return_value (tx_return_value x)\<rparr>)"
  by (auto simp: codec enc_tool_call_response_def dec_tool_call_response_def
      zero_tool_call_response_def bind_res_eq_Inr dec_enc_tool_return_value)

lemma dec_enc_question_response:
  "map_ok (qx_answers x) \<Longrightarrow> dec_question_response zero_question_response (enc_question_response x) =
    Inr (x\<lparr>qx_answers := map_option sort_map (qx_answers x)\<rparr>)"
  by (simp add: codec enc_question_response_def dec_question_response_def
      zero_question_response_def dec_enc_map)

section \<open>Properties\<close>


end
