(* ===== verification/Methods.thy ===== *)
theory Methods
  imports Requests
begin

text \<open>
  \<open>protocol/protocol_method.go\<close>: the version constants and the parameters and results of the six
  client methods.
\<close>

abbreviation WireProtocolVersion :: string where "WireProtocolVersion \<equiv> ''1.10''"
abbreviation WireProtocolLegacyVersion :: string where
  "WireProtocolLegacyVersion \<equiv> ''legacy/no-handshake''"

section \<open>Initialize\<close>

record client_info =
  ci_name :: string
  ci_version :: string

definition zero_client_info :: client_info where
  "zero_client_info = \<lparr>
     ci_name = [], ci_version = []\<rparr>"

definition dec_client_info :: "client_info dec" where
  "dec_client_info = dec_struct ''ClientInfo'' [
     (''name'', fld ci_name ci_name_update dec_string),
     (''version'', fld ci_version ci_version_update dec_string)]"

definition enc_client_info :: "client_info \<Rightarrow> json" where
  "enc_client_info x = JObj (
     [(''name'', JStr (ci_name x))] @ o_str ''version'' (ci_version x))"

record client_capabilities =
  cc_supports_question :: "bool option"
  cc_supports_plan_mode :: "bool option"

definition zero_client_capabilities :: client_capabilities where
  "zero_client_capabilities = \<lparr>
     cc_supports_question = None, cc_supports_plan_mode = None\<rparr>"

definition dec_client_capabilities :: "client_capabilities dec" where
  "dec_client_capabilities = dec_struct ''ClientCapabilities'' [
     (''supports_question'', fld cc_supports_question cc_supports_question_update (dec_ptr False dec_bool)),
     (''supports_plan_mode'', fld cc_supports_plan_mode cc_supports_plan_mode_update (dec_ptr False dec_bool))]"

definition enc_client_capabilities :: "client_capabilities \<Rightarrow> json" where
  "enc_client_capabilities x = JObj (
     o_ptr ''supports_question'' JBool (cc_supports_question x) @
     o_ptr ''supports_plan_mode'' JBool (cc_supports_plan_mode x))"

record wire_hook_subscription =
  wh_id :: string
  wh_event :: string
  wh_matcher :: string
  wh_timeout :: u32

definition zero_wire_hook_subscription :: wire_hook_subscription where
  "zero_wire_hook_subscription = \<lparr>
     wh_id = [], wh_event = [], wh_matcher = [], wh_timeout = 0\<rparr>"

definition dec_wire_hook_subscription :: "wire_hook_subscription dec" where
  "dec_wire_hook_subscription = dec_struct ''WireHookSubscription'' [
     (''id'', fld wh_id wh_id_update dec_string),
     (''event'', fld wh_event wh_event_update dec_string),
     (''matcher'', fld wh_matcher wh_matcher_update dec_string),
     (''timeout'', fld wh_timeout wh_timeout_update dec_uint32)]"

definition enc_wire_hook_subscription :: "wire_hook_subscription \<Rightarrow> json" where
  "enc_wire_hook_subscription x = JObj (
     [(''id'', JStr (wh_id x)), (''event'', JStr (wh_event x))] @
     o_str ''matcher'' (wh_matcher x) @ o_u32 ''timeout'' (wh_timeout x))"

record external_tool =
  et_name :: string
  et_description :: string
  et_parameters :: raw_json

definition zero_external_tool :: external_tool where
  "zero_external_tool = \<lparr>
     et_name = [], et_description = [], et_parameters = None\<rparr>"

definition dec_external_tool :: "external_tool dec" where
  "dec_external_tool = dec_struct ''ExternalTool'' [
     (''name'', fld et_name et_name_update dec_string),
     (''description'', fld et_description et_description_update dec_string),
     (''parameters'', fld et_parameters et_parameters_update dec_raw)]"

definition enc_external_tool :: "external_tool \<Rightarrow> json" where
  "enc_external_tool x = JObj (
     [(''name'', JStr (et_name x)), (''description'', JStr (et_description x)), (''parameters'', enc_raw (et_parameters x))])"

record initialize_params =
  ip_protocol_version :: string
  ip_client :: "client_info option"
  ip_external_tools :: "external_tool list"
  ip_capabilities :: "client_capabilities option"
  ip_hooks :: "wire_hook_subscription list"

definition zero_initialize_params :: initialize_params where
  "zero_initialize_params = \<lparr>
     ip_protocol_version = [], ip_client = None, ip_external_tools = [], ip_capabilities = None,
     ip_hooks = []\<rparr>"

definition dec_initialize_params :: "initialize_params dec" where
  "dec_initialize_params = dec_struct ''InitializeParams'' [
     (''protocol_version'', fld ip_protocol_version ip_protocol_version_update dec_string),
     (''client'', fld ip_client ip_client_update (dec_ptr zero_client_info dec_client_info)),
     (''external_tools'', fld ip_external_tools ip_external_tools_update (dec_list zero_external_tool dec_external_tool)),
     (''capabilities'', fld ip_capabilities ip_capabilities_update (dec_ptr zero_client_capabilities dec_client_capabilities)),
     (''hooks'', fld ip_hooks ip_hooks_update (dec_list zero_wire_hook_subscription dec_wire_hook_subscription))]"

definition enc_initialize_params :: "initialize_params \<Rightarrow> json" where
  "enc_initialize_params x = JObj (
     [(''protocol_version'', JStr (ip_protocol_version x))] @
     o_ptr ''client'' enc_client_info (ip_client x) @
     o_list ''external_tools'' enc_external_tool (ip_external_tools x) @
     o_ptr ''capabilities'' enc_client_capabilities (ip_capabilities x) @
     o_list ''hooks'' enc_wire_hook_subscription (ip_hooks x))"

record server_info =
  sv_name :: string
  sv_version :: string

definition zero_server_info :: server_info where
  "zero_server_info = \<lparr>
     sv_name = [], sv_version = []\<rparr>"

definition dec_server_info :: "server_info dec" where
  "dec_server_info = dec_struct ''ServerInfo'' [
     (''name'', fld sv_name sv_name_update dec_string),
     (''version'', fld sv_version sv_version_update dec_string)]"

definition enc_server_info :: "server_info \<Rightarrow> json" where
  "enc_server_info x = JObj (
     [(''name'', JStr (sv_name x)), (''version'', JStr (sv_version x))])"

record slash_command_info =
  sc_name :: string
  sc_description :: string
  sc_aliases :: "string list option"

definition zero_slash_command_info :: slash_command_info where
  "zero_slash_command_info = \<lparr>
     sc_name = [], sc_description = [], sc_aliases = None\<rparr>"

definition dec_slash_command_info :: "slash_command_info dec" where
  "dec_slash_command_info = dec_struct ''SlashCommandInfo'' [
     (''name'', fld sc_name sc_name_update dec_string),
     (''description'', fld sc_description sc_description_update dec_string),
     (''aliases'', fld sc_aliases sc_aliases_update (dec_slice [] dec_string))]"

definition enc_slash_command_info :: "slash_command_info \<Rightarrow> json" where
  "enc_slash_command_info x = JObj (
     [(''name'', JStr (sc_name x)), (''description'', JStr (sc_description x)), (''aliases'', enc_slice JStr (sc_aliases x))])"

record rejected_external_tool =
  rt_name :: string
  rt_reason :: string

definition zero_rejected_external_tool :: rejected_external_tool where
  "zero_rejected_external_tool = \<lparr>
     rt_name = [], rt_reason = []\<rparr>"

definition dec_rejected_external_tool :: "rejected_external_tool dec" where
  "dec_rejected_external_tool = dec_struct ''RejectedExternalTool'' [
     (''name'', fld rt_name rt_name_update dec_string),
     (''reason'', fld rt_reason rt_reason_update dec_string)]"

definition enc_rejected_external_tool :: "rejected_external_tool \<Rightarrow> json" where
  "enc_rejected_external_tool x = JObj (
     [(''name'', JStr (rt_name x)), (''reason'', JStr (rt_reason x))])"

record external_tools_result =
  er_accepted :: "string list option"
  er_rejected :: "rejected_external_tool list option"

definition zero_external_tools_result :: external_tools_result where
  "zero_external_tools_result = \<lparr>
     er_accepted = None, er_rejected = None\<rparr>"

definition dec_external_tools_result :: "external_tools_result dec" where
  "dec_external_tools_result = dec_struct ''ExternalToolsResult'' [
     (''accepted'', fld er_accepted er_accepted_update (dec_slice [] dec_string)),
     (''rejected'', fld er_rejected er_rejected_update (dec_slice zero_rejected_external_tool dec_rejected_external_tool))]"

definition enc_external_tools_result :: "external_tools_result \<Rightarrow> json" where
  "enc_external_tools_result x = JObj (
     [(''accepted'', enc_slice JStr (er_accepted x)), (''rejected'', enc_slice enc_rejected_external_tool (er_rejected x))])"

record server_capabilities =
  sk_supports_question :: "bool option"

definition zero_server_capabilities :: server_capabilities where
  "zero_server_capabilities = \<lparr>
     sk_supports_question = None\<rparr>"

definition dec_server_capabilities :: "server_capabilities dec" where
  "dec_server_capabilities = dec_struct ''ServerCapabilities'' [
     (''supports_question'', fld sk_supports_question sk_supports_question_update (dec_ptr False dec_bool))]"

definition enc_server_capabilities :: "server_capabilities \<Rightarrow> json" where
  "enc_server_capabilities x = JObj (
     o_ptr ''supports_question'' JBool (sk_supports_question x))"

record hooks_info =
  hi_supported_events :: "string list option"
  hi_configured :: "u32 gomap"

definition zero_hooks_info :: hooks_info where
  "zero_hooks_info = \<lparr>
     hi_supported_events = None, hi_configured = None\<rparr>"

definition dec_hooks_info :: "hooks_info dec" where
  "dec_hooks_info = dec_struct ''HooksInfo'' [
     (''supported_events'', fld hi_supported_events hi_supported_events_update (dec_slice [] dec_string)),
     (''configured'', fld hi_configured hi_configured_update (dec_map 0 dec_uint32))]"

definition enc_hooks_info :: "hooks_info \<Rightarrow> json" where
  "enc_hooks_info x = JObj (
     [(''supported_events'', enc_slice JStr (hi_supported_events x)), (''configured'', enc_map enc_u32 (hi_configured x))])"

record initialize_result =
  ir_protocol_version :: string
  ir_server :: server_info
  ir_slash_commands :: "slash_command_info list option"
  ir_external_tools :: "external_tools_result option"
  ir_capabilities :: "server_capabilities option"
  ir_hooks :: "hooks_info option"

definition zero_initialize_result :: initialize_result where
  "zero_initialize_result = \<lparr>
     ir_protocol_version = [], ir_server = zero_server_info, ir_slash_commands = None,
     ir_external_tools = None, ir_capabilities = None, ir_hooks = None\<rparr>"

definition dec_initialize_result :: "initialize_result dec" where
  "dec_initialize_result = dec_struct ''InitializeResult'' [
     (''protocol_version'', fld ir_protocol_version ir_protocol_version_update dec_string),
     (''server'', fld ir_server ir_server_update dec_server_info),
     (''slash_commands'', fld ir_slash_commands ir_slash_commands_update (dec_slice zero_slash_command_info dec_slash_command_info)),
     (''external_tools'', fld ir_external_tools ir_external_tools_update (dec_ptr zero_external_tools_result dec_external_tools_result)),
     (''capabilities'', fld ir_capabilities ir_capabilities_update (dec_ptr zero_server_capabilities dec_server_capabilities)),
     (''hooks'', fld ir_hooks ir_hooks_update (dec_ptr zero_hooks_info dec_hooks_info))]"

definition enc_initialize_result :: "initialize_result \<Rightarrow> json" where
  "enc_initialize_result x = JObj (
     [(''protocol_version'', JStr (ir_protocol_version x)), (''server'', enc_server_info (ir_server x)), (''slash_commands'', enc_slice enc_slash_command_info (ir_slash_commands x))] @
     o_ptr ''external_tools'' enc_external_tools_result (ir_external_tools x) @
     o_ptr ''capabilities'' enc_server_capabilities (ir_capabilities x) @
     o_ptr ''hooks'' enc_hooks_info (ir_hooks x))"

section \<open>Prompt, replay, steer, plan mode, cancel\<close>

record prompt_params =
  pp_user_input :: user_input

definition zero_prompt_params :: prompt_params where
  "zero_prompt_params = \<lparr>
     pp_user_input = zero_user_input\<rparr>"

definition dec_prompt_params :: "prompt_params dec" where
  "dec_prompt_params = dec_struct ''PromptParams'' [
     (''user_input'', fld pp_user_input pp_user_input_update dec_user_input)]"

definition enc_prompt_params :: "prompt_params \<Rightarrow> derr + json" where
  "enc_prompt_params x = bind_res (marshal_user_input (pp_user_input x)) (\<lambda>m_user_input. Inr (JObj (
     [(''user_input'', m_user_input)])))"

record prompt_result =
  pr_status :: string
  pr_steps :: "u64 option"

definition zero_prompt_result :: prompt_result where
  "zero_prompt_result = \<lparr>
     pr_status = [], pr_steps = None\<rparr>"

definition dec_prompt_result :: "prompt_result dec" where
  "dec_prompt_result = dec_struct ''PromptResult'' [
     (''status'', fld pr_status pr_status_update dec_string),
     (''steps'', fld pr_steps pr_steps_update (dec_ptr 0 dec_uint64))]"

definition enc_prompt_result :: "prompt_result \<Rightarrow> json" where
  "enc_prompt_result x = JObj (
     [(''status'', JStr (pr_status x))] @ o_ptr ''steps'' enc_u64 (pr_steps x))"

record replay_result =
  rr_status :: string
  rr_events :: u64
  rr_requests :: u64

definition zero_replay_result :: replay_result where
  "zero_replay_result = \<lparr>
     rr_status = [], rr_events = 0, rr_requests = 0\<rparr>"

definition dec_replay_result :: "replay_result dec" where
  "dec_replay_result = dec_struct ''ReplayResult'' [
     (''status'', fld rr_status rr_status_update dec_string),
     (''events'', fld rr_events rr_events_update dec_uint64),
     (''requests'', fld rr_requests rr_requests_update dec_uint64)]"

definition enc_replay_result :: "replay_result \<Rightarrow> json" where
  "enc_replay_result x = JObj (
     [(''status'', JStr (rr_status x)), (''events'', enc_u64 (rr_events x)), (''requests'', enc_u64 (rr_requests x))])"

record steer_params =
  sm_user_input :: user_input

definition zero_steer_params :: steer_params where
  "zero_steer_params = \<lparr>
     sm_user_input = zero_user_input\<rparr>"

definition dec_steer_params :: "steer_params dec" where
  "dec_steer_params = dec_struct ''SteerParams'' [
     (''user_input'', fld sm_user_input sm_user_input_update dec_user_input)]"

definition enc_steer_params :: "steer_params \<Rightarrow> derr + json" where
  "enc_steer_params x = bind_res (marshal_user_input (sm_user_input x)) (\<lambda>m_user_input. Inr (JObj (
     [(''user_input'', m_user_input)])))"

record steer_result =
  sx_status :: string

definition zero_steer_result :: steer_result where
  "zero_steer_result = \<lparr>
     sx_status = []\<rparr>"

definition dec_steer_result :: "steer_result dec" where
  "dec_steer_result = dec_struct ''SteerResult'' [
     (''status'', fld sx_status sx_status_update dec_string)]"

definition enc_steer_result :: "steer_result \<Rightarrow> json" where
  "enc_steer_result x = JObj (
     [(''status'', JStr (sx_status x))])"

record set_plan_mode_params =
  mp_enabled :: bool

definition zero_set_plan_mode_params :: set_plan_mode_params where
  "zero_set_plan_mode_params = \<lparr>
     mp_enabled = False\<rparr>"

definition dec_set_plan_mode_params :: "set_plan_mode_params dec" where
  "dec_set_plan_mode_params = dec_struct ''SetPlanModeParams'' [
     (''enabled'', fld mp_enabled mp_enabled_update dec_bool)]"

definition enc_set_plan_mode_params :: "set_plan_mode_params \<Rightarrow> json" where
  "enc_set_plan_mode_params x = JObj (
     [(''enabled'', JBool (mp_enabled x))])"

record set_plan_mode_result =
  mr_status :: string
  mr_plan_mode :: bool

definition zero_set_plan_mode_result :: set_plan_mode_result where
  "zero_set_plan_mode_result = \<lparr>
     mr_status = [], mr_plan_mode = False\<rparr>"

definition dec_set_plan_mode_result :: "set_plan_mode_result dec" where
  "dec_set_plan_mode_result = dec_struct ''SetPlanModeResult'' [
     (''status'', fld mr_status mr_status_update dec_string),
     (''plan_mode'', fld mr_plan_mode mr_plan_mode_update dec_bool)]"

definition enc_set_plan_mode_result :: "set_plan_mode_result \<Rightarrow> json" where
  "enc_set_plan_mode_result x = JObj (
     [(''status'', JStr (mr_status x)), (''plan_mode'', JBool (mr_plan_mode x))])"

abbreviation PromptStatusFinished :: string where "PromptStatusFinished \<equiv> ''finished''"
abbreviation PromptStatusCancelled :: string where "PromptStatusCancelled \<equiv> ''cancelled''"
abbreviation ReplayStatusCancelled :: string where "ReplayStatusCancelled \<equiv> ''cancelled''"
abbreviation SteerStatusSteered :: string where "SteerStatusSteered \<equiv> ''steered''"

text \<open>\<open>ReplayParams\<close>, \<open>CancelParams\<close> and \<open>CancelResult\<close> are empty structs, written \<open>{}\<close>.\<close>

definition enc_cancel_result :: json where
  "enc_cancel_result = JObj []"

section \<open>Round trips\<close>

lemma dec_enc_client_info: "dec_client_info zero_client_info (enc_client_info x) = Inr x"
  by (simp add: codec dec_client_info_def enc_client_info_def zero_client_info_def)

lemma dec_enc_client_capabilities: "dec_client_capabilities zero_client_capabilities (enc_client_capabilities x) = Inr x"
  by (simp add: codec dec_client_capabilities_def enc_client_capabilities_def zero_client_capabilities_def)

lemma dec_enc_wire_hook_subscription: "dec_wire_hook_subscription zero_wire_hook_subscription (enc_wire_hook_subscription x) = Inr x"
  by (simp add: codec dec_wire_hook_subscription_def enc_wire_hook_subscription_def zero_wire_hook_subscription_def)

lemma dec_enc_server_info: "dec_server_info zero_server_info (enc_server_info x) = Inr x"
  by (simp add: codec dec_server_info_def enc_server_info_def zero_server_info_def)

lemma dec_enc_rejected_external_tool: "dec_rejected_external_tool zero_rejected_external_tool (enc_rejected_external_tool x) = Inr x"
  by (simp add: codec dec_rejected_external_tool_def enc_rejected_external_tool_def zero_rejected_external_tool_def)

lemma dec_enc_server_capabilities: "dec_server_capabilities zero_server_capabilities (enc_server_capabilities x) = Inr x"
  by (simp add: codec dec_server_capabilities_def enc_server_capabilities_def zero_server_capabilities_def)

lemma dec_enc_prompt_result: "dec_prompt_result zero_prompt_result (enc_prompt_result x) = Inr x"
  by (simp add: codec dec_prompt_result_def enc_prompt_result_def zero_prompt_result_def)

lemma dec_enc_replay_result: "dec_replay_result zero_replay_result (enc_replay_result x) = Inr x"
  by (simp add: codec dec_replay_result_def enc_replay_result_def zero_replay_result_def)

lemma dec_enc_steer_result: "dec_steer_result zero_steer_result (enc_steer_result x) = Inr x"
  by (simp add: codec dec_steer_result_def enc_steer_result_def zero_steer_result_def)

lemma dec_enc_set_plan_mode_params: "dec_set_plan_mode_params zero_set_plan_mode_params (enc_set_plan_mode_params x) = Inr x"
  by (simp add: codec dec_set_plan_mode_params_def enc_set_plan_mode_params_def zero_set_plan_mode_params_def)

lemma dec_enc_set_plan_mode_result: "dec_set_plan_mode_result zero_set_plan_mode_result (enc_set_plan_mode_result x) = Inr x"
  by (simp add: codec dec_set_plan_mode_result_def enc_set_plan_mode_result_def zero_set_plan_mode_result_def)

lemma dec_enc_slash_command_info:
  "dec_slash_command_info zero_slash_command_info (enc_slash_command_info x) = Inr x"
  by (simp add: codec dec_slash_command_info_def enc_slash_command_info_def
      zero_slash_command_info_def dec_slice_enc)

lemma dec_enc_external_tools_result:
  "dec_external_tools_result zero_external_tools_result (enc_external_tools_result x) = Inr x"
  by (simp add: codec dec_external_tools_result_def enc_external_tools_result_def
      zero_external_tools_result_def dec_slice_enc dec_enc_rejected_external_tool)

definition norm_hooks_info :: "hooks_info \<Rightarrow> hooks_info" where
  "norm_hooks_info x = x\<lparr>hi_configured := map_option sort_map (hi_configured x)\<rparr>"

lemma dec_enc_hooks_info:
  "map_ok (hi_configured x) \<Longrightarrow>
    dec_hooks_info zero_hooks_info (enc_hooks_info x) = Inr (norm_hooks_info x)"
  by (simp add: codec dec_hooks_info_def enc_hooks_info_def zero_hooks_info_def dec_slice_enc
      dec_enc_map norm_hooks_info_def)

definition norm_initialize_result :: "initialize_result \<Rightarrow> initialize_result" where
  "norm_initialize_result x = x\<lparr>ir_hooks := map_option norm_hooks_info (ir_hooks x)\<rparr>"

lemma enc_method_nonnull [simp]:
  "enc_client_info a \<noteq> JNull" "enc_client_capabilities b \<noteq> JNull"
  "enc_external_tools_result c \<noteq> JNull" "enc_server_capabilities d \<noteq> JNull"
  "enc_hooks_info e \<noteq> JNull"
  by (simp_all add: enc_client_info_def enc_client_capabilities_def enc_external_tools_result_def
      enc_server_capabilities_def enc_hooks_info_def)

lemma opt_ptr_norm:
  "upd (\<lambda>_. None) s = s \<Longrightarrow> get s = None \<Longrightarrow>
    (\<And>v. p = Some v \<Longrightarrow> e v \<noteq> JNull) \<Longrightarrow> (\<And>v. p = Some v \<Longrightarrow> d z (e v) = Inr (f v)) \<Longrightarrow>
    opt_field (p = None) (Some (fld get upd (dec_ptr z d))) (e (the p)) s =
      Inr (upd (\<lambda>_. map_option f p) s)"
  by (cases p) (auto simp: opt_field_def fld_def dec_ptr_nonnull)

lemma dec_enc_initialize_result:
  assumes "\<And>h. ir_hooks x = Some h \<Longrightarrow> map_ok (hi_configured h)"
  shows "dec_initialize_result zero_initialize_result (enc_initialize_result x) =
    Inr (norm_initialize_result x)"
  using assms
  by (simp add: codec dec_initialize_result_def enc_initialize_result_def
      zero_initialize_result_def dec_slice_enc dec_enc_server_info dec_enc_slash_command_info
      dec_enc_external_tools_result dec_enc_server_capabilities
      opt_ptr_norm [where f = norm_hooks_info] dec_enc_hooks_info norm_initialize_result_def)

definition norm_external_tool :: "external_tool \<Rightarrow> external_tool" where
  "norm_external_tool t = t\<lparr>et_parameters := norm_raw (et_parameters t)\<rparr>"

lemma dec_enc_external_tool:
  "dec_external_tool zero_external_tool (enc_external_tool x) = Inr (norm_external_tool x)"
  by (simp add: codec dec_external_tool_def enc_external_tool_def zero_external_tool_def
      norm_external_tool_def norm_raw_def)

definition norm_initialize_params :: "initialize_params \<Rightarrow> initialize_params" where
  "norm_initialize_params x = x\<lparr>ip_external_tools := map norm_external_tool (ip_external_tools x)\<rparr>"

lemma opt_list_norm:
  "upd (\<lambda>_. []) s = s \<Longrightarrow> (\<And>x. x \<in> set xs \<Longrightarrow> d z (e x) = Inr (f x)) \<Longrightarrow>
    opt_field (xs = []) (Some (fld get upd (dec_list z d))) (JArr (map e xs)) s =
      Inr (upd (\<lambda>_. map f xs) s)"
  by (auto simp: opt_field_def fld_def traverse_map)

lemma dec_enc_initialize_params:
  "dec_initialize_params zero_initialize_params (enc_initialize_params x) =
    Inr (norm_initialize_params x)"
  by (simp add: codec dec_initialize_params_def enc_initialize_params_def
      zero_initialize_params_def dec_enc_client_info dec_enc_client_capabilities
      dec_enc_wire_hook_subscription opt_list_norm [where f = norm_external_tool]
      dec_enc_external_tool norm_initialize_params_def)

lemma dec_enc_prompt_params:
  "enc_prompt_params x = Inr j \<Longrightarrow> dec_prompt_params zero_prompt_params j =
    Inr (x\<lparr>pp_user_input := norm_user_input (pp_user_input x)\<rparr>)"
  by (auto simp: codec enc_prompt_params_def dec_prompt_params_def zero_prompt_params_def
      bind_res_eq_Inr dec_marshal_user_input)

lemma dec_enc_steer_params:
  "enc_steer_params x = Inr j \<Longrightarrow> dec_steer_params zero_steer_params j =
    Inr (x\<lparr>sm_user_input := norm_user_input (sm_user_input x)\<rparr>)"
  by (auto simp: codec enc_steer_params_def dec_steer_params_def zero_steer_params_def
      bind_res_eq_Inr dec_marshal_user_input)

section \<open>Properties\<close>

text \<open>The parameters of \<open>initialize\<close> written by the client are what the server decodes, and the
  result written by the server is what the client decodes, up to the normal form of raw tool
  parameters and of the order of the configured hooks.\<close>

lemma handshake_roundtrip:
  assumes "\<forall>h. ir_hooks r = Some h \<longrightarrow> map_ok (hi_configured h)"
  shows "dec_initialize_params zero_initialize_params (enc_initialize_params p) =
      Inr (norm_initialize_params p) \<and>
    dec_initialize_result zero_initialize_result (enc_initialize_result r) =
      Inr (norm_initialize_result r)"
  using assms by (simp add: dec_enc_initialize_params dec_enc_initialize_result)

end
