(* ===== verification/Messages.thy ===== *)
theory Messages
  imports Methods Go_Error
begin

text \<open>
  \<open>protocol/protocol_jsonrpc.go\<close> and \<open>message.go\<close>: the raw JSON-RPC message, the envelopes the two
  sides write, and \<open>ParseWireMessage\<close> with the \<open>MarshalJSON\<close> methods of its results.
\<close>

section \<open>JSON-RPC envelopes\<close>

record jsonrpc_error =
  je_code :: int
  je_message :: string
  je_data :: raw_json

definition zero_jsonrpc_error :: jsonrpc_error where
  "zero_jsonrpc_error = \<lparr>
     je_code = 0, je_message = [], je_data = None\<rparr>"

definition dec_jsonrpc_error :: "jsonrpc_error dec" where
  "dec_jsonrpc_error = dec_struct ''JSONRPCError'' [
     (''code'', fld je_code je_code_update dec_int),
     (''message'', fld je_message je_message_update dec_string),
     (''data'', fld je_data je_data_update dec_raw)]"

definition enc_jsonrpc_error :: "jsonrpc_error \<Rightarrow> json" where
  "enc_jsonrpc_error x = JObj (
     [(''code'', enc_int (je_code x)), (''message'', JStr (je_message x))] @
     o_raw ''data'' (je_data x))"

record raw_wire_message =
  rw_jsonrpc :: string
  rw_id :: string
  rw_method :: string
  rw_params :: raw_json
  rw_result :: raw_json
  rw_error :: "jsonrpc_error option"

definition zero_raw_wire_message :: raw_wire_message where
  "zero_raw_wire_message = \<lparr>
     rw_jsonrpc = [], rw_id = [], rw_method = [], rw_params = None, rw_result = None,
     rw_error = None\<rparr>"

definition dec_raw_wire_message :: "raw_wire_message dec" where
  "dec_raw_wire_message = dec_struct ''RawWireMessage'' [
     (''jsonrpc'', fld rw_jsonrpc rw_jsonrpc_update dec_string),
     (''id'', fld rw_id rw_id_update dec_string),
     (''method'', fld rw_method rw_method_update dec_string),
     (''params'', fld rw_params rw_params_update dec_raw),
     (''result'', fld rw_result rw_result_update dec_raw),
     (''error'', fld rw_error rw_error_update (dec_ptr zero_jsonrpc_error dec_jsonrpc_error))]"

definition enc_raw_wire_message :: "raw_wire_message \<Rightarrow> json" where
  "enc_raw_wire_message x = JObj (
     [(''jsonrpc'', JStr (rw_jsonrpc x))] @ o_str ''id'' (rw_id x) @
     o_str ''method'' (rw_method x) @ o_raw ''params'' (rw_params x) @
     o_raw ''result'' (rw_result x) @ o_ptr ''error'' enc_jsonrpc_error (rw_error x))"

definition MethodNotFound :: int where
  "MethodNotFound = -32601"

text \<open>
  \<open>JSONRPCRequest\<close>, \<open>JSONRPCSuccessResponse\<close>, \<open>JSONRPCErrorResponse\<close> and the server's
  \<open>jsonrpcNotification\<close>, written with the version the code always gives.
\<close>

definition rpc_request :: "string \<Rightarrow> string \<Rightarrow> json \<Rightarrow> json" where
  "rpc_request mth i params = JObj [(''jsonrpc'', JStr ''2.0''), (''method'', JStr mth),
     (''id'', JStr i), (''params'', params)]"

definition rpc_success :: "string \<Rightarrow> json \<Rightarrow> json" where
  "rpc_success i result = JObj [(''jsonrpc'', JStr ''2.0''), (''id'', JStr i), (''result'', result)]"

definition rpc_error :: "string \<Rightarrow> jsonrpc_error \<Rightarrow> json" where
  "rpc_error i err = JObj [(''jsonrpc'', JStr ''2.0''), (''id'', JStr i),
     (''error'', enc_jsonrpc_error err)]"

definition rpc_notification :: "string \<Rightarrow> json \<Rightarrow> json" where
  "rpc_notification mth params = JObj [(''jsonrpc'', JStr ''2.0''), (''method'', JStr mth),
     (''params'', params)]"

text \<open>\<open>json.Unmarshal([]byte(line), &raw)\<close>.\<close>

definition parse_line :: "line \<Rightarrow> derr + raw_wire_message" where
  "parse_line l = bind_res l (dec_raw_wire_message zero_raw_wire_message)"

section \<open>Typed messages\<close>

datatype wire_message =
    EventMessage string string event                         \<comment> \<open>jsonrpc, method, params\<close>
  | RequestMessage string string string request              \<comment> \<open>jsonrpc, method, id, params\<close>
  | SuccessResponseMessage string string raw_json            \<comment> \<open>jsonrpc, id, result\<close>
  | ErrorResponseMessage string string jsonrpc_error         \<comment> \<open>jsonrpc, id, error\<close>

definition marshal_event_message :: "string \<Rightarrow> string \<Rightarrow> event \<Rightarrow> derr + json" where
  "marshal_event_message v mth e = bind_res (MarshalEvent (Some e)) (\<lambda>payload.
     Inr (JObj [(''jsonrpc'', JStr v), (''method'', JStr mth), (''params'', payload)]))"

definition marshal_request_message :: "string \<Rightarrow> string \<Rightarrow> string \<Rightarrow> request \<Rightarrow> derr + json" where
  "marshal_request_message v mth i r = bind_res (MarshalRequest (Some r)) (\<lambda>payload.
     Inr (JObj [(''jsonrpc'', JStr v), (''method'', JStr mth), (''id'', JStr i),
                (''params'', payload)]))"

definition ParseWireMessage :: "raw_wire_message \<Rightarrow> go_error + wire_message" where
  "ParseWireMessage raw =
     (if rw_jsonrpc raw \<noteq> ''2.0'' then
        Inl (WireError ErrJSONParse ''invalid jsonrpc version'' None 0)
      else if rw_method raw \<noteq> [] then
        (if rw_method raw = ''request'' then
           (case ParseRequest (rw_params raw) of
              Inl err \<Rightarrow> Inl (WireError ErrJSONParse (derr_text err) None 0)
            | Inr req \<Rightarrow> Inr (RequestMessage (rw_jsonrpc raw) (rw_method raw) (rw_id raw) req))
         else if rw_method raw = ''event'' then
           (case ParseEvent (rw_params raw) of
              Inl err \<Rightarrow> Inl (WireError ErrJSONParse (derr_text err) None 0)
            | Inr ev \<Rightarrow> Inr (EventMessage (rw_jsonrpc raw) (rw_method raw) ev))
         else Inl (WireError ErrUnknownMessageType (rw_method raw) None 0))
      else (case rw_error raw of
        Some err \<Rightarrow> Inr (ErrorResponseMessage (rw_jsonrpc raw) (rw_id raw) err)
      | None \<Rightarrow>
          (if rw_result raw \<noteq> None
           then Inr (SuccessResponseMessage (rw_jsonrpc raw) (rw_id raw) (rw_result raw))
           else Inl (WireError ErrUnknownMessageType ''unrecognized wire message shape'' None 0))))"

section \<open>Round trips\<close>

definition code_ok :: "jsonrpc_error \<Rightarrow> bool" where
  "code_ok e \<longleftrightarrow> - (2 ^ 63) \<le> je_code e \<and> je_code e < 2 ^ 63"

lemma dec_enc_jsonrpc_error:
  "code_ok e \<Longrightarrow> dec_jsonrpc_error zero_jsonrpc_error (enc_jsonrpc_error e) = Inr e"
  by (simp add: codec dec_jsonrpc_error_def enc_jsonrpc_error_def zero_jsonrpc_error_def code_ok_def)

lemma enc_jsonrpc_error_nonnull [simp]: "enc_jsonrpc_error e \<noteq> JNull"
  by (simp add: enc_jsonrpc_error_def)

lemma dec_enc_raw_wire_message:
  assumes "\<And>e. rw_error r = Some e \<Longrightarrow> code_ok e"
  shows "dec_raw_wire_message zero_raw_wire_message (enc_raw_wire_message r) = Inr r"
  using assms
  by (simp add: codec dec_raw_wire_message_def enc_raw_wire_message_def
      zero_raw_wire_message_def dec_enc_jsonrpc_error)

lemmas raw_defs = dec_raw_wire_message_def zero_raw_wire_message_def parse_line_def

lemma parse_rpc_request:
  "parse_line (Inr (rpc_request mth i p)) =
    Inr \<lparr>rw_jsonrpc = ''2.0'', rw_id = i, rw_method = mth, rw_params = Some p, rw_result = None,
         rw_error = None\<rparr>"
  by (simp add: codec raw_defs rpc_request_def)

lemma parse_rpc_success:
  "parse_line (Inr (rpc_success i r)) =
    Inr \<lparr>rw_jsonrpc = ''2.0'', rw_id = i, rw_method = [], rw_params = None, rw_result = Some r,
         rw_error = None\<rparr>"
  by (simp add: codec raw_defs rpc_success_def)

lemma parse_rpc_error:
  "code_ok e \<Longrightarrow> parse_line (Inr (rpc_error i e)) =
    Inr \<lparr>rw_jsonrpc = ''2.0'', rw_id = i, rw_method = [], rw_params = None, rw_result = None,
         rw_error = Some e\<rparr>"
  by (simp add: codec raw_defs rpc_error_def dec_ptr_nonnull dec_enc_jsonrpc_error)

lemma parse_rpc_notification:
  "parse_line (Inr (rpc_notification mth p)) =
    Inr \<lparr>rw_jsonrpc = ''2.0'', rw_id = [], rw_method = mth, rw_params = Some p, rw_result = None,
         rw_error = None\<rparr>"
  by (simp add: codec raw_defs rpc_notification_def)

lemmas parse_rpc = parse_rpc_request parse_rpc_success parse_rpc_error parse_rpc_notification

text \<open>What the server writes for an event or a request is what \<open>ParseWireMessage\<close> reads.\<close>

lemma event_over_wire:
  assumes "MarshalEvent (Some e) = Inr p"
  shows "bind_res (map_sum DecErr id (parse_line (Inr (rpc_notification ''event'' p)))) ParseWireMessage =
    Inr (EventMessage ''2.0'' ''event'' (norm_event e))"
  by (simp add: parse_rpc ParseWireMessage_def ParseEvent_MarshalEvent [OF assms])

lemma request_over_wire:
  assumes "MarshalRequest (Some r) = Inr p"
  shows "bind_res (map_sum DecErr id (parse_line (Inr (rpc_request ''request'' i p)))) ParseWireMessage =
    Inr (RequestMessage ''2.0'' ''request'' i (norm_request r))"
  by (simp add: parse_rpc ParseWireMessage_def ParseRequest_MarshalRequest [OF assms])

lemma ParseWireMessage_total_on_2_0:
  "ParseWireMessage raw = Inr m \<Longrightarrow> rw_jsonrpc raw = ''2.0''"
  by (auto simp: ParseWireMessage_def split: if_splits)

lemma ParseWireMessage_unknown_method:
  "rw_jsonrpc raw = ''2.0'' \<Longrightarrow> rw_method raw \<noteq> [] \<Longrightarrow> rw_method raw \<noteq> ''request'' \<Longrightarrow>
    rw_method raw \<noteq> ''event'' \<Longrightarrow>
    ParseWireMessage raw = Inl (WireError ErrUnknownMessageType (rw_method raw) None 0)"
  by (simp add: ParseWireMessage_def)

section \<open>Properties\<close>

text \<open>The notification the server writes for an event and the request line it writes for a
  request are read by the client's \<open>ParseWireMessage\<close> as that event and that request, in normal
  form, with the id that was written.\<close>

theorem wire_messages_read_back:
  assumes "MarshalEvent (Some e) = Inr p" and "MarshalRequest (Some r) = Inr q"
  shows "bind_res (map_sum DecErr id (parse_line (Inr (rpc_notification ''event'' p)))) ParseWireMessage =
      Inr (EventMessage ''2.0'' ''event'' (norm_event e)) \<and>
    bind_res (map_sum DecErr id (parse_line (Inr (rpc_request ''request'' i q)))) ParseWireMessage =
      Inr (RequestMessage ''2.0'' ''request'' i (norm_request r))"
  using event_over_wire [OF assms(1)] request_over_wire [OF assms(2)] by simp

theorem wire_messages_read_back_witness:
  "bind_res (map_sum DecErr id (parse_line (Inr (rpc_notification ''event''
      (JObj [(''type'', JStr ''TurnEnd''), (''payload'', JObj [])]))))) ParseWireMessage =
    Inr (EventMessage ''2.0'' ''event'' TurnEndEvent)"
  using wire_messages_read_back [of TurnEndEvent
      "JObj [(''type'', JStr ''TurnEnd''), (''payload'', JObj [])]"
      "ToolCallRequest zero_tool_call_request" _ "''srv-1''"]
  by (simp add: MarshalEvent_def MarshalRequest_def)

text \<open>A raw message survives encoding and decoding whole, provided the code of its error, if it
  has one, is a 64-bit integer.\<close>

theorem raw_message_roundtrip:
  assumes "\<forall>e. rw_error r = Some e \<longrightarrow> code_ok e"
  shows "parse_line (Inr (enc_raw_wire_message r)) = Inr r"
  using assms by (simp add: parse_line_def dec_enc_raw_wire_message)

theorem raw_message_roundtrip_witness:
  "parse_line (Inr (enc_raw_wire_message (zero_raw_wire_message\<lparr>rw_jsonrpc := ''2.0'',
      rw_id := ''7'', rw_error := Some \<lparr>je_code = -32601, je_message = ''m'', je_data = None\<rparr>\<rparr>))) =
    Inr (zero_raw_wire_message\<lparr>rw_jsonrpc := ''2.0'', rw_id := ''7'',
      rw_error := Some \<lparr>je_code = -32601, je_message = ''m'', je_data = None\<rparr>\<rparr>)"
  by (rule raw_message_roundtrip) (simp add: code_ok_def)

end
