(* ===== verification/Client.thy ===== *)
theory Client
  imports Methods Messages Redact Transports
begin

text \<open>
  \<open>client.go\<close> and \<open>dispatch.go\<close>: the client's state, its reader goroutine, the calls of its methods and
  \<open>Dispatch\<close>, as state machines over the shared \<open>client\<close> record. Each step is atomic: a section under
  the mutex, a channel operation, a read or a write, or a call of the handler. A response channel is
  an index into \<open>cl_chans\<close>, kept with the id it was made for; a channel of capacity 1 is an option.
  \<open>cl_written\<close> records the lines handed to the transport and their results, and is read by no step.
\<close>

section \<open>State\<close>

record 't client =
  cl_transport :: 't
  cl_writer :: "'t line_writer"
  cl_counter :: u64
  cl_timeout :: int                          \<comment> \<open>\<open>defaultTimeout\<close>, nanoseconds\<close>
  cl_pending :: "(string \<times> nat) list"
  cl_ooo :: "raw_wire_message list"          \<comment> \<open>\<open>oooBuffer\<close>\<close>
  cl_chans :: "(string \<times> raw_wire_message option) list"
  cl_handshake :: bool
  cl_reader_done :: bool
  cl_dispatch :: "raw_wire_message list"
  cl_dispatch_closed :: bool
  cl_stop :: bool                            \<comment> \<open>\<open>stopCh\<close> is closed\<close>
  cl_written :: "(line \<times> go_error option) list"

definition NewClient :: "'t \<Rightarrow> 't line_writer \<Rightarrow> 't client" where
  "NewClient t w = \<lparr>cl_transport = t, cl_writer = w, cl_counter = 0, cl_timeout = 0, cl_pending = [],
     cl_ooo = [], cl_chans = [], cl_handshake = False, cl_reader_done = False, cl_dispatch = [],
     cl_dispatch_closed = False, cl_stop = False, cl_written = []\<rparr>"

definition WithDefaultTimeout :: "int \<Rightarrow> 't client \<Rightarrow> 't client" where
  "WithDefaultTimeout d s = s\<lparr>cl_timeout := d\<rparr>"

definition IsHandshakeDone :: "'t client \<Rightarrow> bool" where
  "IsHandshakeDone s = cl_handshake s"

definition nextID :: "'t client \<Rightarrow> string \<times> 't client" where
  "nextID s = (let c = cl_counter s + 1 in (''req-'' @ show_nat (unat c), s\<lparr>cl_counter := c\<rparr>))"

section \<open>Writing\<close>

definition client_write :: "go_error option \<Rightarrow> json \<Rightarrow> 't client \<Rightarrow> go_error option \<times> 't client" where
  "client_write ctx j s = (case cl_writer s ctx (Inr j) (cl_transport s) of
     (e, t) \<Rightarrow> (e, s\<lparr>cl_transport := t, cl_written := cl_written s @ [(Inr j, e)]\<rparr>))"

definition client_writeMessage :: "go_error option \<Rightarrow> derr + json \<Rightarrow> 't client \<Rightarrow> go_error option \<times> 't client" where
  "client_writeMessage ctx msg s = (case msg of
     Inl err \<Rightarrow> (Some (WireError ErrJSONSerialize (derr_text err) (Some (DecErr err)) 0), s)
   | Inr j \<Rightarrow> client_write ctx j s)"

definition SendRaw :: "go_error option \<Rightarrow> raw_wire_message option \<Rightarrow> 't client \<Rightarrow> go_error option \<times> 't client" where
  "SendRaw ctx raw s = (case raw of
     None \<Rightarrow> (Some (WireError ErrInternal ''nil raw message'' None 0), s)
   | Some r \<Rightarrow> client_writeMessage ctx (Inr (enc_raw_wire_message r)) s)"

definition SendResponse :: "go_error option \<Rightarrow> string \<Rightarrow> derr + json \<Rightarrow> 't client \<Rightarrow> go_error option \<times> 't client" where
  "SendResponse ctx i result s = client_writeMessage ctx (map_res (rpc_success i) result) s"

definition SendError :: "go_error option \<Rightarrow> string \<Rightarrow> int \<Rightarrow> string \<Rightarrow> 't client \<Rightarrow> go_error option \<times> 't client" where
  "SendError ctx i code msg s = client_writeMessage ctx (Inr (rpc_error i
     \<lparr>je_code = code, je_message = RedactString msg, je_data = None\<rparr>)) s"

text \<open>\<open>ReadRawMessage\<close>, given what the transport's \<open>ReadLine\<close> returns.\<close>

definition ReadRawMessage :: "go_error + line \<Rightarrow> go_error + raw_wire_message" where
  "ReadRawMessage input = bind_res input (\<lambda>l. case parse_line l of
     Inl err \<Rightarrow> Inl (WireError ErrJSONParse (derr_text err) (Some (DecErr err)) 0)
   | Inr raw \<Rightarrow> Inr raw)"

section \<open>Calls\<close>

datatype client_call =
    CallInitialize initialize_params
  | CallPrompt user_input
  | CallReplay
  | CallSteer user_input
  | CallSetPlanMode bool
  | CallCancel

datatype client_reply =
    InitializeReply initialize_result
  | PromptReply prompt_result
  | ReplayReply replay_result
  | SteerReply steer_result
  | SetPlanModeReply set_plan_mode_result
  | CancelReply

text \<open>The request that a call writes: its method and its parameters, \<open>ReplayParams\<close> and \<open>CancelParams\<close>
  being empty structs.\<close>

fun call_method :: "client_call \<Rightarrow> string" where
  "call_method (CallInitialize p) = ''initialize''"
| "call_method (CallPrompt input) = ''prompt''"
| "call_method CallReplay = ''replay''"
| "call_method (CallSteer input) = ''steer''"
| "call_method (CallSetPlanMode b) = ''set_plan_mode''"
| "call_method CallCancel = ''cancel''"

fun call_params :: "client_call \<Rightarrow> derr + json" where
  "call_params (CallInitialize p) = Inr (enc_initialize_params p)"
| "call_params (CallPrompt input) = enc_prompt_params \<lparr>pp_user_input = input\<rparr>"
| "call_params CallReplay = Inr (JObj [])"
| "call_params (CallSteer input) = enc_steer_params \<lparr>sm_user_input = input\<rparr>"
| "call_params (CallSetPlanMode b) = Inr (enc_set_plan_mode_params \<lparr>mp_enabled = b\<rparr>)"
| "call_params CallCancel = Inr (JObj [])"

definition call_request :: "client_call \<Rightarrow> string \<Rightarrow> derr + json" where
  "call_request call i = map_res (rpc_request (call_method call) i) (call_params call)"

definition decodeResponse :: "'a dec \<Rightarrow> 'a \<Rightarrow> raw_wire_message \<Rightarrow> go_error + 'a" where
  "decodeResponse d z msg = (case rw_error msg of
     Some e \<Rightarrow> Inl (WireError ErrRequestFailed (RedactString (je_message e)) None (je_code e))
   | None \<Rightarrow>
       if rw_result msg = None then Inl (WireError ErrInternal ''response missing result'' None 0)
       else (case unmarshal d z (rw_result msg) of
               Inl err \<Rightarrow> Inl (WireError ErrJSONParse (derr_text err) (Some (DecErr err)) 0)
             | Inr x \<Rightarrow> Inr x))"

text \<open>The result decoded as the type of the call; \<open>CancelResult\<close> is an empty struct.\<close>

fun decode_reply_to :: "client_call \<Rightarrow> raw_wire_message \<Rightarrow> go_error + client_reply" where
  "decode_reply_to (CallInitialize p) msg =
     map_res InitializeReply (decodeResponse dec_initialize_result zero_initialize_result msg)"
| "decode_reply_to (CallPrompt input) msg =
     map_res PromptReply (decodeResponse dec_prompt_result zero_prompt_result msg)"
| "decode_reply_to CallReplay msg =
     map_res ReplayReply (decodeResponse dec_replay_result zero_replay_result msg)"
| "decode_reply_to (CallSteer input) msg =
     map_res SteerReply (decodeResponse dec_steer_result zero_steer_result msg)"
| "decode_reply_to (CallSetPlanMode b) msg =
     map_res SetPlanModeReply (decodeResponse dec_set_plan_mode_result zero_set_plan_mode_result msg)"
| "decode_reply_to CallCancel msg =
     map_res (\<lambda>_. CancelReply) (decodeResponse (dec_struct ''CancelResult'' []) () msg)"

definition legacy_result :: initialize_result where
  "legacy_result = zero_initialize_result\<lparr>ir_protocol_version := WireProtocolLegacyVersion,
     ir_server := \<lparr>sv_name = ''unknown'', sv_version = ''unknown''\<rparr>, ir_slash_commands := Some []\<rparr>"

text \<open>The end of a method: only \<open>Initialize\<close> does more than return the result or the error.\<close>

fun finish_call :: "client_call \<Rightarrow> go_error + client_reply \<Rightarrow> 't client \<Rightarrow> (go_error + client_reply) \<times> 't client" where
  "finish_call (CallInitialize p) r s = (case r of
     Inr x \<Rightarrow> (Inr x, s\<lparr>cl_handshake := True\<rparr>)
   | Inl err \<Rightarrow>
       if as_wire err = Some (ErrRequestFailed, MethodNotFound)
       then (Inr (InitializeReply legacy_result), s\<lparr>cl_handshake := True\<rparr>)
       else (Inl err, s))"
| "finish_call call r s = (r, s)"

text \<open>
  Where a call is: before \<open>nextID\<close>; before the write; before \<open>readResponse\<close> looks at the buffer; in
  its \<open>select\<close>; in its deferred clean-up; returned.
\<close>

datatype call_pc =
    CcStart client_call
  | CcWrite client_call string
  | CcRead client_call string
  | CcWait client_call string nat
  | CcClean client_call string nat "go_error + client_reply"
  | CcDone "go_error + client_reply"

text \<open>The first buffered message with an id, and the buffer without it.\<close>

fun take_ooo :: "string \<Rightarrow> raw_wire_message list \<Rightarrow> (raw_wire_message \<times> raw_wire_message list) option" where
  "take_ooo i [] = None"
| "take_ooo i (m # ms) =
     (if rw_id m = i then Some (m, ms) else map_option (\<lambda>(x, xs). (x, m # xs)) (take_ooo i ms))"

definition close_chan :: "nat \<Rightarrow> 't client \<Rightarrow> 't client" where
  "close_chan q s = s\<lparr>cl_chans := (cl_chans s)[q := (fst (cl_chans s ! q), None)]\<rparr>"

fun call_step :: "nat \<Rightarrow> go_error option \<Rightarrow> call_pc \<Rightarrow> 't client \<Rightarrow> ('t client \<times> call_pc) option" where
  "call_step pick ctx (CcStart call) s = (case nextID s of (i, s1) \<Rightarrow> Some (s1, CcWrite call i))"
| "call_step pick ctx (CcWrite call i) s =
     (case client_writeMessage ctx (call_request call i) s of
        (None, s1) \<Rightarrow> Some (s1, CcRead call i)
      | (Some e, s1) \<Rightarrow> Some (s1, CcDone (Inl e)))"
| "call_step pick ctx (CcRead call i) s = (case take_ooo i (cl_ooo s) of
     Some (msg, rest) \<Rightarrow> (case finish_call call (decode_reply_to call msg) (s\<lparr>cl_ooo := rest\<rparr>) of
        (r, s1) \<Rightarrow> Some (s1, CcDone r))
   | None \<Rightarrow> (let q = length (cl_chans s) in
        Some (s\<lparr>cl_chans := cl_chans s @ [(i, None)], cl_pending := AList.update i q (cl_pending s)\<rparr>,
          CcWait call i q)))"
| "call_step pick ctx (CcWait call i q) s = go_select pick
     [map_option (\<lambda>msg. (close_chan q s, CcClean call i q (decode_reply_to call msg))) (snd (cl_chans s ! q)),
      map_option (\<lambda>e. (s, CcClean call i q (Inl (WireError ErrTimeout (error_text e) (Some e) 0)))) ctx]"
| "call_step pick ctx (CcClean call i q r) s =
     (case finish_call call r ((close_chan q s)\<lparr>cl_pending := AList.delete i (cl_pending s)\<rparr>) of
        (r', s1) \<Rightarrow> Some (s1, CcDone r'))"
| "call_step pick ctx (CcDone r) s = None"

section \<open>The reader\<close>

definition client_closePending :: "go_error \<Rightarrow> 't client \<Rightarrow> 't client" where
  "client_closePending err s = s\<lparr>cl_pending := [],
     cl_chans := foldl (\<lambda>cs (i, q). if snd (cs ! q) = None then cs[q := (fst (cs ! q), Some
         (zero_raw_wire_message\<lparr>rw_error :=
            Some \<lparr>je_code = -1, je_message = RedactString (error_text err), je_data = None\<rparr>\<rparr>))] else cs)
       (cl_chans s) (cl_pending s)\<rparr>"

text \<open>
  The reader: reading; sending an event or request to \<open>dispatchCh\<close>; sending a response to its channel;
  before \<open>closePending\<close>; before \<open>close(dispatchCh)\<close>, before \<open>close(readerDone)\<close>; gone.
\<close>

datatype creader_pc =
    CrRead
  | CrDispatch raw_wire_message
  | CrSend nat raw_wire_message
  | CrClose go_error
  | CrEnd
  | CrLast
  | CrGone

fun client_reader_step :: "nat \<Rightarrow> go_error + line \<Rightarrow> creader_pc \<Rightarrow> 't client \<Rightarrow> ('t client \<times> creader_pc) option" where
  "client_reader_step pick input CrRead s = (case input of
     Inl err \<Rightarrow> Some (s, CrClose err)
   | Inr l \<Rightarrow> (case parse_line l of
       Inl err \<Rightarrow> Some (s, CrClose (WireError ErrJSONParse (derr_text err) (Some (DecErr err)) 0))
     | Inr raw \<Rightarrow>
         if rw_method raw \<noteq> [] then
           Some (s, if rw_method raw = ''event'' \<or> rw_method raw = ''request'' then CrDispatch raw else CrRead)
         else (case map_of (cl_pending s) (rw_id raw) of
             Some q \<Rightarrow> Some (s, CrSend q raw)
           | None \<Rightarrow> Some (s\<lparr>cl_ooo := cl_ooo s @ [raw]\<rparr>, CrRead))))"
| "client_reader_step pick input (CrDispatch raw) s = go_select pick
     [if length (cl_dispatch s) < 1024 then Some (s\<lparr>cl_dispatch := cl_dispatch s @ [raw]\<rparr>, CrRead) else None,
      if cl_stop s then Some (s, CrEnd) else None]"
| "client_reader_step pick input (CrSend q raw) s = go_select pick
     [if snd (cl_chans s ! q) = None
      then Some (s\<lparr>cl_chans := (cl_chans s)[q := (fst (cl_chans s ! q), Some raw)]\<rparr>, CrRead) else None,
      if cl_stop s then Some (s, CrEnd) else None]"
| "client_reader_step pick input (CrClose err) s = Some (client_closePending err s, CrEnd)"
| "client_reader_step pick input CrEnd s = Some (s\<lparr>cl_dispatch_closed := True\<rparr>, CrLast)"
| "client_reader_step pick input CrLast s = Some (s\<lparr>cl_reader_done := True\<rparr>, CrGone)"
| "client_reader_step pick input CrGone s = None"

section \<open>Dispatch\<close>

text \<open>The handler: the error of \<open>HandleEvent\<close>, and the error or the result of \<open>HandleRequest\<close>, which may fail to
  marshal.\<close>

record handler =
  HandleEvent :: "event \<Rightarrow> go_error option"
  HandleRequest :: "request \<Rightarrow> go_error + (derr + json)"

datatype dispatch_pc = DpWait | DpHandle raw_wire_message | DpDone "go_error option"

definition after_send :: "go_error option \<times> 't client \<Rightarrow> 't client \<times> dispatch_pc" where
  "after_send r = (case r of (None, s) \<Rightarrow> (s, DpWait) | (Some e, s) \<Rightarrow> (s, DpDone (Some e)))"

fun dispatch_step :: "handler \<Rightarrow> nat \<Rightarrow> go_error option \<Rightarrow> dispatch_pc \<Rightarrow> 't client \<Rightarrow>
    ('t client \<times> dispatch_pc) option" where
  "dispatch_step h pick ctx DpWait s = go_select pick
     [map_option (\<lambda>e. (s, DpDone (Some e))) ctx,
      case cl_dispatch s of
        raw # rest \<Rightarrow> Some (s\<lparr>cl_dispatch := rest\<rparr>, DpHandle raw)
      | [] \<Rightarrow> if cl_dispatch_closed s then Some (s, DpDone None) else None]"
| "dispatch_step h pick ctx (DpHandle raw) s = Some (case ParseWireMessage raw of
     Inl err \<Rightarrow> (s, DpWait)
   | Inr (EventMessage v mth ev) \<Rightarrow> (case HandleEvent h ev of
        Some err \<Rightarrow> (s, DpDone (Some err)) | None \<Rightarrow> (s, DpWait))
   | Inr (RequestMessage v mth i req) \<Rightarrow> (case HandleRequest h req of
        Inl err \<Rightarrow> after_send (SendError ctx i (-32603) (RedactString (error_text err)) s)
      | Inr resp \<Rightarrow> after_send (SendResponse ctx i resp s))
   | Inr _ \<Rightarrow> (s, DpWait))"
| "dispatch_step h pick ctx (DpDone r) s = None"

section \<open>Shutdown\<close>

text \<open>Its first part, with the transport's \<open>Close\<close>, and what it returns, given the error of \<open>Close\<close>, after its
  \<open>select\<close>.\<close>

definition Shutdown_start :: "('t \<Rightarrow> go_error option \<times> 't) \<Rightarrow> 't client \<Rightarrow> go_error option \<times> 't client" where
  "Shutdown_start close s = (case close (cl_transport s) of (e, t) \<Rightarrow> (e, s\<lparr>cl_stop := True, cl_transport := t\<rparr>))"

definition Shutdown_end :: "nat \<Rightarrow> go_error option \<Rightarrow> go_error option \<Rightarrow> 't client \<Rightarrow> go_error option option" where
  "Shutdown_end pick ctx close_err s = go_select pick
     [if cl_reader_done s then Some close_err else None,
      map_option (\<lambda>e. case close_err of
         Some c \<Rightarrow> Some (WireError ErrTimeout (''shutdown: '' @ error_text c @ '' (context: '' @ error_text e @ '')'') (Some e) 0)
       | None \<Rightarrow> Some e) ctx]"

end
