(* ===== verification/Client_Runs.thy ===== *)
theory Client_Runs
  imports Client
begin

text \<open>
  The running client: its reader, any number of calls of its methods and a \<open>Dispatch\<close> as goroutines
  over one client, every schedule of their steps, and the invariants of all reachable states: what is
  in the table of pending calls and in their channels, the ids of the calls, and the events and
  requests on their way to \<open>Dispatch\<close>.
\<close>

section \<open>The system\<close>

text \<open>
  Kept to state properties, and read by no step: \<open>seen\<close>, the events and requests that the reader has
  read, \<open>handled\<close>, those that \<open>Dispatch\<close> has taken, \<open>dropped\<close>, those that the reader still held when the
  client was stopped.
\<close>

record 't csys =
  cl :: "'t client"
  cr :: creader_pc
  cc :: "call_pc list"
  cd :: dispatch_pc
  seen :: "raw_wire_message list"
  handled :: "raw_wire_message list"
  dropped :: "raw_wire_message list"

record 't cchoice =
  cx_pick :: nat                          \<comment> \<open>the case of a \<open>select\<close>\<close>
  cx_ctx :: "go_error option"             \<comment> \<open>the error of the caller's context, with its limit\<close>
  cx_input :: "go_error + line"           \<comment> \<open>what \<open>ReadLine\<close> returns\<close>
  cx_call :: client_call
  cx_peer :: "'t \<Rightarrow> 't"                   \<comment> \<open>what others do to the transport\<close>

text \<open>Who takes the next step: \<open>CNew\<close> calls a method in a new goroutine, \<open>CAgain\<close> calls \<open>Dispatch\<close> again after
  it returned, \<open>CShutdown\<close> begins \<open>Shutdown\<close>, \<open>CPeer\<close> is the other side of the transport.\<close>

datatype cactor = CReader | CNew | CCall nat | CDispatch | CAgain | CShutdown | CPeer

definition in_hand :: "creader_pc \<Rightarrow> raw_wire_message list" where
  "in_hand pc = (case pc of CrDispatch raw \<Rightarrow> [raw] | _ \<Rightarrow> [])"

definition taken_by :: "dispatch_pc \<Rightarrow> raw_wire_message list" where
  "taken_by pc = (case pc of DpHandle raw \<Rightarrow> [raw] | _ \<Rightarrow> [])"

fun cactor_step :: "handler \<Rightarrow> cactor \<Rightarrow> 't cchoice \<Rightarrow> 't csys \<Rightarrow> 't csys option" where
  "cactor_step h CReader c y = map_option (\<lambda>(s, pc). y\<lparr>cl := s, cr := pc,
       seen := seen y @ in_hand pc, dropped := dropped y @ (if pc = CrEnd then in_hand (cr y) else [])\<rparr>)
     (client_reader_step (cx_pick c) (cx_input c) (cr y) (cl y))"
| "cactor_step h CNew c y = Some (y\<lparr>cc := cc y @ [CcStart (cx_call c)]\<rparr>)"
| "cactor_step h (CCall k) c y =
     (if k < length (cc y) then map_option (\<lambda>(s, pc). y\<lparr>cl := s, cc := (cc y)[k := pc]\<rparr>)
        (call_step (cx_pick c) (cx_ctx c) (cc y ! k) (cl y))
      else None)"
| "cactor_step h CDispatch c y = map_option (\<lambda>(s, pc). y\<lparr>cl := s, cd := pc, handled := handled y @ taken_by pc\<rparr>)
     (dispatch_step h (cx_pick c) (cx_ctx c) (cd y) (cl y))"
| "cactor_step h CAgain c y = (case cd y of DpDone e \<Rightarrow> Some (y\<lparr>cd := DpWait\<rparr>) | _ \<Rightarrow> None)"
| "cactor_step h CShutdown c y =
     Some (y\<lparr>cl := (cl y)\<lparr>cl_stop := True, cl_transport := cx_peer c (cl_transport (cl y))\<rparr>\<rparr>)"
| "cactor_step h CPeer c y = Some (y\<lparr>cl := (cl y)\<lparr>cl_transport := cx_peer c (cl_transport (cl y))\<rparr>\<rparr>)"

definition client_start :: "'t client \<Rightarrow> 't csys" where
  "client_start s = \<lparr>cl = s, cr = CrRead, cc = [], cd = DpWait, seen = [], handled = [], dropped = []\<rparr>"

inductive creachable :: "handler \<Rightarrow> 't csys \<Rightarrow> bool" for h where
  cstart: "creachable h (client_start (WithDefaultTimeout d (NewClient t w)))"
| cstep: "creachable h y \<Longrightarrow> cactor_step h a c y = Some y' \<Longrightarrow> creachable h y'"

fun cplay :: "handler \<Rightarrow> (cactor \<times> 't cchoice) list \<Rightarrow> 't csys \<Rightarrow> 't csys option" where
  "cplay h [] y = Some y"
| "cplay h ((a, c) # sched) y = (case cactor_step h a c y of None \<Rightarrow> None | Some y' \<Rightarrow> cplay h sched y')"

lemma creachable_cplay: "creachable h y \<Longrightarrow> cplay h sched y = Some y' \<Longrightarrow> creachable h y'"
  by (induction h sched y rule: cplay.induct) (auto split: option.splits intro: creachable.cstep)

section \<open>Steps that leave the table alone\<close>

definition same_calls :: "'t client \<Rightarrow> 't client \<Rightarrow> bool" where
  "same_calls s s' \<longleftrightarrow> cl_pending s' = cl_pending s \<and> cl_chans s' = cl_chans s \<and> cl_ooo s' = cl_ooo s \<and>
     cl_counter s' = cl_counter s"

lemma same_calls_refl [simp]: "same_calls s s"
  by (simp add: same_calls_def)

lemma same_calls_update [simp]:
  "same_calls s (s'\<lparr>cl_dispatch := a\<rparr>) = same_calls s s'" "same_calls s (s'\<lparr>cl_dispatch_closed := b\<rparr>) = same_calls s s'"
  "same_calls s (s'\<lparr>cl_reader_done := c\<rparr>) = same_calls s s'" "same_calls s (s'\<lparr>cl_stop := d\<rparr>) = same_calls s s'"
  "same_calls s (s'\<lparr>cl_transport := e\<rparr>) = same_calls s s'" "same_calls s (s'\<lparr>cl_written := f\<rparr>) = same_calls s s'"
  "same_calls s (s'\<lparr>cl_handshake := g\<rparr>) = same_calls s s'"
  by (simp_all add: same_calls_def)

lemma same_calls_write: "client_writeMessage ctx msg s = (e, s') \<Longrightarrow> same_calls s s'"
  by (auto simp: client_writeMessage_def client_write_def split: sum.splits prod.splits)

lemma dispatch_of_write: "client_writeMessage ctx msg s = (e, s') \<Longrightarrow>
    cl_dispatch s' = cl_dispatch s \<and> cl_stop s' = cl_stop s"
  by (auto simp: client_writeMessage_def client_write_def split: sum.splits prod.splits)

lemma dispatch_step_calls: "dispatch_step h pick ctx pc s = Some (s', pc') \<Longrightarrow> same_calls s s'"
  by (cases pc) (auto simp: after_send_def SendError_def SendResponse_def dest!: go_select_in
      dest: same_calls_write split: list.splits if_splits sum.splits wire_message.splits option.splits prod.splits)

lemma finish_call_fields:
  "finish_call call r s = (r', s') \<Longrightarrow> same_calls s s' \<and> cl_dispatch s' = cl_dispatch s \<and> cl_stop s' = cl_stop s"
  by (cases call) (auto split: sum.splits if_splits)

section \<open>The table of pending calls\<close>

fun waiting :: "call_pc \<Rightarrow> (string \<times> nat) option" where
  "waiting (CcWait call i q) = Some (i, q)"
| "waiting (CcClean call i q r) = Some (i, q)"
| "waiting pc = None"

definition broken :: "raw_wire_message \<Rightarrow> bool" where
  "broken m \<longleftrightarrow> (\<exists>txt. m = zero_raw_wire_message\<lparr>rw_error := Some \<lparr>je_code = -1, je_message = txt, je_data = None\<rparr>\<rparr>)"

definition calls_ok :: "call_pc list \<Rightarrow> 't client \<Rightarrow> bool" where
  "calls_ok ps s \<longleftrightarrow>
     (\<forall>i q. (i, q) \<in> set (cl_pending s) \<longrightarrow> q < length (cl_chans s) \<and> fst (cl_chans s ! q) = i \<and>
        Some (i, q) \<in> waiting ` set ps) \<and>
     (\<forall>q m. q < length (cl_chans s) \<longrightarrow> snd (cl_chans s ! q) = Some m \<longrightarrow> rw_id m = fst (cl_chans s ! q) \<or> broken m) \<and>
     (\<forall>i q. Some (i, q) \<in> waiting ` set ps \<longrightarrow> q < length (cl_chans s) \<and> fst (cl_chans s ! q) = i)"

definition send_ok :: "creader_pc \<Rightarrow> call_pc list \<Rightarrow> 't client \<Rightarrow> bool" where
  "send_ok pc ps s = (case pc of
     CrSend q raw \<Rightarrow> q < length (cl_chans s) \<and> fst (cl_chans s ! q) = rw_id raw \<and>
       (snd (cl_chans s ! q) = None \<or> Some (rw_id raw, q) \<in> waiting ` set ps)
   | _ \<Rightarrow> True)"

definition cinv :: "'t csys \<Rightarrow> bool" where
  "cinv y \<longleftrightarrow> calls_ok (cc y) (cl y) \<and> send_ok (cr y) (cc y) (cl y)"

lemma calls_okD:
  assumes "calls_ok ps s"
  shows "(i, q) \<in> set (cl_pending s) \<Longrightarrow> q < length (cl_chans s) \<and> fst (cl_chans s ! q) = i \<and>
      Some (i, q) \<in> waiting ` set ps"
    "q < length (cl_chans s) \<Longrightarrow> snd (cl_chans s ! q) = Some m \<Longrightarrow> rw_id m = fst (cl_chans s ! q) \<or> broken m"
    "Some (i, q) \<in> waiting ` set ps \<Longrightarrow> q < length (cl_chans s) \<and> fst (cl_chans s ! q) = i"
  using assms unfolding calls_ok_def by blast+

lemma same_calls_ok:
  "same_calls s s' \<Longrightarrow> calls_ok ps s' = calls_ok ps s" "same_calls s s' \<Longrightarrow> send_ok pc ps s' = send_ok pc ps s"
  by (simp_all add: same_calls_def calls_ok_def send_ok_def split: creader_pc.split)

lemma same_chans_ok:
  "calls_ok ps s \<Longrightarrow> cl_pending s' = cl_pending s \<Longrightarrow> cl_chans s' = cl_chans s \<Longrightarrow> calls_ok ps s'"
  by (simp add: calls_ok_def)

lemma cinv_same: "cinv y \<Longrightarrow> same_calls (cl y) s \<Longrightarrow> cinv (y\<lparr>cl := s\<rparr>)"
  by (simp add: cinv_def same_calls_ok)

lemma cinv_fields [simp]:
  "cinv (y\<lparr>cd := a\<rparr>) = cinv y" "cinv (y\<lparr>seen := b\<rparr>) = cinv y" "cinv (y\<lparr>handled := c\<rparr>) = cinv y"
  "cinv (y\<lparr>dropped := d\<rparr>) = cinv y"
  by (simp_all add: cinv_def)

lemma same_calls_chan: "same_calls s s' \<Longrightarrow> cl_chans s' = cl_chans s"
  by (simp add: same_calls_def)

text \<open>How a call moves: it leaves the table alone, registers a fresh channel, receives, or cleans up.\<close>

lemma call_step_calls:
  assumes "call_step pick ctx pc s = Some (s', pc')"
  shows "(\<exists>ms c. same_calls s (s'\<lparr>cl_ooo := cl_ooo s, cl_counter := cl_counter s\<rparr>) \<and>
      (waiting pc' = waiting pc \<or> waiting pc = None \<and> waiting pc' = None)) \<or>
    (\<exists>call i. pc = CcRead call i \<and> pc' = CcWait call i (length (cl_chans s)) \<and>
      s' = s\<lparr>cl_chans := cl_chans s @ [(i, None)], cl_pending := AList.update i (length (cl_chans s)) (cl_pending s)\<rparr>) \<or>
    (\<exists>call i q r. pc = CcWait call i q \<and> pc' = CcClean call i q r \<and> s' = close_chan q s) \<or>
    (\<exists>call i q r r' s1. pc = CcClean call i q r \<and> pc' = CcDone r' \<and> same_calls s1 s' \<and>
      s1 = (close_chan q s)\<lparr>cl_pending := AList.delete i (cl_pending s)\<rparr>)"
proof (cases pc)
  case (CcStart call)
  with assms show ?thesis by (auto simp: nextID_def Let_def same_calls_def)
next
  case (CcWrite call i)
  with assms same_calls_write [of ctx "call_request call i" s] show ?thesis
    by (auto simp: same_calls_def split: prod.splits option.splits)
next
  case (CcRead call i)
  with assms finish_call_fields show ?thesis
    by (fastforce simp: same_calls_def Let_def split: option.splits prod.splits)
next
  case (CcWait call i q)
  with assms show ?thesis by (auto dest!: go_select_in)
next
  case (CcClean call i q r)
  with assms finish_call_fields show ?thesis by (fastforce split: prod.splits)
qed (use assms in simp)

lemma waiting_nth: "Some w \<in> waiting ` set ps \<longleftrightarrow> (\<exists>j < length ps. waiting (ps ! j) = Some w)"
  by (metis image_iff in_set_conv_nth)

lemma waiting_update:
  assumes "k < length ps"
  shows "Some w \<in> waiting ` set (ps[k := pc]) \<longleftrightarrow>
    waiting pc = Some w \<or> (\<exists>j < length ps. j \<noteq> k \<and> waiting (ps ! j) = Some w)"
  using assms unfolding waiting_nth length_list_update
  by (cases "waiting pc = Some w") (auto simp: nth_list_update)

lemma waiting_same:
  assumes "k < length ps" and "waiting pc = waiting (ps ! k)"
  shows "waiting ` set (ps[k := pc]) = waiting ` set ps"
proof -
  have "map waiting (ps[k := pc]) = map waiting ps"
    using assms by (metis list_update_id map_update)
  then show ?thesis by (metis set_map)
qed

text \<open>The invariant, step by step.\<close>

lemma cinv_register:
  assumes inv: "cinv y" and k: "k < length (cc y)" "waiting (cc y ! k) = None"
    and s: "s = (cl y)\<lparr>cl_chans := cl_chans (cl y) @ [(i, None)],
      cl_pending := AList.update i (length (cl_chans (cl y))) (cl_pending (cl y))\<rparr>"
  shows "cinv (y\<lparr>cl := s, cc := (cc y)[k := CcWait call i (length (cl_chans (cl y)))]\<rparr>)"
proof -
  let ?n = "length (cl_chans (cl y))" and ?ps = "(cc y)[k := CcWait call i (length (cl_chans (cl y)))]"
  have ok: "calls_ok (cc y) (cl y)" and send: "send_ok (cr y) (cc y) (cl y)" using inv by (auto simp: cinv_def)
  have w: "Some (a, q) \<in> waiting ` set ?ps \<longleftrightarrow> (a, q) = (i, ?n) \<or> Some (a, q) \<in> waiting ` set (cc y)" for a q
    using waiting_update [OF k(1), of "(a, q)"] k(2) by (auto simp: waiting_nth)
  have "calls_ok ?ps s"
    unfolding calls_ok_def
  proof (intro conjI allI impI)
    fix a q assume "(a, q) \<in> set (cl_pending s)"
    then have "(a, q) = (i, ?n) \<or> (a, q) \<in> set (cl_pending (cl y))"
      using AList_update_subset by (fastforce simp: s)
    then show "q < length (cl_chans s)" "fst (cl_chans s ! q) = a" "Some (a, q) \<in> waiting ` set ?ps"
      using calls_okD(1) [OF ok, of a q] unfolding w by (auto simp: s nth_append)
  next
    fix q m assume "q < length (cl_chans s)" "snd (cl_chans s ! q) = Some m"
    then show "rw_id m = fst (cl_chans s ! q) \<or> broken m"
      using calls_okD(2) [OF ok, of q m] by (auto simp: s nth_append split: if_splits)
  next
    fix a q assume "Some (a, q) \<in> waiting ` set ?ps"
    then show "q < length (cl_chans s)" "fst (cl_chans s ! q) = a"
      using calls_okD(3) [OF ok, of a q] unfolding w by (auto simp: s nth_append)
  qed
  moreover have "send_ok (cr y) ?ps s"
    using send w by (auto simp: send_ok_def s nth_append split: creader_pc.splits)
  ultimately show ?thesis by (simp add: cinv_def)
qed

lemma close_chan_fields [simp]:
  "length (cl_chans (close_chan q s)) = length (cl_chans s)"
  "fst (cl_chans (close_chan q s) ! r) = fst (cl_chans s ! r)"
  "snd (cl_chans (close_chan q s) ! r) = (if r = q \<and> q < length (cl_chans s) then None else snd (cl_chans s ! r))"
  "cl_pending (close_chan q s) = cl_pending s"
  by (cases "q < length (cl_chans s)"; auto simp: close_chan_def nth_list_update list_update_beyond)+

lemma cinv_receive:
  assumes inv: "cinv y" and k: "k < length (cc y)" "cc y ! k = CcWait call i q"
  shows "cinv (y\<lparr>cl := close_chan q (cl y), cc := (cc y)[k := CcClean call i q r]\<rparr>)"
proof -
  have w: "waiting ` set ((cc y)[k := CcClean call i q r]) = waiting ` set (cc y)"
    by (rule waiting_same) (use k in simp_all)
  show ?thesis
    using inv by (auto simp: cinv_def calls_ok_def send_ok_def w split: creader_pc.splits if_splits)
qed

lemma cinv_clean:
  assumes inv: "cinv y" and k: "k < length (cc y)" "cc y ! k = CcClean call i q r"
  shows "cinv (y\<lparr>cl := (close_chan q (cl y))\<lparr>cl_pending := AList.delete i (cl_pending (cl y))\<rparr>,
    cc := (cc y)[k := CcDone r']\<rparr>)"
proof -
  let ?ps = "(cc y)[k := CcDone r']" and ?s = "(close_chan q (cl y))\<lparr>cl_pending := AList.delete i (cl_pending (cl y))\<rparr>"
  have ok: "calls_ok (cc y) (cl y)" and send: "send_ok (cr y) (cc y) (cl y)" using inv by (auto simp: cinv_def)
  have "Some (i, q) \<in> waiting ` set (cc y)" unfolding waiting_nth using k by force
  note q = calls_okD(3) [OF ok this]
  have w: "Some (a, b) \<in> waiting ` set ?ps \<Longrightarrow> Some (a, b) \<in> waiting ` set (cc y)" for a b
    unfolding waiting_update [OF k(1)] unfolding waiting_nth by auto
  have w': "Some (a, b) \<in> waiting ` set ?ps" if "Some (a, b) \<in> waiting ` set (cc y)" "b \<noteq> q" for a b
    using that k unfolding waiting_update [OF k(1)] unfolding waiting_nth by fastforce
  have "calls_ok ?ps ?s"
    unfolding calls_ok_def
  proof (intro conjI allI impI)
    fix a b assume "(a, b) \<in> set (cl_pending ?s)"
    then have ab: "(a, b) \<in> set (cl_pending (cl y))" "a \<noteq> i" by (auto simp: AList.delete_eq)
    from calls_okD(1) [OF ok ab(1)] q ab(2) have "b \<noteq> q" by auto
    with calls_okD(1) [OF ok ab(1)] w' show "b < length (cl_chans ?s)" "fst (cl_chans ?s ! b) = a"
      "Some (a, b) \<in> waiting ` set ?ps" by auto
  next
    fix b m assume "b < length (cl_chans ?s)" "snd (cl_chans ?s ! b) = Some m"
    then show "rw_id m = fst (cl_chans ?s ! b) \<or> broken m"
      using calls_okD(2) [OF ok, of b m] by (auto split: if_splits)
  next
    fix a b assume "Some (a, b) \<in> waiting ` set ?ps"
    from calls_okD(3) [OF ok w [OF this]] show "b < length (cl_chans ?s)" "fst (cl_chans ?s ! b) = a" by auto
  qed
  moreover have "send_ok (cr y) ?ps ?s"
    using send w' q by (auto simp: send_ok_def split: creader_pc.splits)
  ultimately show ?thesis by (simp add: cinv_def)
qed

lemma cinv_still:
  assumes inv: "cinv y" and k: "k < length (cc y)"
    and s: "same_calls (cl y) (s\<lparr>cl_ooo := cl_ooo (cl y), cl_counter := cl_counter (cl y)\<rparr>)"
    and w: "waiting pc = waiting (cc y ! k) \<or> waiting (cc y ! k) = None \<and> waiting pc = None"
  shows "cinv (y\<lparr>cl := s, cc := (cc y)[k := pc]\<rparr>)"
proof -
  have "waiting ` set ((cc y)[k := pc]) = waiting ` set (cc y)"
    by (rule waiting_same) (use k w in auto)
  with inv s show ?thesis
    by (simp add: cinv_def calls_ok_def send_ok_def same_calls_def split: creader_pc.splits)
qed

lemma cinv_call:
  assumes inv: "cinv y" and k: "k < length (cc y)" and st: "call_step pick ctx (cc y ! k) (cl y) = Some (s, pc)"
  shows "cinv (y\<lparr>cl := s, cc := (cc y)[k := pc]\<rparr>)"
  using call_step_calls [OF st]
proof (elim disjE exE conjE)
  fix call i q r r' s1
  assume a: "cc y ! k = CcClean call i q r" "pc = CcDone r'" "same_calls s1 s"
    "s1 = (close_chan q (cl y))\<lparr>cl_pending := AList.delete i (cl_pending (cl y))\<rparr>"
  from cinv_same [OF cinv_clean [OF inv k a(1), of r'], of s] a show ?thesis by (simp add: cinv_def)
qed (use inv k in \<open>auto intro: cinv_still cinv_register cinv_receive\<close>)

text \<open>\<open>closePending\<close>: the table is empty, and every channel of it holds a message.\<close>

lemma closing_chans:
  fixes m :: raw_wire_message
  defines "f \<equiv> \<lambda>cs (i :: string, q). if snd (cs ! q) = None then cs[q := (fst (cs ! q), Some m)] else cs"
  shows "length (foldl f cs ps) = length cs \<and> fst (foldl f cs ps ! r) = fst (cs ! r) \<and>
    (snd (foldl f cs ps ! r) = snd (cs ! r) \<or> snd (cs ! r) = None \<and> snd (foldl f cs ps ! r) = Some m) \<and>
    (r \<in> snd ` set ps \<longrightarrow> r < length cs \<longrightarrow> snd (foldl f cs ps ! r) \<noteq> None)"
proof (induction ps arbitrary: cs)
  case (Cons p ps)
  obtain i q where p: "p = (i, q)" by (cases p)
  have step: "length (f cs p) = length cs" "fst (f cs p ! r) = fst (cs ! r)"
    "snd (f cs p ! r) = snd (cs ! r) \<or> snd (cs ! r) = None \<and> snd (f cs p ! r) = Some m"
    "r = q \<longrightarrow> r < length cs \<longrightarrow> snd (f cs p ! r) \<noteq> None"
    by (cases "q < length cs"; auto simp: f_def p nth_list_update list_update_beyond)+
  from Cons.IH [of "f cs p"] step show ?case by (auto simp: p)
qed simp

lemma client_closePending_effect:
  "cl_pending (client_closePending e s) = []"
  "length (cl_chans (client_closePending e s)) = length (cl_chans s)"
  "fst (cl_chans (client_closePending e s) ! r) = fst (cl_chans s ! r)"
  "snd (cl_chans (client_closePending e s) ! r) = Some m \<Longrightarrow> snd (cl_chans s ! r) = Some m \<or> broken m"
  "(i, q) \<in> set (cl_pending s) \<Longrightarrow> q < length (cl_chans s) \<Longrightarrow>
    \<exists>m. snd (cl_chans (client_closePending e s) ! q) = Some m \<and> (snd (cl_chans s ! q) = Some m \<or> broken m)"
proof -
  let ?m = "zero_raw_wire_message\<lparr>rw_error :=
    Some \<lparr>je_code = -1, je_message = RedactString (error_text e), je_data = None\<rparr>\<rparr>"
  note eff = closing_chans [where m = ?m and cs = "cl_chans s" and ps = "cl_pending s"]
  have br: "broken ?m" by (auto simp: broken_def)
  show "cl_pending (client_closePending e s) = []"
    "length (cl_chans (client_closePending e s)) = length (cl_chans s)"
    "fst (cl_chans (client_closePending e s) ! r) = fst (cl_chans s ! r)"
    "snd (cl_chans (client_closePending e s) ! r) = Some m \<Longrightarrow> snd (cl_chans s ! r) = Some m \<or> broken m"
    using eff [of r] br by (auto simp: client_closePending_def)
  assume "(i, q) \<in> set (cl_pending s)" "q < length (cl_chans s)"
  then have "q \<in> snd ` set (cl_pending s)" by force
  with eff [of q] br \<open>q < length (cl_chans s)\<close>
  show "\<exists>m. snd (cl_chans (client_closePending e s) ! q) = Some m \<and> (snd (cl_chans s ! q) = Some m \<or> broken m)"
    by (auto simp: client_closePending_def)
qed

lemma cinv_reader:
  assumes inv: "cinv y" and st: "client_reader_step pick input (cr y) (cl y) = Some (s, pc)"
  shows "cinv (y\<lparr>cl := s, cr := pc\<rparr>)"
proof (cases "cr y")
  case CrRead
  show ?thesis
  proof (cases "\<exists>q raw. pc = CrSend q raw")
    case True
    then obtain q raw where pc: "pc = CrSend q raw" by blast
    with CrRead st have s: "s = cl y" and "map_of (cl_pending (cl y)) (rw_id raw) = Some q"
      by (auto split: sum.splits if_splits option.splits)
    from map_of_SomeD [OF this(2)] inv pc s show ?thesis
      by (auto simp: cinv_def send_ok_def dest: calls_okD(1))
  next
    case False
    then have "send_ok pc (cc y) s" by (cases pc) (simp_all add: send_ok_def)
    moreover have "cl_pending s = cl_pending (cl y)" "cl_chans s = cl_chans (cl y)"
      using CrRead st by (auto split: sum.splits if_splits option.splits)
    ultimately show ?thesis using inv same_chans_ok [of "cc y" "cl y" s] by (simp add: cinv_def)
  qed
next
  case (CrSend q raw)
  from inv have ok: "calls_ok (cc y) (cl y)" and q: "q < length (cl_chans (cl y))" "fst (cl_chans (cl y) ! q) = rw_id raw"
    by (auto simp: cinv_def send_ok_def CrSend)
  from CrSend st consider "s = cl y" "pc = CrEnd" |
      "s = (cl y)\<lparr>cl_chans := (cl_chans (cl y))[q := (fst (cl_chans (cl y) ! q), Some raw)]\<rparr>" "pc = CrRead"
    by (auto dest!: go_select_in split: if_splits)
  then show ?thesis
  proof cases
    case 1
    with ok show ?thesis by (simp add: cinv_def send_ok_def)
  next
    case 2
    from 2(1) q have f: "length (cl_chans s) = length (cl_chans (cl y))" "cl_pending s = cl_pending (cl y)"
      "fst (cl_chans s ! r) = fst (cl_chans (cl y) ! r)"
      "snd (cl_chans s ! r) = (if r = q then Some raw else snd (cl_chans (cl y) ! r))" for r
      by (auto simp: nth_list_update)
    have "calls_ok (cc y) s"
      unfolding calls_ok_def f using calls_okD [OF ok] q by (simp add: calls_ok_def)
    with 2 show ?thesis by (simp add: cinv_def send_ok_def)
  qed
next
  case (CrClose e)
  with st have s: "s = client_closePending e (cl y)" "pc = CrEnd" by auto
  have ok: "calls_ok (cc y) (cl y)" using inv by (simp add: cinv_def)
  have "calls_ok (cc y) s"
    unfolding calls_ok_def s(1) client_closePending_effect(1-3)
    using calls_okD(2,3) [OF ok] client_closePending_effect(4) [of e "cl y"] by fastforce
  with s show ?thesis by (simp add: cinv_def send_ok_def)
next
  case (CrDispatch raw)
  with st have "cl_pending s = cl_pending (cl y)" "cl_chans s = cl_chans (cl y)" "pc = CrRead \<or> pc = CrEnd"
    by (auto dest!: go_select_in split: if_splits)
  moreover from this(3) have "send_ok pc (cc y) s" by (auto simp: send_ok_def)
  ultimately show ?thesis using inv same_chans_ok [of "cc y" "cl y" s] by (simp add: cinv_def)
next
  case CrEnd
  with st inv same_chans_ok [of "cc y" "cl y" s] show ?thesis by (auto simp: cinv_def send_ok_def)
next
  case CrLast
  with st inv same_chans_ok [of "cc y" "cl y" s] show ?thesis by (auto simp: cinv_def send_ok_def)
qed (use st in simp)

lemma cinv_step:
  assumes inv: "cinv y" and st: "cactor_step h a c y = Some y'"
  shows "cinv y'"
proof (cases a)
  case CReader
  with st inv cinv_reader show ?thesis by auto
next
  case CNew
  have w: "Some x \<in> waiting ` set (cc y @ [CcStart (cx_call c)]) \<longleftrightarrow> Some x \<in> waiting ` set (cc y)" for x by simp
  have "send_ok (cr y) (cc y @ [CcStart (cx_call c)]) (cl y)"
    using inv by (cases "cr y") (simp_all add: cinv_def send_ok_def w del: set_append)
  moreover have "calls_ok (cc y @ [CcStart (cx_call c)]) (cl y)"
    using inv unfolding cinv_def calls_ok_def w by blast
  moreover have "y' = y\<lparr>cc := cc y @ [CcStart (cx_call c)]\<rparr>" using CNew st by simp
  ultimately show ?thesis by (simp add: cinv_def del: set_append)
next
  case (CCall k)
  with st inv cinv_call show ?thesis by (auto split: if_splits)
next
  case CDispatch
  with st cinv_same [OF inv dispatch_step_calls] show ?thesis by auto
qed (use st inv in \<open>auto intro: cinv_same split: dispatch_pc.splits\<close>)

lemma creachable_cinv: "creachable h y \<Longrightarrow> cinv y"
proof (induction rule: creachable.induct)
  case (cstart d t w)
  show ?case by (simp add: client_start_def cinv_def calls_ok_def send_ok_def NewClient_def WithDefaultTimeout_def)
next
  case (cstep y a c y')
  then show ?case using cinv_step by blast
qed

section \<open>The ids of the calls\<close>

definition req_id :: "nat \<Rightarrow> string" where
  "req_id n = ''req-'' @ show_nat n"

lemma req_id_inj [simp]: "req_id m = req_id n \<longleftrightarrow> m = n"
  by (simp add: req_id_def show_nat_inj)

fun call_ident :: "call_pc \<Rightarrow> string option" where
  "call_ident (CcWrite call i) = Some i"
| "call_ident (CcRead call i) = Some i"
| "call_ident (CcWait call i q) = Some i"
| "call_ident (CcClean call i q r) = Some i"
| "call_ident pc = None"

definition started :: "call_pc \<Rightarrow> bool" where
  "started pc = (case pc of CcStart call \<Rightarrow> False | _ \<Rightarrow> True)"

definition ids_ok :: "call_pc list \<Rightarrow> nat \<Rightarrow> bool" where
  "ids_ok ps c \<longleftrightarrow> c = length (filter started ps) \<and>
     (\<forall>k i. k < length ps \<longrightarrow> call_ident (ps ! k) = Some i \<longrightarrow> (\<exists>n \<le> c. i = req_id n)) \<and>
     (\<forall>j k i. j < length ps \<longrightarrow> k < length ps \<longrightarrow> call_ident (ps ! j) = Some i \<longrightarrow>
        call_ident (ps ! k) = Some i \<longrightarrow> j = k)"

definition ids_inv :: "'t csys \<Rightarrow> bool" where
  "ids_inv y \<longleftrightarrow> (length (cc y) < 2 ^ 64 \<longrightarrow> ids_ok (cc y) (unat (cl_counter (cl y))))"

lemma filter_update:
  "k < length xs \<Longrightarrow> length (filter P (xs[k := x])) + (if P (xs ! k) then 1 else 0) =
    length (filter P xs) + (if P x then 1 else 0)"
proof (induction xs arbitrary: k)
  case (Cons a xs)
  then show ?case by (cases k) auto
qed simp

lemma call_step_ids:
  assumes "call_step pick ctx pc s = Some (s', pc')"
  shows "(\<exists>call. pc = CcStart call \<and> pc' = CcWrite call (req_id (unat (cl_counter s + 1))) \<and>
      cl_counter s' = cl_counter s + 1) \<or>
    started pc \<and> started pc' \<and> cl_counter s' = cl_counter s \<and> (call_ident pc' = call_ident pc \<or> call_ident pc' = None)"
proof (cases pc)
  case (CcStart call)
  with assms show ?thesis by (auto simp: nextID_def Let_def req_id_def)
next
  case (CcWrite call i)
  with assms same_calls_write [of ctx "call_request call i" s] show ?thesis
    by (auto simp: same_calls_def started_def split: prod.splits option.splits)
next
  case (CcRead call i)
  with assms finish_call_fields show ?thesis
    by (fastforce simp: same_calls_def Let_def started_def split: option.splits prod.splits)
next
  case (CcWait call i q)
  with assms show ?thesis by (auto simp: started_def close_chan_def dest!: go_select_in)
next
  case (CcClean call i q r)
  with assms finish_call_fields show ?thesis
    by (fastforce simp: same_calls_def started_def close_chan_def split: prod.splits)
qed (use assms in simp)

lemma ids_inv_same: "ids_inv y \<Longrightarrow> cl_counter s = cl_counter (cl y) \<Longrightarrow> ids_inv (y\<lparr>cl := s\<rparr>)"
  by (simp add: ids_inv_def)

lemma ids_inv_fields [simp]:
  "ids_inv (y\<lparr>cd := a\<rparr>) = ids_inv y" "ids_inv (y\<lparr>seen := b\<rparr>) = ids_inv y" "ids_inv (y\<lparr>handled := c\<rparr>) = ids_inv y"
  "ids_inv (y\<lparr>dropped := d\<rparr>) = ids_inv y" "ids_inv (y\<lparr>cr := e\<rparr>) = ids_inv y"
  by (simp_all add: ids_inv_def)

lemma reader_counter: "client_reader_step pick input pc s = Some (s', pc') \<Longrightarrow> cl_counter s' = cl_counter s"
  by (cases pc) (auto simp: client_closePending_def dest!: go_select_in
      split: sum.splits if_splits option.splits)

lemma ids_okD:
  assumes "ids_ok ps c"
  shows "j < length ps \<Longrightarrow> call_ident (ps ! j) = Some i \<Longrightarrow> \<exists>n \<le> c. i = req_id n"
    "j < length ps \<Longrightarrow> k < length ps \<Longrightarrow> call_ident (ps ! j) = Some i \<Longrightarrow> call_ident (ps ! k) = Some i \<Longrightarrow> j = k"
  using assms unfolding ids_ok_def by blast+

lemma ids_ok_start:
  assumes ok: "ids_ok ps c" and k: "k < length ps" "ps ! k = CcStart call"
  shows "ids_ok (ps[k := CcWrite call (req_id (c + 1))]) (c + 1)"
proof -
  let ?cs = "ps[k := CcWrite call (req_id (c + 1))]"
  have ident: "call_ident (?cs ! j) = (if j = k then Some (req_id (c + 1)) else call_ident (ps ! j))"
    if "j < length ps" for j using that by simp
  have "c + 1 = length (filter started ?cs)"
    using filter_update [OF k(1), of started "CcWrite call (req_id (c + 1))"] ok k(2)
    by (simp add: ids_ok_def started_def)
  moreover have "\<exists>n \<le> c + 1. i = req_id n" if "j < length ps" "call_ident (?cs ! j) = Some i" for j i
    using that ids_okD(1) [OF ok, of j i] ident by (auto intro: le_SucI split: if_splits)
  moreover have "j = l" if "j < length ps" "l < length ps" "call_ident (?cs ! j) = Some i"
    "call_ident (?cs ! l) = Some i" for j l i
    using that ids_okD(2) [OF ok, of j l i] ids_okD(1) [OF ok, of j i] ids_okD(1) [OF ok, of l i] ident
    by (auto split: if_splits)
  ultimately show ?thesis unfolding ids_ok_def length_list_update by blast
qed

lemma ids_ok_move:
  assumes ok: "ids_ok ps c" and k: "k < length ps"
    and a: "started (ps ! k)" "started pc" "call_ident pc = call_ident (ps ! k) \<or> call_ident pc = None"
  shows "ids_ok (ps[k := pc]) c"
proof -
  have ident: "call_ident (ps ! j) = Some i" if "j < length ps" "call_ident (ps[k := pc] ! j) = Some i" for j i
    using that a(3) by (cases "j = k") auto
  have "c = length (filter started (ps[k := pc]))"
    using filter_update [OF k, of started pc] ok a by (simp add: ids_ok_def)
  then show ?thesis
    unfolding ids_ok_def length_list_update using ids_okD [OF ok] ident by blast
qed

lemma ids_inv_call:
  assumes inv: "ids_inv y" and k: "k < length (cc y)" and st: "call_step pick ctx (cc y ! k) (cl y) = Some (s, pc)"
  shows "ids_inv (y\<lparr>cl := s, cc := (cc y)[k := pc]\<rparr>)"
proof -
  have "ids_ok ((cc y)[k := pc]) (unat (cl_counter s))" if len: "length (cc y) < 2 ^ 64"
  proof -
    let ?c = "cl_counter (cl y)"
    from inv len have ok: "ids_ok (cc y) (unat ?c)" by (simp add: ids_inv_def)
    from call_step_ids [OF st] show ?thesis
    proof (elim disjE exE conjE)
      fix call
      assume a: "cc y ! k = CcStart call" "pc = CcWrite call (req_id (unat (?c + 1)))" "cl_counter s = ?c + 1"
      have "length (filter started (cc y)) < length (cc y)"
        using a(1) nth_mem [OF k] by (intro length_filter_less [of "cc y ! k"]) (simp_all add: started_def)
      with len ok have "unat ?c < 2 ^ 64 - 1" by (simp add: ids_ok_def)
      then have "unat (?c + 1) = unat ?c + 1" by (simp add: unat_word_ariths)
      with ids_ok_start [OF ok k a(1)] a show ?thesis by simp
    qed (use ids_ok_move [OF ok k] in auto)
  qed
  then show ?thesis by (simp add: ids_inv_def)
qed

lemma ids_inv_step:
  assumes inv: "ids_inv y" and st: "cactor_step h a c y = Some y'"
  shows "ids_inv y'"
proof (cases a)
  case CReader
  with st ids_inv_same [OF inv reader_counter] show ?thesis by auto
next
  case CNew
  with st inv show ?thesis
    by (auto simp: ids_inv_def ids_ok_def nth_append less_Suc_eq started_def)
next
  case (CCall k)
  with st inv ids_inv_call show ?thesis by (auto split: if_splits)
next
  case CDispatch
  with st show ?thesis by (auto simp: same_calls_def intro: ids_inv_same [OF inv] dest!: dispatch_step_calls)
qed (use st inv in \<open>auto intro: ids_inv_same split: dispatch_pc.splits\<close>)

lemma creachable_ids_inv: "creachable h y \<Longrightarrow> ids_inv y"
proof (induction rule: creachable.induct)
  case (cstart d t w)
  show ?case by (simp add: client_start_def ids_inv_def ids_ok_def NewClient_def WithDefaultTimeout_def)
next
  case (cstep y a c y')
  then show ?case using ids_inv_step by blast
qed

section \<open>Events and requests on their way\<close>

definition reader_over :: "creader_pc \<Rightarrow> bool" where
  "reader_over pc = (case pc of CrEnd \<Rightarrow> True | CrLast \<Rightarrow> True | CrGone \<Rightarrow> True | _ \<Rightarrow> False)"

definition closed_by :: "creader_pc \<Rightarrow> bool" where
  "closed_by pc = (case pc of CrLast \<Rightarrow> True | CrGone \<Rightarrow> True | _ \<Rightarrow> False)"

definition order_inv :: "'t csys \<Rightarrow> bool" where
  "order_inv y \<longleftrightarrow> seen y = handled y @ cl_dispatch (cl y) @ in_hand (cr y) @ dropped y \<and>
     (dropped y \<noteq> [] \<longrightarrow> cl_stop (cl y) \<and> reader_over (cr y)) \<and> length (cl_dispatch (cl y)) \<le> 1024 \<and>
     cl_dispatch_closed (cl y) = closed_by (cr y)"

definition same_queue :: "'t client \<Rightarrow> 't client \<Rightarrow> bool" where
  "same_queue s s' \<longleftrightarrow> cl_dispatch s' = cl_dispatch s \<and> cl_dispatch_closed s' = cl_dispatch_closed s \<and>
     (cl_stop s \<longrightarrow> cl_stop s')"

lemma order_inv_same: "order_inv y \<Longrightarrow> same_queue (cl y) s \<Longrightarrow> order_inv (y\<lparr>cl := s\<rparr>)"
  by (simp add: order_inv_def same_queue_def)

lemma order_inv_calls [simp]: "order_inv (y\<lparr>cc := a\<rparr>) = order_inv y"
  by (simp add: order_inv_def)

lemma same_queue_write: "client_writeMessage ctx msg s = (e, s') \<Longrightarrow> same_queue s s'"
  by (auto simp: same_queue_def client_writeMessage_def client_write_def split: sum.splits prod.splits)

lemma same_queue_finish: "finish_call call r s = (r', s') \<Longrightarrow> same_queue s s'"
  by (cases call) (auto simp: same_queue_def split: sum.splits if_splits)

lemma same_queue_fields [simp]:
  "same_queue (s\<lparr>cl_ooo := a\<rparr>) s' = same_queue s s'" "same_queue (s\<lparr>cl_pending := b\<rparr>) s' = same_queue s s'"
  "same_queue (close_chan q s) s' = same_queue s s'"
  by (simp_all add: same_queue_def close_chan_def)

lemma same_queue_call: "call_step pick ctx pc s = Some (s', pc') \<Longrightarrow> same_queue s s'"
proof (cases pc)
  case (CcRead call i)
  moreover assume "call_step pick ctx pc s = Some (s', pc')"
  ultimately show ?thesis
    by (auto simp: Let_def same_queue_def [of s "cl_chans_update _ _"] dest: same_queue_finish
        split: option.splits prod.splits) (simp add: same_queue_def)
next
  case (CcClean call i q r)
  moreover assume "call_step pick ctx pc s = Some (s', pc')"
  ultimately show ?thesis by (auto dest: same_queue_finish split: prod.splits)
next
  case (CcWait call i q)
  moreover assume "call_step pick ctx pc s = Some (s', pc')"
  ultimately show ?thesis by (auto simp: same_queue_def close_chan_def dest!: go_select_in)
qed (auto simp: nextID_def Let_def same_queue_def dest: same_queue_write split: prod.splits option.splits)

lemma order_inv_reader:
  assumes inv: "order_inv y" and st: "client_reader_step pick input (cr y) (cl y) = Some (s, pc)"
  shows "order_inv (y\<lparr>cl := s, cr := pc, seen := seen y @ in_hand pc,
    dropped := dropped y @ (if pc = CrEnd then in_hand (cr y) else [])\<rparr>)"
proof (cases "cr y")
  case CrRead
  with st have "same_queue (cl y) s \<and> (pc = CrRead \<or> (\<exists>e. pc = CrClose e) \<or> (\<exists>q r. pc = CrSend q r) \<or> (\<exists>r. pc = CrDispatch r))"
    by (auto simp: same_queue_def split: sum.splits if_splits option.splits)
  with inv CrRead show ?thesis
    by (auto simp: order_inv_def same_queue_def in_hand_def reader_over_def closed_by_def)
next
  case (CrDispatch raw)
  with st inv show ?thesis
    by (auto simp: order_inv_def in_hand_def reader_over_def closed_by_def dest!: go_select_in split: if_splits)
next
  case (CrSend q raw)
  with st inv show ?thesis
    by (auto simp: order_inv_def in_hand_def reader_over_def closed_by_def dest!: go_select_in split: if_splits)
qed (use st inv in \<open>auto simp: order_inv_def in_hand_def reader_over_def closed_by_def client_closePending_def\<close>)

lemma order_inv_dispatch:
  assumes inv: "order_inv y" and st: "dispatch_step h pick ctx (cd y) (cl y) = Some (s, pc)"
  shows "order_inv (y\<lparr>cl := s, cd := pc, handled := handled y @ taken_by pc\<rparr>)"
proof (cases "cd y")
  case DpWait
  with st inv show ?thesis
    by (auto simp: order_inv_def taken_by_def dest!: go_select_in split: list.splits if_splits)
next
  case (DpHandle raw)
  with st have "same_queue (cl y) s \<and> taken_by pc = []"
    by (auto simp: after_send_def SendError_def SendResponse_def same_queue_def [of "cl y" "cl y"] taken_by_def dest: same_queue_write
        split: sum.splits wire_message.splits option.splits prod.splits)
  with inv show ?thesis by (simp add: order_inv_def same_queue_def)
qed (use st in simp)

lemma order_inv_step:
  assumes inv: "order_inv y" and st: "cactor_step h a c y = Some y'"
  shows "order_inv y'"
proof (cases a)
  case CReader
  with st obtain s pc where "client_reader_step (cx_pick c) (cx_input c) (cr y) (cl y) = Some (s, pc)"
    "y' = y\<lparr>cl := s, cr := pc, seen := seen y @ in_hand pc,
       dropped := dropped y @ (if pc = CrEnd then in_hand (cr y) else [])\<rparr>" by auto
  with order_inv_reader [OF inv] show ?thesis by blast
next
  case (CCall k)
  with st order_inv_same [OF inv same_queue_call] show ?thesis by (auto split: if_splits)
next
  case CDispatch
  with st inv order_inv_dispatch show ?thesis by auto
next
  case CAgain
  with st inv show ?thesis by (auto simp: order_inv_def split: dispatch_pc.splits)
qed (use st inv in \<open>auto intro!: order_inv_same simp: same_queue_def\<close>)

lemma creachable_order_inv: "creachable h y \<Longrightarrow> order_inv y"
proof (induction rule: creachable.induct)
  case (cstart d t w)
  show ?case by (simp add: client_start_def order_inv_def in_hand_def closed_by_def NewClient_def WithDefaultTimeout_def)
next
  case (cstep y a c y')
  then show ?case using order_inv_step by blast
qed

section \<open>The end of Dispatch\<close>

definition dispatch_rank :: "'t csys \<Rightarrow> nat" where
  "dispatch_rank y = 2 * length (cl_dispatch (cl y)) + (case cd y of DpWait \<Rightarrow> 1 | DpHandle raw \<Rightarrow> 2 | DpDone e \<Rightarrow> 0)"

lemma after_send_queue:
  "after_send (client_writeMessage ctx msg s) = (s', pc) \<Longrightarrow> cl_dispatch s' = cl_dispatch s \<and> (\<forall>raw. pc \<noteq> DpHandle raw) \<and> pc \<noteq> DpDone None"
  by (auto simp: after_send_def dest: same_queue_write split: prod.splits option.splits simp: same_queue_def)

lemma dispatch_step_lowers:
  assumes "cl_dispatch_closed (cl y)" and "\<forall>e. cd y \<noteq> DpDone e"
  shows "\<exists>s pc. dispatch_step h pick ctx (cd y) (cl y) = Some (s, pc) \<and>
    dispatch_rank (y\<lparr>cl := s, cd := pc, handled := hs\<rparr>) < dispatch_rank y"
proof (cases "cd y")
  case DpWait
  have "\<exists>r. dispatch_step h pick ctx DpWait (cl y) = Some r"
    using assms(1) by (cases "cl_dispatch (cl y)") (auto intro!: go_select_enabled simp del: split_paired_Ex)
  then obtain s pc where st: "dispatch_step h pick ctx DpWait (cl y) = Some (s, pc)" by (metis surj_pair)
  then have "2 * length (cl_dispatch s) + (case pc of DpWait \<Rightarrow> 1 | DpHandle raw \<Rightarrow> 2 | DpDone e \<Rightarrow> 0) <
      2 * length (cl_dispatch (cl y)) + 1"
    by (auto dest!: go_select_in split: list.splits if_splits)
  with st DpWait show ?thesis by (simp add: dispatch_rank_def)
next
  case (DpHandle raw)
  obtain s pc where st: "dispatch_step h pick ctx (cd y) (cl y) = Some (s, pc)" using DpHandle by fastforce
  with DpHandle have "cl_dispatch s = cl_dispatch (cl y) \<and> (\<forall>raw. pc \<noteq> DpHandle raw)"
    by (auto simp: SendError_def SendResponse_def dest: after_send_queue
        split: sum.splits wire_message.splits option.splits)
  with st DpHandle show ?thesis by (cases pc) (auto simp: dispatch_rank_def)
qed (use assms in simp)

lemma dispatch_drained:
  assumes "order_inv y" and "dispatch_step h pick ctx (cd y) (cl y) = Some (s, DpDone None)"
  shows "cl_dispatch s = [] \<and> handled y @ dropped y = seen y"
proof -
  from assms(2) have "s = cl y" "cl_dispatch (cl y) = []" "cl_dispatch_closed (cl y)"
    by (cases "cd y"; auto simp: after_send_def dest!: go_select_in
        split: list.splits if_splits sum.splits wire_message.splits option.splits prod.splits)+
  with assms(1) show ?thesis by (auto simp: order_inv_def closed_by_def in_hand_def split: creader_pc.splits)
qed

lemma others_keep_rank:
  assumes "cactor_step h a c y = Some y'" and "cr y = CrGone" and "a \<noteq> CDispatch" and "a \<noteq> CAgain"
  shows "cr y' = CrGone \<and> dispatch_rank y' = dispatch_rank y"
  using assms by (cases a) (auto simp: dispatch_rank_def same_queue_def dest!: same_queue_call split: if_splits)

section \<open>What a call finds\<close>

text \<open>The call that waits for a response, with its id; the message it finds in the buffer or in its channel;
  the result it then has.\<close>

fun asks :: "call_pc \<Rightarrow> (client_call \<times> string) option" where
  "asks (CcRead call i) = Some (call, i)"
| "asks (CcWait call i q) = Some (call, i)"
| "asks (CcClean call i q r) = Some (call, i)"
| "asks pc = None"

fun gets :: "call_pc \<Rightarrow> 'u client \<Rightarrow> raw_wire_message \<Rightarrow> bool" where
  "gets (CcRead call i) s m = (map_option fst (take_ooo i (cl_ooo s)) = Some m)"
| "gets (CcWait call i q) s m = (snd (cl_chans s ! q) = Some m)"
| "gets pc s m = False"

fun call_result :: "call_pc \<Rightarrow> (go_error + client_reply) option" where
  "call_result (CcClean call i q r) = Some r"
| "call_result (CcDone r) = Some r"
| "call_result pc = None"

lemma take_ooo_found: "take_ooo i ms = Some (m, rest) \<Longrightarrow> m \<in> set ms \<and> rw_id m = i"
  by (induction i ms arbitrary: rest rule: take_ooo.induct) (auto split: if_splits)

text \<open>The result of a call is the message decoded, or the legacy answer in place of method not found.\<close>

definition result_of :: "client_call \<Rightarrow> raw_wire_message \<Rightarrow> client_reply \<Rightarrow> bool" where
  "result_of call m r \<longleftrightarrow> decode_reply_to call m = Inr r \<or>
     (\<exists>p e. call = CallInitialize p \<and> decode_reply_to call m = Inl e \<and>
        as_wire e = Some (ErrRequestFailed, MethodNotFound) \<and> r = InitializeReply legacy_result)"

lemma finish_call_result:
  "finish_call call (decode_reply_to call m) s = (Inr r, s') \<Longrightarrow> result_of call m r"
  by (cases call) (auto simp: result_of_def split: sum.splits if_splits)

lemma asked_reply:
  assumes "calls_ok ps s" and "k < length ps" and "asks (ps ! k) = Some (call, i)"
    and "call_step pick ctx (ps ! k) s = Some (s', pc)" and "call_result pc = Some (Inr r)"
    and "call_result (ps ! k) = None"
  shows "\<exists>m. gets (ps ! k) s m \<and> rw_id m = i \<and> result_of call m r"
proof (cases "ps ! k")
  case (CcRead call' j)
  with assms(3-5) take_ooo_found show ?thesis
    by (auto simp: Let_def dest!: finish_call_result split: option.splits prod.splits)
next
  case (CcWait call' j q)
  with assms(3-5) obtain m where m: "snd (cl_chans s ! q) = Some m" "decode_reply_to call m = Inr r"
    by (auto dest!: go_select_in)
  have "\<not> broken m"
    using m(2) by (cases call) (auto simp: broken_def decodeResponse_def)
  moreover from CcWait assms(2) have "Some (j, q) \<in> waiting ` set ps" unfolding waiting_nth by force
  note q = calls_okD(3) [OF assms(1) this]
  ultimately have "rw_id m = i" using calls_okD(2) [OF assms(1) _ m(1)] q CcWait assms(3) by auto
  with m CcWait show ?thesis by (auto simp: result_of_def)
next
  case (CcClean call' j q x)
  with assms(6) show ?thesis by simp
qed (use assms(3) in auto)

end
