(* ===== verification/Version.thy ===== *)
theory Version
  imports Methods
begin

text \<open>
  Protocol version negotiation of \<open>server/server.go\<close>: \<open>atoi\<close> on 64-bit integers, \<open>splitVersion\<close>,
  \<open>semverCompare\<close> and \<open>negotiateVersion\<close>.
\<close>

section \<open>The code\<close>

text \<open>Go's \<open>int\<close>: 64 bits, arithmetic wraps around, comparison is signed.\<close>

fun atoi_from :: "64 word \<Rightarrow> string \<Rightarrow> 64 word" where
  "atoi_from n [] = n"
| "atoi_from n (c # s) =
     (if is_digit c then atoi_from (n * 10 + word_of_nat (digit_val c)) s else n)"

definition atoi :: "string \<Rightarrow> int" where
  "atoi s = sint (atoi_from 0 s)"

fun split_dots :: "string \<Rightarrow> string \<Rightarrow> string list" where
  "split_dots cur [] = [cur]"
| "split_dots cur (c # s) = (if c = CHR ''.'' then cur # split_dots [] s else split_dots (cur @ [c]) s)"

definition splitVersion :: "string \<Rightarrow> int list" where
  "splitVersion v = map atoi (split_dots [] v)"

text \<open>The loop of \<open>semverCompare\<close>: a list that has ended counts as zeros.\<close>

fun compare_parts :: "int list \<Rightarrow> int list \<Rightarrow> int" where
  "compare_parts [] [] = 0"
| "compare_parts (a # as) [] = (if a < 0 then -1 else if a > 0 then 1 else compare_parts as [])"
| "compare_parts [] (b # bs) = (if 0 < b then -1 else if 0 > b then 1 else compare_parts [] bs)"
| "compare_parts (a # as) (b # bs) =
     (if a < b then -1 else if a > b then 1 else compare_parts as bs)"

definition semverCompare :: "string \<Rightarrow> string \<Rightarrow> int" where
  "semverCompare a b = compare_parts (splitVersion a) (splitVersion b)"

definition negotiateVersion :: "string \<Rightarrow> string" where
  "negotiateVersion requested =
     (if requested = [] then WireProtocolLegacyVersion
      else if semverCompare requested ''1.1'' < 0 then WireProtocolLegacyVersion
      else if semverCompare requested WireProtocolVersion > 0 then WireProtocolVersion
      else requested)"

section \<open>Comparison\<close>

text \<open>
  The specification: a version is the infinite sequence of its parts, zero from some point on, and
  the order is decided at the first difference.
\<close>

definition part :: "int list \<Rightarrow> nat \<Rightarrow> int" where
  "part xs i = (if i < length xs then xs ! i else 0)"

definition before :: "int list \<Rightarrow> int list \<Rightarrow> bool" where
  "before xs ys \<longleftrightarrow> (\<exists>i. (\<forall>j < i. part xs j = part ys j) \<and> part xs i < part ys i)"

lemma part_Nil [simp]: "part [] i = 0"
  by (simp add: part_def)

lemma part_Cons [simp]: "part (x # xs) 0 = x" "part (x # xs) (Suc i) = part xs i"
  by (simp_all add: part_def)

lemma before_step:
  assumes "part xs 0 = x" "part ys 0 = y" "\<And>i. part xs (Suc i) = part xs' i"
    "\<And>i. part ys (Suc i) = part ys' i"
  shows "before xs ys \<longleftrightarrow> x < y \<or> x = y \<and> before xs' ys'"
proof
  assume "before xs ys"
  then obtain i where i: "\<forall>j < i. part xs j = part ys j" "part xs i < part ys i"
    by (auto simp: before_def)
  show "x < y \<or> x = y \<and> before xs' ys'"
  proof (cases i)
    case 0
    with i assms show ?thesis by simp
  next
    case (Suc k)
    with i(1) have "x = y" "\<forall>j < k. part xs' j = part ys' j" using assms by force+
    moreover have "part xs' k < part ys' k" using i(2) Suc assms by simp
    ultimately show ?thesis by (auto simp: before_def)
  qed
next
  assume "x < y \<or> x = y \<and> before xs' ys'"
  then show "before xs ys"
  proof
    assume "x < y"
    then show ?thesis using assms by (auto simp: before_def intro: exI [of _ 0])
  next
    assume "x = y \<and> before xs' ys'"
    then obtain k where "x = y" "\<forall>j < k. part xs' j = part ys' j" "part xs' k < part ys' k"
      by (auto simp: before_def)
    then show ?thesis
      using assms unfolding before_def
      by (intro exI [of _ "Suc k"]) (auto simp: less_Suc_eq_0_disj)
  qed
qed

lemma before_Nil [simp]: "\<not> before [] []"
  by (simp add: before_def)

lemma before_Cons_Cons: "before (x # xs) (y # ys) \<longleftrightarrow> x < y \<or> x = y \<and> before xs ys"
  by (rule before_step) simp_all

lemma before_Cons_Nil: "before (x # xs) [] \<longleftrightarrow> x < 0 \<or> x = 0 \<and> before xs []"
  by (rule before_step) simp_all

lemma before_Nil_Cons: "before [] (y # ys) \<longleftrightarrow> 0 < y \<or> 0 = y \<and> before [] ys"
  by (rule before_step) simp_all

lemmas before_simps = before_Cons_Cons before_Cons_Nil before_Nil_Cons

lemma compare_parts_spec:
  "compare_parts xs ys = (if before xs ys then -1 else if before ys xs then 1 else 0)"
  by (induction xs ys rule: compare_parts.induct) (auto simp: before_simps)

lemma before_irrefl: "\<not> before xs xs"
  by (auto simp: before_def)

lemma before_trans:
  assumes "before xs ys" "before ys zs"
  shows "before xs zs"
proof -
  obtain i where i: "\<forall>j < i. part xs j = part ys j" "part xs i < part ys i"
    using assms(1) by (auto simp: before_def)
  obtain k where k: "\<forall>j < k. part ys j = part zs j" "part ys k < part zs k"
    using assms(2) by (auto simp: before_def)
  show ?thesis
    unfolding before_def
  proof (intro exI [of _ "min i k"] conjI allI impI)
    fix j assume "j < min i k"
    with i(1) k(1) show "part xs j = part zs j" by simp
  next
    consider "i < k" | "i = k" | "k < i" by linarith
    then show "part xs (min i k) < part zs (min i k)"
    proof cases
      case 1
      with i(2) k(1) show ?thesis by (simp add: min_def)
    next
      case 2
      with i(2) k(2) show ?thesis by simp
    next
      case 3
      with i(1) k(2) show ?thesis by (simp add: min_def)
    qed
  qed
qed

lemma before_total: "before xs ys \<or> before ys xs \<or> part xs = part ys"
proof (rule ccontr)
  assume no: "\<not> ?thesis"
  then obtain i where "part xs i \<noteq> part ys i" by (auto simp: fun_eq_iff)
  define k where "k = (LEAST i. part xs i \<noteq> part ys i)"
  have ne: "part xs k \<noteq> part ys k"
    unfolding k_def using \<open>part xs i \<noteq> part ys i\<close> by (rule LeastI)
  have eq: "part xs j = part ys j" if "j < k" for j
    using not_less_Least [of j "\<lambda>i. part xs i \<noteq> part ys i"] that by (simp add: k_def)
  have "before xs ys" if "part xs k < part ys k"
    unfolding before_def using that eq by (intro exI [of _ k]) simp
  moreover have "before ys xs" if "part ys k < part xs k"
    unfolding before_def using that eq by (intro exI [of _ k]) simp
  ultimately show False using no ne by linarith
qed

section \<open>Numbers\<close>

lemma atoi_from_digits:
  "list_all is_digit s \<Longrightarrow>
    atoi_from (word_of_nat n) s = word_of_nat (foldl (\<lambda>n c. n * 10 + digit_val c) n s)"
proof (induction s arbitrary: n)
  case (Cons c s)
  then show ?case using Cons.IH [of "n * 10 + digit_val c"] by simp
qed simp

lemma sint_of_nat_small: "n < 2 ^ 63 \<Longrightarrow> sint (word_of_nat n :: 64 word) = int n"
  by (simp add: signed_of_nat [where 'a = int, simplified] signed_take_bit_int_eq_self)

lemma atoi_show_nat: "n < 2 ^ 63 \<Longrightarrow> atoi (show_nat n) = int n"
  using atoi_from_digits [OF show_nat_digits, of 0 n] foldl_show_nat [of n]
  by (simp add: atoi_def sint_of_nat_small)

lemma split_dots_digits:
  "list_all is_digit ds \<Longrightarrow> split_dots cur (ds @ s) = split_dots (cur @ ds) s"
  by (induction ds arbitrary: cur) (auto simp: is_digit_def)

lemma splitVersion_two:
  assumes "a < 2 ^ 63" and "b < 2 ^ 63"
  shows "splitVersion (show_nat a @ ''.'' @ show_nat b) = [int a, int b]"
  using split_dots_digits [OF show_nat_digits, of "[]" a "''.'' @ show_nat b"]
    split_dots_digits [OF show_nat_digits, of "[]" b "[]"] assms
  by (simp add: splitVersion_def atoi_show_nat)

lemma splitVersion_consts: "splitVersion ''1.1'' = [1, 1]" "splitVersion ''1.10'' = [1, 10]"
  by code_simp+

lemma semverCompare_cases: "semverCompare a b \<in> {-1, 0, 1}"
  by (simp add: semverCompare_def compare_parts_spec)

lemma semverCompare_less: "semverCompare a b < 0 \<longleftrightarrow> before (splitVersion a) (splitVersion b)"
  by (simp add: semverCompare_def compare_parts_spec)

lemma semverCompare_antisym: "semverCompare b a = - semverCompare a b"
  using before_trans before_irrefl by (simp add: semverCompare_def compare_parts_spec) blast

lemma semverCompare_refl [simp]: "semverCompare a a = 0"
  by (simp add: semverCompare_def compare_parts_spec before_irrefl)

lemma negotiate_legacy: "negotiateVersion WireProtocolLegacyVersion = WireProtocolLegacyVersion"
  by code_simp

lemma negotiate_current: "negotiateVersion WireProtocolVersion = WireProtocolVersion"
  by code_simp

section \<open>Properties\<close>

text \<open>C38: \<open>semverCompare\<close> decides the order of two versions at the first dot-separated number in which
  they differ, a missing number counting as zero, and gives the opposite sign when its arguments are
  swapped.\<close>

theorem semver_first_difference:
  "semverCompare a b =
     (if \<exists>i. (\<forall>j \<in> {..<i}. part (splitVersion a) j = part (splitVersion b) j) \<and>
              part (splitVersion a) i < part (splitVersion b) i then -1
      else if part (splitVersion a) = part (splitVersion b) then 0 else 1) \<and>
   semverCompare b a = - semverCompare a b"
proof (intro conjI semverCompare_antisym)
  have "\<not> before (splitVersion b) (splitVersion a)" if "part (splitVersion a) = part (splitVersion b)"
    using that by (simp add: before_def)
  then show "semverCompare a b =
     (if \<exists>i. (\<forall>j \<in> {..<i}. part (splitVersion a) j = part (splitVersion b) j) \<and>
              part (splitVersion a) i < part (splitVersion b) i then -1
      else if part (splitVersion a) = part (splitVersion b) then 0 else 1)"
    using before_total [of "splitVersion a" "splitVersion b"]
    unfolding semverCompare_def compare_parts_spec before_def [of "splitVersion a", symmetric]
    by (auto simp: before_def)
qed

theorem semver_first_difference_witness:
  "semverCompare ''1.9'' ''1.10'' = -1 \<and> semverCompare ''1.10'' ''1.9'' = 1"
  using semver_first_difference [of "''1.9''" "''1.10''"] by (simp add: semverCompare_def splitVersion_def atoi_def is_digit_def digit_val_def)

text \<open>C39: Whatever the client asks for, the negotiated version is the legacy version or lies between
  1.1 and the server's own version; it is the requested version or one of the two constants; and
  negotiating it again gives it back.\<close>

theorem negotiated_in_range:
  "(negotiateVersion r = WireProtocolLegacyVersion \<or>
      semverCompare (negotiateVersion r) ''1.1'' \<ge> 0 \<and>
      semverCompare (negotiateVersion r) WireProtocolVersion \<le> 0) \<and>
   negotiateVersion r \<in> {WireProtocolLegacyVersion, WireProtocolVersion, r} \<and>
   negotiateVersion (negotiateVersion r) = negotiateVersion r"
proof -
  have "semverCompare WireProtocolVersion ''1.1'' \<ge> 0" by code_simp
  then show ?thesis
    using negotiate_legacy negotiate_current
    by (simp add: negotiateVersion_def [of r])
qed

text \<open>A version of two numbers below 2^63 is compared number by number: below 1.1 the server
  falls back to the legacy version, above 1.10 it answers with its own, and in between it accepts
  the version as it was written.\<close>

theorem negotiate_two_numbers:
  assumes "a < 2 ^ 63" and "b < 2 ^ 63"
  shows "negotiateVersion (show_nat a @ ''.'' @ show_nat b) =
    (if a = 0 \<or> a = 1 \<and> b = 0 then WireProtocolLegacyVersion
     else if a > 1 \<or> b > 10 then WireProtocolVersion
     else show_nat a @ ''.'' @ show_nat b)"
proof -
  have "compare_parts [int a, int b] [1, 1] < 0 \<longleftrightarrow> a = 0 \<or> a = 1 \<and> b = 0"
    "compare_parts [int a, int b] [1, 10] > 0 \<longleftrightarrow> a > 1 \<or> a = 1 \<and> b > 10" by auto
  then show ?thesis
    unfolding negotiateVersion_def semverCompare_def splitVersion_two [OF assms] splitVersion_consts
    by auto
qed

theorem negotiate_two_numbers_witness:
  "negotiateVersion ''1.9'' = ''1.9'' \<and> negotiateVersion ''1.11'' = ''1.10''"
proof -
  have "show_nat 1 = ''1''" "show_nat 9 = ''9''" "show_nat 11 = ''11''" by code_simp+
  then show ?thesis
    using negotiate_two_numbers [of 1 9] negotiate_two_numbers [of 1 11] by simp
qed

text \<open>A number of 2^64 + 1 wraps around to 1, so this version passes for 1.1.\<close>

lemma wrapped_version_accepted:
  "negotiateVersion ''1.18446744073709551617'' = ''1.18446744073709551617''"
  by code_simp

end
