(* ===== verification/Server_State.thy ===== *)
theory Server_State
  imports Version Transports Redact Messages
begin

text \<open>
  The state of \<open>server/server.go\<close>, \<open>New\<close> and the options of \<open>server/options.go\<close>, the error
  constants and \<open>sendError\<close> of \<open>server/errors.go\<close>, and the writing functions \<open>writeMessage\<close>,
  \<open>emitEvent\<close>, \<open>sendResponse\<close>.

  The pointers of the code are indices: a turn is an index into \<open>turns\<close>, a response channel an index
  into \<open>chans\<close>, an operation's \<open>done\<close> channel a value of \<open>done_ref\<close>. A context is its error, \<open>None\<close>
  while it is alive. Two fields are not in the code and are read by no operation: \<open>written\<close> records
  every line handed to the transport with the result of the call, \<open>logs\<close> what \<open>logf\<close> was given.
\<close>

section \<open>State\<close>

record hook_subscription =
  hs_id :: string
  hs_event :: string
  hs_matcher :: "regexp option"
  hs_timeout :: int                 \<comment> \<open>\<open>time.Duration\<close>, nanoseconds\<close>

text \<open>
  \<open>turn\<close> of \<open>server/turn.go\<close>: \<open>tn_ctx\<close> is the error of its own cancellation, \<open>tn_steer\<close> the channel
  of capacity 1, \<open>tn_done\<close> whether \<open>done\<close> is closed.
\<close>

record turn =
  tn_ctx :: "go_error option"
  tn_steer :: "user_input list"
  tn_done :: bool
  tn_closed :: bool
  tn_cancelled :: bool

text \<open>\<open>activeOperation\<close>: what its \<open>cancel\<close> cancels and its \<open>done\<close> waits for.\<close>

datatype op_ref = TurnOp nat | ReplayOp nat

text \<open>A replay in progress: the error of its context, and whether \<open>done\<close> is closed.\<close>

record replay =
  rp_ctx :: "go_error option"
  rp_done :: bool

record 't server =
  transport :: 't
  writer :: "'t line_writer"
  info :: server_info
  slashCmds :: "slash_command_info list option"
  toolValidator :: "external_tool \<Rightarrow> go_error option"
  supportedHooks :: "string list option"
  defaultTimeout :: int
  handshakeDone :: bool
  negotiated :: string
  clientCaps :: client_capabilities
  serverCaps :: server_capabilities
  hooks :: "(string \<times> hook_subscription) list"
  activeTurn :: "nat option"
  activeOp :: "op_ref option"
  requestCounter :: u64
  pending :: "(string \<times> nat) list"
  serveCtx :: "go_error option"
  dispatchCh :: "raw_wire_message list"
  serving :: bool
  turns :: "turn list"
  replays :: "replay list"
  chans :: "raw_wire_message option list"
  written :: "(line \<times> go_error option) list"
  logs :: "(string \<times> string) list"

text \<open>The slice of supported hooks as a list, nil being empty.\<close>

definition slice :: "'a list option \<Rightarrow> 'a list" where
  "slice s = (case s of None \<Rightarrow> [] | Some xs \<Rightarrow> xs)"

section \<open>New and the options\<close>

definition New_base :: "'t \<Rightarrow> 't line_writer \<Rightarrow> 't server" where
  "New_base t w = \<lparr>
     transport = t, writer = w,
     info = \<lparr>sv_name = ''kimi-wire-server'', sv_version = ''0.3.0''\<rparr>,
     slashCmds = Some [], toolValidator = (\<lambda>_. None), supportedHooks = Some [],
     defaultTimeout = 0, handshakeDone = False, negotiated = WireProtocolLegacyVersion,
     clientCaps = zero_client_capabilities, serverCaps = zero_server_capabilities, hooks = [],
     activeTurn = None, activeOp = None, requestCounter = 0, pending = [], serveCtx = None,
     dispatchCh = [], serving = False, turns = [], replays = [], chans = [], written = [], logs = []\<rparr>"

datatype option_fn =
    WithServerInfo string string
  | WithSlashCommands "slash_command_info list"
  | WithExternalToolValidator "external_tool \<Rightarrow> go_error option"
  | WithSupportedHooks "string list option"
  | WithDefaultRequestTimeout int

text \<open>
  \<open>WithLogger\<close> has no counterpart: \<open>logs\<close> keeps what any logger is given. The panics on nil
  arguments have none either. \<open>append(nil, cmds...)\<close> is nil when there is
  nothing to append.
\<close>

fun apply_option :: "option_fn \<Rightarrow> 't server \<Rightarrow> 't server" where
  "apply_option (WithServerInfo n v) s = s\<lparr>info := \<lparr>sv_name = n, sv_version = v\<rparr>\<rparr>"
| "apply_option (WithSlashCommands cs) s = s\<lparr>slashCmds := if cs = [] then None else Some cs\<rparr>"
| "apply_option (WithExternalToolValidator f) s = s\<lparr>toolValidator := f\<rparr>"
| "apply_option (WithSupportedHooks es) s = s\<lparr>supportedHooks := es\<rparr>"
| "apply_option (WithDefaultRequestTimeout d) s = s\<lparr>defaultTimeout := d\<rparr>"

definition New :: "'t \<Rightarrow> 't line_writer \<Rightarrow> option_fn list \<Rightarrow> 't server" where
  "New t w opts = fold apply_option opts (New_base t w)"

section \<open>Errors\<close>

abbreviation codeTurnInProgress :: int where "codeTurnInProgress \<equiv> -32000"
abbreviation codeNoTurnInProgress :: int where "codeNoTurnInProgress \<equiv> -32001"
abbreviation codeQuestionNotSupported :: int where "codeQuestionNotSupported \<equiv> -32000"
abbreviation codePlanModeNotSupported :: int where "codePlanModeNotSupported \<equiv> -32000"
abbreviation codeParseError :: int where "codeParseError \<equiv> -32700"
abbreviation codeInvalidRequest :: int where "codeInvalidRequest \<equiv> -32600"
abbreviation codeMethodNotFound :: int where "codeMethodNotFound \<equiv> -32601"
abbreviation codeInvalidParams :: int where "codeInvalidParams \<equiv> -32602"
abbreviation codeInternalError :: int where "codeInternalError \<equiv> -32603"

definition marshalJSONRPCError :: "string \<Rightarrow> int \<Rightarrow> string \<Rightarrow> json" where
  "marshalJSONRPCError i code msg =
     rpc_error i \<lparr>je_code = code, je_message = RedactString msg, je_data = None\<rparr>"

section \<open>Logging and writing\<close>

text \<open>\<open>s.logf(format, redact.RedactString(text))\<close>.\<close>

definition logf :: "string \<Rightarrow> string \<Rightarrow> 't server \<Rightarrow> 't server" where
  "logf fmt msg s = s\<lparr>logs := logs s @ [(fmt, RedactString msg)]\<rparr>"

text \<open>\<open>s.transport.WriteLine(ctx, line)\<close>.\<close>

definition write_line :: "go_error option \<Rightarrow> json \<Rightarrow> 't server \<Rightarrow> go_error option \<times> 't server" where
  "write_line ctx j s = (let (e, t) = writer s ctx (Inr j) (transport s) in
     (e, s\<lparr>transport := t, written := written s @ [(Inr j, e)]\<rparr>))"

definition sendError :: "string \<Rightarrow> int \<Rightarrow> string \<Rightarrow> 't server \<Rightarrow> go_error option \<times> 't server" where
  "sendError i code msg s =
     (let (e, s1) = write_line (serveCtx s) (marshalJSONRPCError i code msg) s in
      case e of
        None \<Rightarrow> (None, s1)
      | Some err \<Rightarrow> (Some err, logf ''failed to write error response: %v'' (error_text err) s1))"

definition writeMessage ::
    "go_error option \<Rightarrow> derr + json \<Rightarrow> 't server \<Rightarrow> go_error option \<times> 't server" where
  "writeMessage ctx msg s = (case msg of
     Inl e \<Rightarrow> (Some (DecErr e), s)
   | Inr j \<Rightarrow> write_line ctx j s)"

definition emitEvent ::
    "go_error option \<Rightarrow> event option \<Rightarrow> 't server \<Rightarrow> go_error option \<times> 't server" where
  "emitEvent ctx event s = (case MarshalEvent event of
     Inl e \<Rightarrow> (Some (DecErr e), s)
   | Inr payload \<Rightarrow> writeMessage ctx (Inr (rpc_notification ''event'' payload)) s)"

definition sendResponse :: "string \<Rightarrow> json \<Rightarrow> 't server \<Rightarrow> go_error option \<times> 't server" where
  "sendResponse i result s =
     (let (e, s1) = writeMessage (serveCtx s) (Inr (rpc_success i result)) s in
      case e of
        None \<Rightarrow> (None, s1)
      | Some err \<Rightarrow> (Some err, logf ''failed to write response: %v'' (error_text err) s1))"

text \<open>Calls whose error result the code drops: \<open>_ = s.sendError(...)\<close>.\<close>

definition send_error :: "string \<Rightarrow> int \<Rightarrow> string \<Rightarrow> 't server \<Rightarrow> 't server" where
  "send_error i code msg s = snd (sendError i code msg s)"

definition send_response :: "string \<Rightarrow> json \<Rightarrow> 't server \<Rightarrow> 't server" where
  "send_response i result s = snd (sendResponse i result s)"

section \<open>Lines of the server\<close>

text \<open>The id of a response line. Every line that the server writes and that reads as a response is one.\<close>

fun response_id :: "line \<Rightarrow> string option" where
  "response_id (Inr (JObj [_, (k, JStr i), _])) = (if k = ''id'' then Some i else None)"
| "response_id _ = None"

definition sent_line :: "line \<Rightarrow> bool" where
  "sent_line l \<longleftrightarrow> (\<forall>m. parse_line l = Inr m \<longrightarrow> rw_method m = [] \<longrightarrow> rw_id m \<noteq> [] \<longrightarrow>
     response_id l = Some (rw_id m))"

lemma sent_line_shapes [simp]:
  "sent_line (Inr (rpc_success i r))" "sent_line (Inr (rpc_notification mth p))"
  "mth \<noteq> [] \<Longrightarrow> sent_line (Inr (rpc_request mth i p))"
  by (simp_all add: sent_line_def parse_rpc) (simp add: rpc_success_def)

lemma sent_line_error [simp]: "sent_line (Inr (marshalJSONRPCError i c m))"
proof -
  have "rw_id msg = i" if "parse_line (Inr (rpc_error i e)) = Inr msg" for e msg
    using that by (cases "dec_jsonrpc_error zero_jsonrpc_error (enc_jsonrpc_error e)")
      (auto simp: codec raw_defs rpc_error_def dec_ptr_nonnull)
  then show ?thesis by (auto simp: sent_line_def marshalJSONRPCError_def) (simp add: rpc_error_def)
qed

definition sent_since :: "'t server \<Rightarrow> 't server \<Rightarrow> bool" where
  "sent_since s s' \<longleftrightarrow> (\<exists>ws. written s' = written s @ ws \<and> (\<forall>w \<in> set ws. sent_line (fst w)))"

lemma sent_since_refl [simp]: "sent_since s s"
  by (simp add: sent_since_def)

lemma sent_since_trans: "sent_since s s' \<Longrightarrow> sent_since s' s'' \<Longrightarrow> sent_since s s''"
  by (fastforce simp: sent_since_def)

lemma sent_since_same: "written s' = written s \<Longrightarrow> sent_since s s'"
  by (simp add: sent_since_def)

section \<open>What a write changes\<close>

text \<open>
  \<open>quiet s s'\<close>: the two states differ in the transport, by what was sent and in the logs only.
\<close>

definition quiet :: "'t server \<Rightarrow> 't server \<Rightarrow> bool" where
  "quiet s s' \<longleftrightarrow> s' = s\<lparr>transport := transport s', written := written s', logs := logs s'\<rparr> \<and> sent_since s s'"

lemma quiet_refl [simp]: "quiet s s"
  by (simp add: quiet_def)

lemma quiet_trans: "quiet s s' \<Longrightarrow> quiet s' s'' \<Longrightarrow> quiet s s''"
  unfolding quiet_def using sent_since_trans by (cases s; cases s'; cases s''; simp; blast)

lemma quiet_fields:
  assumes "quiet s s'"
  shows "writer s' = writer s" "info s' = info s" "slashCmds s' = slashCmds s"
    "toolValidator s' = toolValidator s" "supportedHooks s' = supportedHooks s"
    "defaultTimeout s' = defaultTimeout s" "handshakeDone s' = handshakeDone s"
    "negotiated s' = negotiated s" "clientCaps s' = clientCaps s" "serverCaps s' = serverCaps s"
    "hooks s' = hooks s" "activeTurn s' = activeTurn s" "activeOp s' = activeOp s"
    "requestCounter s' = requestCounter s" "pending s' = pending s" "serveCtx s' = serveCtx s"
    "dispatchCh s' = dispatchCh s" "serving s' = serving s" "turns s' = turns s"
    "replays s' = replays s" "chans s' = chans s"
  using assms by (cases s; cases s'; simp add: quiet_def)+

lemma quiet_logf [simp]: "quiet s (logf f m s)"
  by (cases s) (simp add: quiet_def logf_def sent_since_def)

lemma quiet_write_line: "sent_line (Inr j) \<Longrightarrow> quiet s (snd (write_line ctx j s))"
  by (cases s) (simp add: quiet_def write_line_def sent_since_def split: prod.split)

lemma written_write_line:
  "written (snd (write_line ctx j s)) = written s @ [(Inr j, fst (write_line ctx j s))]"
  by (simp add: write_line_def split: prod.split)

lemma written_logf [simp]: "written (logf f m s) = written s"
  by (simp add: logf_def)

lemma quiet_send_error [simp]: "quiet s (send_error i c m s)"
  using quiet_write_line [of "marshalJSONRPCError i c m" s "serveCtx s", OF sent_line_error]
  by (auto simp: send_error_def sendError_def split: prod.splits option.splits
      intro: quiet_trans [OF _ quiet_logf])

lemma written_send_error:
  "\<exists>e. written (send_error i c m s) = written s @ [(Inr (marshalJSONRPCError i c m), e)]"
  using written_write_line [of "serveCtx s" "marshalJSONRPCError i c m" s]
  by (auto simp: send_error_def sendError_def split: prod.splits option.splits)

lemma quiet_sendResponse: "quiet s (snd (sendResponse i r s))"
  using quiet_write_line [of "rpc_success i r" s "serveCtx s"]
  by (auto simp: sendResponse_def writeMessage_def split: prod.splits option.splits
      intro: quiet_trans [OF _ quiet_logf])

lemma quiet_send_response [simp]: "quiet s (send_response i r s)"
  by (simp add: send_response_def quiet_sendResponse)

lemma written_sendResponse:
  "\<exists>e. written (snd (sendResponse i r s)) = written s @ [(Inr (rpc_success i r), e)]"
  using written_write_line [of "serveCtx s" "rpc_success i r" s]
  by (auto simp: sendResponse_def writeMessage_def split: prod.splits option.splits)

lemma written_send_response:
  "\<exists>e. written (send_response i r s) = written s @ [(Inr (rpc_success i r), e)]"
  by (simp add: send_response_def written_sendResponse)

lemma quiet_emitEvent: "quiet s (snd (emitEvent ctx e s))"
  by (auto simp: emitEvent_def writeMessage_def quiet_write_line split: sum.splits)

lemma written_emitEvent:
  "written (snd (emitEvent ctx (Some e) s)) = written s \<or>
   (\<exists>p r. MarshalEvent (Some e) = Inr p \<and>
     written (snd (emitEvent ctx (Some e) s)) = written s @ [(Inr (rpc_notification ''event'' p), r)])"
  by (auto simp: emitEvent_def writeMessage_def written_write_line split: sum.splits)

end
