(* ===== verification/Server_Init.thy ===== *)
theory Server_Init
  imports Server_State
begin

text \<open>
  The handlers of \<open>server/server.go\<close> that finish in one go on the serve loop: \<open>handleInitialize\<close>
  with \<open>isHookSupported\<close>, and \<open>handleSetPlanMode\<close> with the agent's emitter. \<open>regexp.Compile\<close> is the
  parameter \<open>compile\<close>, the agent's \<open>PlanModeSwitcher\<close> the parameter \<open>switcher\<close>.
\<close>

section \<open>Initialize\<close>

definition isHookSupported :: "string \<Rightarrow> 't server \<Rightarrow> bool" where
  "isHookSupported event s = list_ex (\<lambda>e. e = event) (slice (supportedHooks s))"

text \<open>\<open>append\<close> to a slice that may be nil.\<close>

definition append_slice :: "'a list option \<Rightarrow> 'a \<Rightarrow> 'a list option" where
  "append_slice xs x = Some (slice xs @ [x])"

definition validate_tools :: "(external_tool \<Rightarrow> go_error option) \<Rightarrow> external_tool list \<Rightarrow> external_tools_result" where
  "validate_tools valid tools = (let (acc, rej) = foldl (\<lambda>(acc, rej) tool. case valid tool of
       Some err \<Rightarrow> (acc, append_slice rej
         \<lparr>rt_name = et_name tool, rt_reason = RedactString (error_text err)\<rparr>)
     | None \<Rightarrow> (append_slice acc (et_name tool), rej)) (None, None) tools
   in \<lparr>er_accepted = acc, er_rejected = rej\<rparr>)"

text \<open>\<open>time.Duration(sub.Timeout) * time.Second\<close> on 64 bits.\<close>

definition seconds :: "u32 \<Rightarrow> int" where
  "seconds t = sint (word_of_nat (unat t) * 1000000000 :: 64 word)"

text \<open>One subscription: skipped when its event or its matcher is not usable.\<close>

definition compile_matcher :: "(string \<Rightarrow> regexp option) \<Rightarrow> string \<Rightarrow> regexp option option" where
  "compile_matcher compile m =
     (if m = [] then Some None else map_option Some (compile m))"

definition add_hook :: "(string \<Rightarrow> regexp option) \<Rightarrow> 't server \<Rightarrow> wire_hook_subscription \<Rightarrow>
    (string \<times> hook_subscription) list \<times> (string \<times> u32) list \<Rightarrow>
    (string \<times> hook_subscription) list \<times> (string \<times> u32) list" where
  "add_hook compile s sub = (\<lambda>(hks, configured).
     if \<not> isHookSupported (wh_event sub) s then (hks, configured)
     else case compile_matcher compile (wh_matcher sub) of
       None \<Rightarrow> (hks, configured)
     | Some m \<Rightarrow>
         (AList.update (wh_id sub) \<lparr>hs_id = wh_id sub, hs_event = wh_event sub, hs_matcher = m,
            hs_timeout = seconds (wh_timeout sub)\<rparr> hks,
          AList.update (wh_event sub)
            ((case map_of configured (wh_event sub) of None \<Rightarrow> 0 | Some n \<Rightarrow> n) + 1) configured))"

definition client_caps :: "initialize_params \<Rightarrow> client_capabilities" where
  "client_caps p = (case ip_capabilities p of None \<Rightarrow> zero_client_capabilities | Some c \<Rightarrow> c)"

definition server_caps :: "initialize_params \<Rightarrow> server_capabilities" where
  "server_caps p = zero_server_capabilities\<lparr>sk_supports_question :=
     (if cc_supports_question (client_caps p) = Some True then Some True else None)\<rparr>"

definition initialize_answer :: "'t server \<Rightarrow> initialize_params \<Rightarrow> (string \<times> u32) list \<Rightarrow> initialize_result" where
  "initialize_answer s p configured = \<lparr>
     ir_protocol_version = negotiateVersion (ip_protocol_version p),
     ir_server = info s,
     ir_slash_commands = slashCmds s,
     ir_external_tools = (if ip_external_tools p = [] then None
       else Some (validate_tools (toolValidator s) (ip_external_tools p))),
     ir_capabilities = Some (server_caps p),
     ir_hooks = (if slice (supportedHooks s) \<noteq> [] \<or> configured \<noteq> []
       then Some \<lparr>hi_supported_events = supportedHooks s, hi_configured = Some configured\<rparr>
       else None)\<rparr>"

definition handleInitialize ::
    "(string \<Rightarrow> regexp option) \<Rightarrow> string \<Rightarrow> raw_json \<Rightarrow> 't server \<Rightarrow> 't server" where
  "handleInitialize compile i params s =
     (if handshakeDone s then send_error i codeInvalidRequest ''initialize already called'' s
      else case unmarshal dec_initialize_params zero_initialize_params params of
        Inl err \<Rightarrow> send_error i codeInvalidParams (derr_text err) s
      | Inr p \<Rightarrow>
          let (hks, configured) = fold (add_hook compile s) (ip_hooks p) ([], []);
              s1 = s\<lparr>handshakeDone := True,
                     negotiated := negotiateVersion (ip_protocol_version p),
                     clientCaps := client_caps p, serverCaps := server_caps p, hooks := hks\<rparr>;
              (e, s2) = sendResponse i (enc_initialize_result (initialize_answer s p configured)) s1
          in case e of
            None \<Rightarrow> s2
          | Some err \<Rightarrow> logf ''failed to send initialize response: %v'' (error_text err) s2)"

section \<open>Plan mode\<close>

text \<open>
  What an agent does with an \<open>Emitter\<close>: return, panic, or emit an event (under a context it chooses)
  and go on according to the error it gets.
\<close>

datatype 'r emit_prog =
    EReturn "go_error + 'r"
  | EPanic string
  | EEmit "go_error option" "event option" "go_error option \<Rightarrow> 'r emit_prog"

primrec run_emit :: "'r emit_prog \<Rightarrow> 't server \<Rightarrow> (string + (go_error + 'r)) \<times> 't server" where
  "run_emit (EReturn r) s = (Inr r, s)"
| "run_emit (EPanic m) s = (Inl m, s)"
| "run_emit (EEmit ctx ev k) s = (case emitEvent ctx ev s of (e, s1) \<Rightarrow> run_emit (k e) s1)"

text \<open>
  A panic of the agent is not recovered on the serve loop: it ends the program, \<open>Inl\<close> with its text.
\<close>

definition handleSetPlanMode :: "(bool \<Rightarrow> set_plan_mode_result emit_prog) option \<Rightarrow> string \<Rightarrow> raw_json \<Rightarrow>
    't server \<Rightarrow> string + 't server" where
  "handleSetPlanMode switcher i params s =
     (if cc_supports_plan_mode (clientCaps s) \<noteq> Some True then
        Inr (send_error i codePlanModeNotSupported ''Plan mode is not supported'' s)
      else case switcher of
        None \<Rightarrow> Inr (send_error i codeMethodNotFound ''method not found'' s)
      | Some sw \<Rightarrow>
          (case unmarshal dec_set_plan_mode_params zero_set_plan_mode_params params of
             Inl err \<Rightarrow> Inr (send_error i codeInvalidParams (derr_text err) s)
           | Inr p \<Rightarrow>
               (case run_emit (sw (mp_enabled p)) s of
                  (Inl panic, s1) \<Rightarrow> Inl panic
                | (Inr (Inl err), s1) \<Rightarrow> Inr (send_error i codeInternalError (error_text err) s1)
                | (Inr (Inr result), s1) \<Rightarrow>
                    Inr (send_response i (enc_set_plan_mode_result result) s1))))"

section \<open>Answers\<close>

text \<open>\<open>response_to i l\<close>: the line is a success or an error response with id \<open>i\<close>.\<close>

definition response_to :: "string \<Rightarrow> line \<Rightarrow> bool" where
  "response_to i l \<longleftrightarrow> (\<exists>r. l = Inr (rpc_success i r)) \<or> (\<exists>c m. l = Inr (marshalJSONRPCError i c m))"

definition is_event_line :: "line \<Rightarrow> bool" where
  "is_event_line l \<longleftrightarrow> (\<exists>p. l = Inr (rpc_notification ''event'' p))"

text \<open>\<open>answered i s s'\<close>: between the two states events were written, and then one response to \<open>i\<close>.\<close>

definition answered :: "string \<Rightarrow> 't server \<Rightarrow> 't server \<Rightarrow> bool" where
  "answered i s s' \<longleftrightarrow> (\<exists>evs l e. written s' = written s @ evs @ [(l, e)] \<and> response_to i l \<and>
     list_all (\<lambda>(l, e). is_event_line l) evs)"

lemma response_to_simps [simp]:
  "response_to i (Inr (rpc_success i r))" "response_to i (Inr (marshalJSONRPCError i c m))"
  unfolding response_to_def by blast+

lemma answered_one: "written s' = written s @ [(l, e)] \<Longrightarrow> response_to i l \<Longrightarrow> answered i s s'"
  by (auto simp: answered_def intro!: exI [of _ "[]"])

lemma answered_send_error [simp]: "answered i s (send_error i c m s)"
  using written_send_error [of i c m s] by (auto intro: answered_one)

lemma answered_send_response [simp]: "answered i s (send_response i r s)"
  using written_send_response [of i r s] by (auto intro: answered_one)

lemma answered_sendResponse: "sendResponse i r s = (e, s') \<Longrightarrow> answered i s s'"
  using written_sendResponse [of i r s] by (auto intro: answered_one)

lemma answered_logf [simp]: "answered i s (logf f m s') = answered i s s'"
  by (simp add: answered_def)

lemma answered_written: "written s1 = written s \<Longrightarrow> answered i s1 s' = answered i s s'"
  by (simp add: answered_def)

lemma answered_after_events:
  assumes "answered i s1 s'" and "written s1 = written s @ evs"
    and "list_all (\<lambda>(l, e). is_event_line l) evs"
  shows "answered i s s'"
  using assms by (force simp: answered_def)

lemma run_emit_quiet: "run_emit p s = (r, s') \<Longrightarrow> quiet s s'"
proof (induction p arbitrary: s)
  case (EEmit ctx ev k)
  obtain e s1 where 1: "emitEvent ctx ev s = (e, s1)" by fastforce
  with EEmit.prems have 2: "run_emit (k e) s1 = (r, s')" by simp
  from EEmit.IH [OF rangeI 2] quiet_emitEvent [of s ctx ev] 1 show ?case
    by (auto intro: quiet_trans)
qed auto

lemma written_emit_events:
  "\<exists>evs. written (snd (emitEvent ctx ev s)) = written s @ evs \<and>
     list_all (\<lambda>(l, e). is_event_line l) evs"
  by (auto simp: emitEvent_def writeMessage_def written_write_line is_event_line_def split: sum.splits)

lemma run_emit_events:
  "run_emit p s = (r, s') \<Longrightarrow>
    \<exists>evs. written s' = written s @ evs \<and> list_all (\<lambda>(l, e). is_event_line l) evs"
proof (induction p arbitrary: s)
  case (EEmit ctx ev k)
  obtain e s1 where 1: "emitEvent ctx ev s = (e, s1)" by fastforce
  with EEmit.prems have 2: "run_emit (k e) s1 = (r, s')" by simp
  from EEmit.IH [OF rangeI 2] written_emit_events [of ctx ev s] 1 show ?case by force
qed auto

lemma handleInitialize_answers: "answered i s (handleInitialize compile i params s)"
  by (auto simp: handleInitialize_def answered_written [of "s\<lparr>handshakeDone := True,
        negotiated := n, clientCaps := c, serverCaps := sc, hooks := h\<rparr>" s for n c sc h]
      dest!: answered_sendResponse split: sum.split prod.splits option.splits)

lemma handleSetPlanMode_answers:
  assumes "handleSetPlanMode switcher i params s = Inr s'"
  shows "answered i s s'"
  using assms run_emit_events
  by (fastforce simp: handleSetPlanMode_def split: if_splits option.splits sum.splits prod.splits
      intro: answered_after_events [OF answered_send_error] answered_after_events [OF answered_send_response])

section \<open>Subscriptions\<close>

text \<open>The subscriptions that \<open>initialize\<close> accepts, and the entry of one of them.\<close>

definition usable :: "(string \<Rightarrow> regexp option) \<Rightarrow> 't server \<Rightarrow> wire_hook_subscription \<Rightarrow> bool" where
  "usable compile s sub \<longleftrightarrow>
     wh_event sub \<in> set (slice (supportedHooks s)) \<and> (wh_matcher sub = [] \<or> compile (wh_matcher sub) \<noteq> None)"

definition hook_entry :: "(string \<Rightarrow> regexp option) \<Rightarrow> wire_hook_subscription \<Rightarrow> hook_subscription" where
  "hook_entry compile sub = \<lparr>hs_id = wh_id sub, hs_event = wh_event sub,
     hs_matcher = (if wh_matcher sub = [] then None else compile (wh_matcher sub)),
     hs_timeout = seconds (wh_timeout sub)\<rparr>"

lemma add_hook_usable:
  "add_hook compile s sub (hks, conf) =
     (if usable compile s sub
      then (AList.update (wh_id sub) (hook_entry compile sub) hks,
        AList.update (wh_event sub)
          ((case map_of conf (wh_event sub) of None \<Rightarrow> 0 | Some n \<Rightarrow> n) + 1) conf)
      else (hks, conf))"
  by (auto simp: add_hook_def usable_def compile_matcher_def hook_entry_def isHookSupported_def
      list_ex_iff split: option.split)

definition last_usable :: "(string \<Rightarrow> regexp option) \<Rightarrow> 't server \<Rightarrow> wire_hook_subscription list \<Rightarrow>
    string \<Rightarrow> hook_subscription option" where
  "last_usable compile s subs i =
     map_option (hook_entry compile) (find (\<lambda>sub. usable compile s sub \<and> wh_id sub = i) (rev subs))"

definition usable_count :: "(string \<Rightarrow> regexp option) \<Rightarrow> 't server \<Rightarrow> wire_hook_subscription list \<Rightarrow>
    string \<Rightarrow> nat" where
  "usable_count compile s subs ev =
     length (filter (\<lambda>sub. usable compile s sub \<and> wh_event sub = ev) subs)"

definition hook_tables :: "(string \<Rightarrow> regexp option) \<Rightarrow> 't server \<Rightarrow> wire_hook_subscription list \<Rightarrow>
    (string \<times> hook_subscription) list \<times> (string \<times> u32) list" where
  "hook_tables compile s subs = fold (add_hook compile s) subs ([], [])"

lemma hook_tables_snoc:
  "hook_tables compile s (subs @ [sub]) = add_hook compile s sub (hook_tables compile s subs)"
  by (simp add: hook_tables_def)

lemma hook_tables_correct:
  "hook_tables compile s subs = (hks, conf) \<Longrightarrow>
    map_of hks i = last_usable compile s subs i \<and>
    map_of conf ev = (let n = usable_count compile s subs ev in
      if n = 0 then None else Some (word_of_nat n)) \<and>
    distinct (map fst hks) \<and> distinct (map fst conf)"
proof (induction subs arbitrary: hks conf i ev rule: rev_induct)
  case Nil
  then show ?case by (simp add: hook_tables_def last_usable_def usable_count_def)
next
  case (snoc sub subs)
  obtain hks0 conf0 where 0: "hook_tables compile s subs = (hks0, conf0)" by fastforce
  note IH = snoc.IH [OF 0]
  show ?case
  proof (cases "usable compile s sub")
    case False
    then have "hks = hks0" "conf = conf0"
      using snoc.prems 0 by (simp_all add: hook_tables_snoc add_hook_usable)
    with False IH show ?thesis by (simp add: last_usable_def usable_count_def)
  next
    case True
    let ?n = "case map_of conf0 (wh_event sub) of None \<Rightarrow> 0 | Some n \<Rightarrow> n"
    have h: "hks = AList.update (wh_id sub) (hook_entry compile sub) hks0"
      and c: "conf = AList.update (wh_event sub) (?n + 1) conf0"
      using snoc.prems 0 True by (simp_all add: hook_tables_snoc add_hook_usable)
    have n: "?n = word_of_nat (usable_count compile s subs (wh_event sub))"
      using IH [of _ "wh_event sub"] by (auto simp: Let_def split: if_splits)
    show ?thesis
      unfolding h c n
      using IH True
      by (auto simp: update_conv' last_usable_def usable_count_def distinct_update Let_def)
  qed
qed

lemma seconds_exact: "seconds t = int (unat t) * 1000000000"
proof -
  have "unat t * 1000000000 < 2 ^ 63"
    using unat_u32_less [of t] by simp
  then have "sint (word_of_nat (unat t * 1000000000) :: 64 word) = int (unat t * 1000000000)"
    by (rule sint_of_nat_small)
  then show ?thesis by (simp add: seconds_def)
qed

lemma handleInitialize_first:
  assumes "\<not> handshakeDone s" and "unmarshal dec_initialize_params zero_initialize_params params = Inr p"
    and "hook_tables compile s (ip_hooks p) = (hks, conf)"
  shows "\<exists>t w l. handleInitialize compile i params s =
      s\<lparr>handshakeDone := True, negotiated := negotiateVersion (ip_protocol_version p),
        clientCaps := client_caps p, serverCaps := server_caps p, hooks := hks,
        transport := t, written := w, logs := l\<rparr> \<and>
    (\<exists>e. w = written s @ [(Inr (rpc_success i (enc_initialize_result (initialize_answer s p conf))), e)])"
proof -
  let ?s1 = "s\<lparr>handshakeDone := True, negotiated := negotiateVersion (ip_protocol_version p),
        clientCaps := client_caps p, serverCaps := server_caps p, hooks := hks\<rparr>"
  let ?j = "enc_initialize_result (initialize_answer s p conf)"
  obtain e s2 where send: "sendResponse i ?j ?s1 = (e, s2)" by fastforce
  let ?s' = "case e of None \<Rightarrow> s2
    | Some err \<Rightarrow> logf ''failed to send initialize response: %v'' (error_text err) s2"
  have eq: "handleInitialize compile i params s = ?s'"
    using assms send by (simp add: handleInitialize_def hook_tables_def)
  have "quiet ?s1 ?s'"
    using quiet_sendResponse [of ?s1 i ?j] send quiet_trans [OF _ quiet_logf]
    by (auto split: option.split)
  then have q: "?s' = ?s1\<lparr>transport := transport ?s', written := written ?s', logs := logs ?s'\<rparr>"
    unfolding quiet_def by blast
  have w: "\<exists>e'. written ?s' = written s @ [(Inr (rpc_success i ?j), e')]"
    using written_sendResponse [of i ?j ?s1] send by (auto split: option.split)
  show ?thesis
    unfolding eq
    by (rule exI [of _ "transport ?s'"], rule exI [of _ "written ?s'"], rule exI [of _ "logs ?s'"],
        rule conjI, rule q, rule w)
qed

lemma handleInitialize_refused:
  assumes "handshakeDone s \<or> (\<exists>err. unmarshal dec_initialize_params zero_initialize_params params = Inl err)"
  shows "quiet s (handleInitialize compile i params s) \<and>
    (\<exists>c m e. written (handleInitialize compile i params s) =
        written s @ [(Inr (marshalJSONRPCError i c m), e)])"
  using assms written_send_error [of i _ _ s]
  by (auto simp: handleInitialize_def) blast+

section \<open>Properties\<close>

text \<open>The first \<open>initialize\<close> with parameters that decode is answered once, with a result that the
  client decodes to the version, the server info and the capabilities the server keeps from then
  on; the version is in the supported range, and question support is announced exactly when the
  client has it.\<close>

lemma initialize_agreement:
  assumes "\<not> handshakeDone s" and "unmarshal dec_initialize_params zero_initialize_params params = Inr p"
    and "s' = handleInitialize compile i params s"
  shows "\<exists>r e. written s' = written s @ [(Inr (rpc_success i (enc_initialize_result r)), e)] \<and>
    dec_initialize_result zero_initialize_result (enc_initialize_result r) = Inr (norm_initialize_result r) \<and>
    handshakeDone s' \<and> ir_protocol_version (norm_initialize_result r) = negotiated s' \<and>
    negotiated s' = negotiateVersion (ip_protocol_version p) \<and>
    ir_server (norm_initialize_result r) = info s' \<and>
    ir_capabilities (norm_initialize_result r) = Some (serverCaps s') \<and>
    (sk_supports_question (serverCaps s') = Some True) =
      (cc_supports_question (clientCaps s') = Some True)"
proof -
  obtain hks conf where h: "hook_tables compile s (ip_hooks p) = (hks, conf)" by fastforce
  have "map_ok (Some conf)" using hook_tables_correct [OF h] by simp
  then have "dec_initialize_result zero_initialize_result
      (enc_initialize_result (initialize_answer s p conf)) =
    Inr (norm_initialize_result (initialize_answer s p conf))"
    by (intro dec_enc_initialize_result) (auto simp: initialize_answer_def split: if_splits)
  with handleInitialize_first [OF assms(1,2) h, of i] assms(3) show ?thesis
    by (intro exI [of _ "initialize_answer s p conf"])
      (auto simp: initialize_answer_def norm_initialize_result_def server_caps_def)
qed

text \<open>A sequence of \<open>initialize\<close> requests, and the success responses among the lines written.\<close>

definition is_success :: "line \<times> go_error option \<Rightarrow> bool" where
  "is_success le = (\<exists>i r. fst le = Inr (rpc_success i r))"

definition run_initialize :: "(string \<Rightarrow> regexp option) \<Rightarrow> (string \<times> raw_json) list \<Rightarrow> 't server \<Rightarrow> 't server" where
  "run_initialize compile reqs s = foldl (\<lambda>s (i, params). handleInitialize compile i params s) s reqs"

lemma error_not_success [simp]: "\<not> is_success (Inr (marshalJSONRPCError i c m), e)"
  by (simp add: is_success_def marshalJSONRPCError_def rpc_error_def rpc_success_def)

lemma success_is_success [simp]: "is_success (Inr (rpc_success i r), e)"
  by (auto simp: is_success_def)

lemma run_initialize_counts:
  "\<exists>ws. written (run_initialize compile reqs s) = written s @ ws \<and> length ws = length reqs \<and>
    length (filter is_success ws) =
      (if handshakeDone s \<or> \<not> handshakeDone (run_initialize compile reqs s) then 0 else 1) \<and>
    (handshakeDone s \<longrightarrow> quiet s (run_initialize compile reqs s))"
proof (induction reqs arbitrary: s)
  case Nil
  then show ?case by (simp add: run_initialize_def)
next
  case (Cons ip reqs)
  obtain i params where ip: "ip = (i, params)" by (cases ip)
  let ?s1 = "handleInitialize compile i params s"
  have run: "run_initialize compile (ip # reqs) s = run_initialize compile reqs ?s1"
    by (simp add: run_initialize_def ip)
  obtain ws where ws: "written (run_initialize compile reqs ?s1) = written ?s1 @ ws"
      "length ws = length reqs"
      "length (filter is_success ws) =
        (if handshakeDone ?s1 \<or> \<not> handshakeDone (run_initialize compile reqs ?s1) then 0 else 1)"
      "handshakeDone ?s1 \<longrightarrow> quiet ?s1 (run_initialize compile reqs ?s1)"
    using Cons.IH [of ?s1] by blast
  show ?case
  proof (cases "handshakeDone s \<or> (\<exists>err. unmarshal dec_initialize_params zero_initialize_params params = Inl err)")
    case True
    obtain c m e where q: "quiet s ?s1" and w: "written ?s1 = written s @ [(Inr (marshalJSONRPCError i c m), e)]"
      using handleInitialize_refused [OF True, of compile i] by blast
    have "handshakeDone ?s1 = handshakeDone s" using q by (rule quiet_fields)
    with ws w q show ?thesis
      unfolding run by (intro exI [of _ "(Inr (marshalJSONRPCError i c m), e) # ws"])
        (auto intro: quiet_trans)
  next
    case False
    then obtain p where p: "unmarshal dec_initialize_params zero_initialize_params params = Inr p"
      by (cases "unmarshal dec_initialize_params zero_initialize_params params") auto
    obtain hks conf where h: "hook_tables compile s (ip_hooks p) = (hks, conf)" by fastforce
    obtain r e where w: "written ?s1 = written s @ [(Inr (rpc_success i r), e)]" and d: "handshakeDone ?s1"
      using handleInitialize_first [OF _ p h, of i] False by auto
    with ws have "handshakeDone (run_initialize compile reqs ?s1)"
      using quiet_fields(7) by blast
    with ws w d False show ?thesis
      unfolding run by (intro exI [of _ "(Inr (rpc_success i r), e) # ws"]) auto
  qed
qed

text \<open>C34: Of any sequence of \<open>initialize\<close> requests, each answered with one line, at most one is
  answered with success, and none once the handshake is done; from then on further requests change
  nothing of the server but the record of what was written.\<close>

theorem initialize_at_most_once:
  "\<exists>ws. written (run_initialize compile reqs s) = written s @ ws \<and> length ws = length reqs \<and>
    (if handshakeDone s then filter is_success ws = [] \<and> quiet s (run_initialize compile reqs s)
     else length (filter is_success ws) = (if handshakeDone (run_initialize compile reqs s) then 1 else 0))"
  using run_initialize_counts [of compile reqs s] by (auto split: if_splits)

text \<open>The external tools of \<open>initialize\<close> are divided, in their order, into the accepted names,
  those the validator has nothing against, and the rejected ones, each with the validator's message
  after redaction.\<close>

theorem tools_divided:
  "slice (er_accepted (validate_tools valid tools)) =
     map et_name (filter (\<lambda>t. valid t = None) tools) \<and>
   slice (er_rejected (validate_tools valid tools)) =
     map (\<lambda>t. \<lparr>rt_name = et_name t, rt_reason = RedactString (error_text (the (valid t)))\<rparr>)
       (filter (\<lambda>t. valid t \<noteq> None) tools)"
  by (induction tools rule: rev_induct)
    (auto simp: validate_tools_def slice_def append_slice_def case_prod_unfold Let_def
      split: option.splits)

text \<open>C35: The hook table built by \<open>initialize\<close> maps an id to the last usable subscription with that
  id, and the counts announced to the client are, for each event, the number of usable
  subscriptions, events without any being absent. A subscription is usable when its event is
  supported and its matcher is empty or compiles.\<close>

theorem hook_tables_exact:
  "map_of (fst (hook_tables compile s subs)) i = last_usable compile s subs i \<and>
   map_of (snd (hook_tables compile s subs)) ev =
     (if usable_count compile s subs ev = 0 then None
      else Some (word_of_nat (usable_count compile s subs ev)))"
  using hook_tables_correct [of compile s subs "fst (hook_tables compile s subs)"
      "snd (hook_tables compile s subs)" i ev] by (simp add: Let_def)

text \<open>C36: The timeout of a hook never overflows: the 64-bit product of its seconds is the exact number
  of nanoseconds, not negative and within \<open>time.Duration\<close>.\<close>

theorem hook_timeout_exact:
  "seconds t = int (unat t) * 1000000000 \<and> 0 \<le> seconds t \<and> seconds t < 2 ^ 63"
proof -
  have "uint t < 2 ^ 32" using uint_bounded [of t] by simp
  then show ?thesis by (simp add: seconds_exact)
qed

text \<open>With two subscriptions of the same id the client is told two, but one is kept.\<close>

lemma duplicate_id_overcounted:
  "let (hks, conf) = hook_tables (\<lambda>_. None) (New () (\<lambda>_ _ t. (None, t)) [WithSupportedHooks (Some [''Stop''])])
     [\<lparr>wh_id = ''h'', wh_event = ''Stop'', wh_matcher = [], wh_timeout = 0\<rparr>,
      \<lparr>wh_id = ''h'', wh_event = ''Stop'', wh_matcher = [], wh_timeout = 0\<rparr>]
   in length hks = 1 \<and> conf = [(''Stop'', 2)]"
  by (simp add: hook_tables_def add_hook_def isHookSupported_def slice_def compile_matcher_def
      New_def New_base_def)

lemma set_plan_mode_quiet:
  assumes "handleSetPlanMode switcher i params s = Inr s'"
  shows "quiet s s'"
  using assms run_emit_quiet
  by (fastforce simp: handleSetPlanMode_def split: if_splits option.splits sum.splits prod.splits
      intro: quiet_trans [OF _ quiet_send_error] quiet_trans [OF _ quiet_send_response])

text \<open>C37: A \<open>set_plan_mode\<close> request that does not crash the agent is answered exactly once, after
  whatever events the agent emitted, and without the capability on both sides it is refused with
  -32000 or -32601 before the agent is called.\<close>

theorem set_plan_mode_answered:
  assumes "handleSetPlanMode switcher i params s = Inr s'"
  shows "answered i s s' \<and> quiet s s' \<and>
    (if cc_supports_plan_mode (clientCaps s) \<noteq> Some True
     then s' = send_error i codePlanModeNotSupported ''Plan mode is not supported'' s
     else switcher \<noteq> None \<or> s' = send_error i codeMethodNotFound ''method not found'' s)"
  using handleSetPlanMode_answers [OF assms] set_plan_mode_quiet [OF assms] assms
  by (auto simp: handleSetPlanMode_def split: if_splits option.splits)

theorem set_plan_mode_answered_witness:
  "answered ''2'' (New NewInMemoryTransport (im_WriteLine 0) [])
     (send_error ''2'' codePlanModeNotSupported ''Plan mode is not supported''
       (New NewInMemoryTransport (im_WriteLine 0) []))"
  using set_plan_mode_answered [of None "''2''" None "New NewInMemoryTransport (im_WriteLine 0) []"
      "send_error ''2'' codePlanModeNotSupported ''Plan mode is not supported''
        (New NewInMemoryTransport (im_WriteLine 0) [])"]
  by (simp add: handleSetPlanMode_def New_def New_base_def zero_client_capabilities_def)

end
