(* ===== verification/Server_Requests.thy ===== *)
theory Server_Requests
  imports Server_Init
begin

text \<open>
  \<open>server/request.go\<close> and the response side of \<open>server/server.go\<close>: request ids, the table of pending
  requests and their channels, \<open>routeResponse\<close>, \<open>closePending\<close>, and the four calls of the \<open>Turn\<close>
  interface that ask the client, each as its part before and its part after
  \<open>sendRequestAndWait\<close>. The steps in between, where other goroutines run, are those of
  \<open>Server_Turns\<close>.
\<close>

section \<open>Pending requests\<close>

definition nextRequestID :: "'t server \<Rightarrow> string \<times> 't server" where
  "nextRequestID s = (let c = requestCounter s + 1 in
     (''srv-'' @ show_nat (unat c), s\<lparr>requestCounter := c\<rparr>))"

text \<open>The id, a fresh channel of capacity 1, and its entry in \<open>pending\<close>.\<close>

definition register :: "'t server \<Rightarrow> string \<times> nat \<times> 't server" where
  "register s = (let (i, s1) = nextRequestID s; c = length (chans s1) in
     (i, c, s1\<lparr>chans := chans s1 @ [None], pending := AList.update i c (pending s1)\<rparr>))"

text \<open>The deferred clean-up: the entry is deleted and the channel drained.\<close>

definition unregister :: "string \<Rightarrow> nat \<Rightarrow> 't server \<Rightarrow> 't server" where
  "unregister i c s = s\<lparr>pending := AList.delete i (pending s), chans := (chans s)[c := None]\<rparr>"

definition write_request :: "go_error option \<Rightarrow> string \<Rightarrow> request \<Rightarrow> 't server \<Rightarrow> go_error option \<times> 't server" where
  "write_request ctx i req s =
     writeMessage ctx (map_res (rpc_request ''request'' i) (MarshalRequest (Some req))) s"

definition response_result :: "raw_wire_message \<Rightarrow> go_error + raw_json" where
  "response_result msg = (case rw_error msg of
     Some e \<Rightarrow> Inl (CodedErr (je_code e) (RedactString (je_message e)))
   | None \<Rightarrow> Inr (rw_result msg))"

text \<open>\<open>routeResponse\<close>: under the lock the channel is looked up and its entry deleted, then the message
  is sent to it.\<close>

definition route_lookup :: "raw_wire_message \<Rightarrow> 't server \<Rightarrow> nat option \<times> 't server" where
  "route_lookup raw s = (case map_of (pending s) (rw_id raw) of
     None \<Rightarrow> (None, s)
   | Some c \<Rightarrow> (Some c, s\<lparr>pending := AList.delete (rw_id raw) (pending s)\<rparr>))"

definition chan_send :: "nat \<Rightarrow> raw_wire_message \<Rightarrow> 't server \<Rightarrow> 't server option" where
  "chan_send c raw s =
     (if chans s ! c = None then Some (s\<lparr>chans := (chans s)[c := Some raw]\<rparr>) else None)"

definition routeResponse :: "raw_wire_message \<Rightarrow> 't server \<Rightarrow> 't server" where
  "routeResponse raw s = (case route_lookup raw s of
     (None, s1) \<Rightarrow> s1
   | (Some c, s1) \<Rightarrow> (case chan_send c raw s1 of None \<Rightarrow> s1 | Some s2 \<Rightarrow> s2))"

definition close_message :: "go_error \<Rightarrow> raw_wire_message" where
  "close_message err = zero_raw_wire_message\<lparr>rw_error :=
     Some \<lparr>je_code = -1, je_message = RedactString (error_text err), je_data = None\<rparr>\<rparr>"

definition closePending :: "go_error \<Rightarrow> 't server \<Rightarrow> 't server" where
  "closePending err s = s\<lparr>pending := [],
     chans := foldl (\<lambda>cs (i, c). if cs ! c = None then cs[c := Some (close_message err)] else cs)
       (chans s) (pending s)\<rparr>"

section \<open>Calls of an agent\<close>

datatype agent_call =
    RequestApproval approval_request
  | CallExternalTool tool_call_request
  | AskQuestion question_request
  | TriggerHook hook_request

datatype agent_reply =
    ApprovalReply approval_response
  | ToolReply tool_call_response
  | QuestionReply question_response
  | HookReply hook_response

definition hook_candidates :: "hook_request \<Rightarrow> 't server \<Rightarrow> hook_subscription list" where
  "hook_candidates req s = filter (\<lambda>sub. hs_event sub = hq_event req \<and>
     (case hs_matcher sub of None \<Rightarrow> True | Some re \<Rightarrow> match_string re (hq_target req)))
     (map snd (hooks s))"

text \<open>
  The time limit put on a context: none if it has one already. The result is the duration.
\<close>

definition applyDefaultTimeout :: "bool \<Rightarrow> 't server \<Rightarrow> int option" where
  "applyDefaultTimeout has_deadline s =
     (if defaultTimeout s \<le> 0 then None
      else if has_deadline then None else Some (defaultTimeout s))"

definition applyHookTimeout :: "bool \<Rightarrow> int \<Rightarrow> int option" where
  "applyHookTimeout has_deadline d =
     (let d = (if d \<le> 0 then 30 * 1000000000 else d) in
      if has_deadline then None else Some d)"

text \<open>
  Up to \<open>sendRequestAndWait\<close>: an answer without asking the client, or the request to send and its time
  limit. The map of hooks is searched in any order, so that the subscription found is any of the
  candidates: \<open>pick\<close> says which.
\<close>

fun prepare :: "nat \<Rightarrow> bool \<Rightarrow> 't server \<Rightarrow> agent_call \<Rightarrow>
    (go_error + agent_reply) + (request \<times> int option)" where
  "prepare pick dl s (RequestApproval req) = Inr (ApprovalRequest req, None)"
| "prepare pick dl s (CallExternalTool req) = Inr (ToolCallRequest req, applyDefaultTimeout dl s)"
| "prepare pick dl s (AskQuestion req) =
     (if cc_supports_question (clientCaps s) \<noteq> Some True
      then Inl (Inl (CodedErr codeQuestionNotSupported ''Client does not support structured questions''))
      else Inr (QuestionRequest req, applyDefaultTimeout dl s))"
| "prepare pick dl s (TriggerHook req) = (let cs = hook_candidates req s in
     if cs = [] then Inl (Inr (HookReply
       (zero_hook_response\<lparr>hx_request_id := hq_id req, hx_action := ''allow''\<rparr>)))
     else let sub = cs ! (pick mod length cs) in
       Inr (HookRequest (req\<lparr>hq_subscription_id := hs_id sub\<rparr>), applyHookTimeout dl (hs_timeout sub)))"

definition mismatch :: "string \<Rightarrow> string \<Rightarrow> string \<Rightarrow> go_error" where
  "mismatch what got want = PlainErr
     (what @ '' response id mismatch: got '' @ go_quote got @ '', want '' @ go_quote want)"

text \<open>The rest: the result is decoded and its id compared.\<close>

definition decode_reply :: "'a dec \<Rightarrow> 'a \<Rightarrow> ('a \<Rightarrow> string) \<Rightarrow> string \<Rightarrow> string \<Rightarrow> raw_json \<Rightarrow> go_error + 'a" where
  "decode_reply d z rid what want result = (case unmarshal d z result of
     Inl err \<Rightarrow> Inl (DecErr err)
   | Inr resp \<Rightarrow> if rid resp \<noteq> want then Inl (mismatch what (rid resp) want) else Inr resp)"

fun conclude :: "agent_call \<Rightarrow> go_error + raw_json \<Rightarrow> go_error + agent_reply" where
  "conclude call (Inl err) = Inl err"
| "conclude (RequestApproval req) (Inr r) = map_res ApprovalReply
     (decode_reply dec_approval_response zero_approval_response ax_request_id ''approval'' (aq_id req) r)"
| "conclude (CallExternalTool req) (Inr r) = map_res ToolReply
     (decode_reply dec_tool_call_response zero_tool_call_response tx_tool_call_id ''tool'' (tq_id req) r)"
| "conclude (AskQuestion req) (Inr r) = map_res QuestionReply
     (decode_reply dec_question_response zero_question_response qx_request_id ''question'' (qq_id req) r)"
| "conclude (TriggerHook req) (Inr r) = map_res HookReply
     (decode_reply dec_hook_response zero_hook_response hx_request_id ''hook'' (hq_id req) r)"

section \<open>The table stays consistent\<close>

text \<open>
  Every pending id is one the counter has given out; ids and channels are not shared, and the channel
  of a pending request exists and is empty.
\<close>

definition srv_id :: "nat \<Rightarrow> string" where
  "srv_id n = ''srv-'' @ show_nat n"

lemma srv_id_inj [simp]: "srv_id m = srv_id n \<longleftrightarrow> m = n"
  by (simp add: srv_id_def show_nat_inj)

definition pending_inv :: "'t server \<Rightarrow> bool" where
  "pending_inv s \<longleftrightarrow> distinct (map fst (pending s)) \<and> distinct (map snd (pending s)) \<and>
     (\<forall>i c. (i, c) \<in> set (pending s) \<longrightarrow> c < length (chans s) \<and> chans s ! c = None \<and>
        (\<exists>n \<ge> 1. n \<le> unat (requestCounter s) \<and> i = srv_id n))"

lemma pendingD:
  assumes "pending_inv s" and "(i, c) \<in> set (pending s)"
  shows "c < length (chans s)" "chans s ! c = None"
    "\<exists>n \<ge> 1. n \<le> unat (requestCounter s) \<and> i = srv_id n"
  using assms unfolding pending_inv_def by blast+

lemma pending_unique:
  assumes "pending_inv s" and "(i, c) \<in> set (pending s)" and "(j, c) \<in> set (pending s)"
  shows "i = j"
proof -
  have "inj_on snd (set (pending s))" using assms(1) by (simp add: pending_inv_def distinct_map)
  from inj_onD [OF this _ assms(2,3)] show ?thesis by simp
qed

lemma nth_update_if: "xs[c := m] ! e = (if e = c \<and> c < length xs then m else xs ! e)"
  by (cases "c < length xs") (auto simp: nth_list_update list_update_beyond)

lemma register_eq:
  assumes "pending_inv s" and "unat (requestCounter s) < 2 ^ 64 - 1"
  shows "register s = (srv_id (unat (requestCounter s) + 1), length (chans s),
    s\<lparr>requestCounter := requestCounter s + 1, chans := chans s @ [None],
      pending := pending s @ [(srv_id (unat (requestCounter s) + 1), length (chans s))]\<rparr>)"
proof -
  have u: "unat (requestCounter s + 1) = unat (requestCounter s) + 1"
    using assms(2) by (simp add: unat_word_ariths)
  have "srv_id (unat (requestCounter s) + 1) \<notin> fst ` set (pending s)"
  proof
    assume "srv_id (unat (requestCounter s) + 1) \<in> fst ` set (pending s)"
    then obtain c where "(srv_id (unat (requestCounter s) + 1), c) \<in> set (pending s)" by auto
    from pendingD(3) [OF assms(1) this] show False by auto
  qed
  then show ?thesis
    by (simp add: register_def nextRequestID_def Let_def u srv_id_def AList_update_new)
qed

lemma unat_succ: "unat (c :: u64) < 2 ^ 64 - 1 \<Longrightarrow> unat (c + 1) = unat c + 1"
  by (simp add: unat_word_ariths)

lemma pending_inv_register:
  assumes "pending_inv s" and "unat (requestCounter s) < 2 ^ 64 - 1" and "register s = (i, c, s')"
  shows "pending_inv s'"
proof -
  let ?n = "unat (requestCounter s) + 1"
  have s': "pending s' = pending s @ [(srv_id ?n, length (chans s))]" "chans s' = chans s @ [None]"
    "unat (requestCounter s') = ?n"
    using assms(3) [unfolded register_eq [OF assms(1,2)]] unat_succ [OF assms(2)] by auto
  have "srv_id ?n \<notin> fst ` set (pending s)" "length (chans s) \<notin> snd ` set (pending s)"
    using pendingD [OF assms(1)] by force+
  moreover have "c < Suc (length (chans s)) \<and> c < length (chans s) \<and> chans s ! c = None \<and> (\<exists>n \<ge> 1. n \<le> ?n \<and> i = srv_id n)"
    if "(i, c) \<in> set (pending s)" for i c
    using pendingD [OF assms(1) that] by (auto simp: less_SucI)
  ultimately show ?thesis
    using assms(1) unfolding pending_inv_def s'
    by (fastforce simp: nth_append)
qed

lemma set_delete_subset: "set (AList.delete i m) \<subseteq> set m"
  by (auto simp: AList.delete_eq)

lemma distinct_snd_delete: "distinct (map snd m) \<Longrightarrow> distinct (map snd (AList.delete i m))"
  by (simp add: AList.delete_eq distinct_map inj_on_def)

lemma pending_inv_delete: "pending_inv s \<Longrightarrow> pending_inv (s\<lparr>pending := AList.delete i (pending s)\<rparr>)"
  using set_delete_subset [of i "pending s"]
  by (auto simp: pending_inv_def distinct_delete distinct_snd_delete)

lemma pending_inv_chan:
  "pending_inv s \<Longrightarrow> m = None \<or> c \<notin> snd ` set (pending s) \<Longrightarrow>
    pending_inv (s\<lparr>chans := (chans s)[c := m]\<rparr>)"
  by (auto simp: pending_inv_def nth_update_if image_iff)

lemma pending_inv_unregister: "pending_inv s \<Longrightarrow> pending_inv (unregister i c s)"
  using pending_inv_chan [OF pending_inv_delete [of s i], of None c] by (simp add: unregister_def)

lemma route_lookup_Some:
  assumes "pending_inv s" and "route_lookup raw s = (Some c, s')"
  shows "(rw_id raw, c) \<in> set (pending s) \<and> s' = s\<lparr>pending := AList.delete (rw_id raw) (pending s)\<rparr> \<and>
    c \<notin> snd ` set (pending s') \<and> chans s' ! c = None \<and> c < length (chans s') \<and> pending_inv s'"
proof -
  have m: "map_of (pending s) (rw_id raw) = Some c"
    and s': "s' = s\<lparr>pending := AList.delete (rw_id raw) (pending s)\<rparr>"
    using assms(2) by (auto simp: route_lookup_def split: option.splits)
  from map_of_SomeD [OF m] have mem: "(rw_id raw, c) \<in> set (pending s)" .
  have "c \<notin> snd ` set (AList.delete (rw_id raw) (pending s))"
  proof
    assume "c \<in> snd ` set (AList.delete (rw_id raw) (pending s))"
    then obtain i where "(i, c) \<in> set (pending s)" "i \<noteq> rw_id raw" by (auto simp: AList.delete_eq)
    with pending_unique [OF assms(1) mem] show False by blast
  qed
  with mem s' assms(1) pending_inv_delete [OF assms(1)] show ?thesis by (auto simp: pending_inv_def)
qed

lemma pending_inv_route:
  assumes "pending_inv s"
  shows "pending_inv (routeResponse raw s)"
proof (cases "map_of (pending s) (rw_id raw)")
  case None
  with assms show ?thesis by (simp add: routeResponse_def route_lookup_def)
next
  case (Some c)
  let ?s1 = "s\<lparr>pending := AList.delete (rw_id raw) (pending s)\<rparr>"
  from Some have r: "route_lookup raw s = (Some c, ?s1)" by (simp add: route_lookup_def)
  from route_lookup_Some [OF assms r] have "pending_inv ?s1" "c \<notin> snd ` set (pending ?s1)" by auto
  from pending_inv_chan [OF this(1), of "Some raw" c] this show ?thesis
    by (simp add: routeResponse_def r chan_send_def)
qed

text \<open>A response reaches the channel of the request it names, and no other; the send never blocks.\<close>

lemma routeResponse_delivers:
  assumes "pending_inv s"
  shows "case map_of (pending s) (rw_id raw) of
      None \<Rightarrow> routeResponse raw s = s
    | Some c \<Rightarrow> routeResponse raw s =
        s\<lparr>pending := AList.delete (rw_id raw) (pending s), chans := (chans s)[c := Some raw]\<rparr>"
proof (cases "map_of (pending s) (rw_id raw)")
  case None
  then show ?thesis by (simp add: routeResponse_def route_lookup_def)
next
  case (Some c)
  then have "route_lookup raw s = (Some c, s\<lparr>pending := AList.delete (rw_id raw) (pending s)\<rparr>)"
    by (simp add: route_lookup_def)
  with route_lookup_Some [OF assms this] Some show ?thesis
    by (simp add: routeResponse_def chan_send_def)
qed

lemma closePending_chans:
  "distinct (map snd m) \<Longrightarrow> (\<forall>(i, c) \<in> set m. c < length cs \<and> cs ! c = None) \<Longrightarrow>
    foldl (\<lambda>cs (i, c). if cs ! c = None then cs[c := Some x] else cs) cs m ! d =
      (if d \<in> snd ` set m then Some x else cs ! d) \<and>
    length (foldl (\<lambda>cs (i, c). if cs ! c = None then cs[c := Some x] else cs) cs m) = length cs"
proof (induction m arbitrary: cs)
  case (Cons ic m)
  obtain i c where ic: "ic = (i, c)" by (cases ic)
  from Cons.prems have "\<forall>(j, e) \<in> set m. e < length (cs[c := Some x]) \<and> cs[c := Some x] ! e = None"
    by (force simp: ic nth_list_update)
  with Cons.IH [of "cs[c := Some x]"] Cons.prems show ?case
    by (auto simp: ic nth_list_update)
qed simp

text \<open>After \<open>closePending\<close> no request is pending and each that was has the error in its channel.\<close>

lemma closePending_effect:
  assumes "pending_inv s"
  shows "pending (closePending err s) = [] \<and> length (chans (closePending err s)) = length (chans s) \<and>
    chans (closePending err s) ! d =
      (if d \<in> snd ` set (pending s) then Some (close_message err) else chans s ! d)"
proof -
  have "\<forall>(i, c) \<in> set (pending s). c < length (chans s) \<and> chans s ! c = None"
    using assms by (auto simp: pending_inv_def)
  from closePending_chans [OF _ this, of "close_message err" d] assms show ?thesis
    by (simp add: closePending_def pending_inv_def)
qed

fun call_id :: "agent_call \<Rightarrow> string" where
  "call_id (RequestApproval req) = aq_id req"
| "call_id (CallExternalTool req) = tq_id req"
| "call_id (AskQuestion req) = qq_id req"
| "call_id (TriggerHook req) = hq_id req"

fun reply_id :: "agent_reply \<Rightarrow> string" where
  "reply_id (ApprovalReply x) = ax_request_id x"
| "reply_id (ToolReply x) = tx_tool_call_id x"
| "reply_id (QuestionReply x) = qx_request_id x"
| "reply_id (HookReply x) = hx_request_id x"

lemma conclude_Inr: "conclude call r = Inr reply \<Longrightarrow> (\<exists>j. r = Inr j) \<and> reply_id reply = call_id call"
  by (induction call r rule: conclude.induct)
    (auto simp: decode_reply_def map_res_eq_Inr split: sum.splits if_splits)

lemma close_message_error [simp]: "rw_error (close_message e) \<noteq> None"
  by (simp add: close_message_def)

end
