(* ===== verification/Server_Turns.thy ===== *)
theory Server_Turns
  imports Server_Requests
begin

text \<open>
  The running server of \<open>server/server.go\<close> and \<open>server/turn.go\<close>: its goroutines (\<open>readLoop\<close>,
  \<open>serveLoop\<close>, \<open>Serve\<close> itself, one per turn and one per replay) as state machines over the shared
  \<open>server\<close> record. Each definition below is one atomic step of one goroutine: a section under a lock,
  a send or receive on a channel, a write, or a call of the agent. What the outside decides (the
  lines read, the agent's programs, which ready case a \<open>select\<close> takes, when a context ends) is in the
  \<open>choice\<close> of the step, and every schedule of steps is allowed.
\<close>

section \<open>Turns\<close>

definition newTurn :: turn where
  "newTurn = \<lparr>tn_ctx = None, tn_steer = [], tn_done = False, tn_closed = False, tn_cancelled = False\<rparr>"

definition upd_turn :: "nat \<Rightarrow> (turn \<Rightarrow> turn) \<Rightarrow> 't server \<Rightarrow> 't server" where
  "upd_turn k f s = s\<lparr>turns := (turns s)[k := f (turns s ! k)]\<rparr>"

text \<open>\<open>t.ctx.Err()\<close>: the context of a turn is derived from \<open>serveCtx\<close>.\<close>

definition turn_err :: "'t server \<Rightarrow> nat \<Rightarrow> go_error option" where
  "turn_err s k = (case tn_ctx (turns s ! k) of Some e \<Rightarrow> Some e | None \<Rightarrow> serveCtx s)"

definition cancelled_ctx :: "go_error option \<Rightarrow> go_error option" where
  "cancelled_ctx e = (case e of None \<Rightarrow> Some Canceled | Some x \<Rightarrow> Some x)"

definition cancel_turn :: "nat \<Rightarrow> 't server \<Rightarrow> 't server" where
  "cancel_turn k s = upd_turn k (\<lambda>t. t\<lparr>tn_ctx := cancelled_ctx (turn_err s k)\<rparr>) s"

text \<open>\<open>turn.close\<close>: the context is cancelled and \<open>done\<close> closed, once.\<close>

definition turn_close :: "nat \<Rightarrow> 't server \<Rightarrow> 't server" where
  "turn_close k s =
     (if tn_closed (turns s ! k) then s
      else upd_turn k (\<lambda>t. t\<lparr>tn_closed := True, tn_ctx := cancelled_ctx (turn_err s k),
             tn_done := True\<rparr>) s)"

definition replay_err :: "'t server \<Rightarrow> nat \<Rightarrow> go_error option" where
  "replay_err s k = (case rp_ctx (replays s ! k) of Some e \<Rightarrow> Some e | None \<Rightarrow> serveCtx s)"

text \<open>\<open>op.cancel()\<close> and \<open><-op.done\<close> of an active operation.\<close>

fun cancel_op :: "op_ref \<Rightarrow> 't server \<Rightarrow> 't server" where
  "cancel_op (TurnOp k) s = cancel_turn k s"
| "cancel_op (ReplayOp k) s =
     s\<lparr>replays := (replays s)[k := (replays s ! k)\<lparr>rp_ctx := cancelled_ctx (replay_err s k)\<rparr>]\<rparr>"

fun op_done :: "'t server \<Rightarrow> op_ref \<Rightarrow> bool" where
  "op_done s (TurnOp k) = tn_done (turns s ! k)"
| "op_done s (ReplayOp k) = rp_done (replays s ! k)"

section \<open>The agent\<close>

text \<open>
  What \<open>Agent.Prompt\<close> does with its \<open>Turn\<close>: return a result and an error, panic, emit an event under
  some context, ask the client, or wait for steering input.
\<close>

datatype turn_prog =
    TReturn prompt_result "go_error option"
  | TPanic string
  | TEmit "go_error option" "event option" "go_error option \<Rightarrow> turn_prog"
  | TAsk agent_call "go_error + agent_reply \<Rightarrow> turn_prog"
  | TSteerInput "go_error + user_input \<Rightarrow> turn_prog"

text \<open>
  \<open>can_steer\<close>, \<open>can_replay\<close>, \<open>can_plan\<close>: whether the agent is a \<open>Steerer\<close>, \<open>Replayer\<close>,
  \<open>PlanModeSwitcher\<close>.
\<close>

record env =
  compile :: "string \<Rightarrow> regexp option"
  can_steer :: bool
  can_replay :: bool
  can_plan :: bool

record 't choice =
  ch_pick :: nat                          \<comment> \<open>the case of a \<open>select\<close>, the hook found\<close>
  ch_ctx :: "go_error option"             \<comment> \<open>the error of the context the agent passed, with its limit\<close>
  ch_dl :: bool                           \<comment> \<open>whether that context has a deadline of its own\<close>
  ch_input :: "go_error + line"           \<comment> \<open>what \<open>ReadLine\<close> returns\<close>
  ch_prog :: turn_prog
  ch_replay :: "replay_result emit_prog"
  ch_plan :: "bool \<Rightarrow> set_plan_mode_result emit_prog"
  ch_steer :: "string + go_error option"  \<comment> \<open>panic or result of \<open>Steer\<close>\<close>
  ch_peer :: "'t \<Rightarrow> 't"                   \<comment> \<open>what the peer does to the transport\<close>
  ch_late :: bool                         \<comment> \<open>whether the ten seconds are over\<close>

section \<open>The serve loop\<close>

text \<open>
  Where the serve loop is: waiting; before the \<open>TurnBegin\<close> event of a new turn; in an \<open>endTurn\<close> of its
  own; in the \<open>select\<close> of \<open>handleSteer\<close>, or calling \<open>Steer\<close>; in \<open>handleCancel\<close> before setting
  \<open>cancelled\<close>, before \<open>cancel()\<close>, or waiting for \<open>done\<close>; before starting a replay; gone.
\<close>

datatype loop_pc =
    LIdle
  | LBegin string user_input nat
  | LJoin nat
  | LSteer string user_input nat
  | LSteerCall string user_input nat
  | LCancelMark string op_ref "nat option"
  | LCancelFire string op_ref
  | LCancelWait string op_ref
  | LReplay string nat
  | LDone

definition handlePrompt :: "string \<Rightarrow> raw_json \<Rightarrow> 't server \<Rightarrow> 't server \<times> loop_pc" where
  "handlePrompt i params s = (case unmarshal dec_prompt_params zero_prompt_params params of
     Inl err \<Rightarrow> (send_error i codeInvalidParams (derr_text err) s, LIdle)
   | Inr p \<Rightarrow>
       if activeTurn s \<noteq> None \<or> activeOp s \<noteq> None then
         (send_error i codeTurnInProgress ''A turn is already in progress'' s, LIdle)
       else let k = length (turns s) in
         (s\<lparr>turns := turns s @ [newTurn], activeTurn := Some k, activeOp := Some (TurnOp k)\<rparr>,
          LBegin i (pp_user_input p) k))"

definition handleSteer :: "bool \<Rightarrow> string \<Rightarrow> raw_json \<Rightarrow> 't server \<Rightarrow> 't server \<times> loop_pc" where
  "handleSteer steers i params s =
     (if \<not> steers then (send_error i codeMethodNotFound ''method not found'' s, LIdle)
      else case unmarshal dec_steer_params zero_steer_params params of
        Inl err \<Rightarrow> (send_error i codeInvalidParams (derr_text err) s, LIdle)
      | Inr p \<Rightarrow> (case activeTurn s of
          None \<Rightarrow> (send_error i codeNoTurnInProgress ''No agent turn is in progress'' s, LIdle)
        | Some k \<Rightarrow> (s, LSteer i (sm_user_input p) k)))"

definition handleCancel :: "string \<Rightarrow> 't server \<Rightarrow> 't server \<times> loop_pc" where
  "handleCancel i s = (case activeOp s of
     None \<Rightarrow> (send_error i codeNoTurnInProgress ''No agent turn is in progress'' s, LIdle)
   | Some op \<Rightarrow> (s, LCancelMark i op (activeTurn s)))"

definition handleReplay :: "bool \<Rightarrow> string \<Rightarrow> 't server \<Rightarrow> 't server \<times> loop_pc" where
  "handleReplay can i s =
     (if \<not> can then (send_error i codeMethodNotFound ''method not found'' s, LIdle)
      else if activeTurn s \<noteq> None \<or> activeOp s \<noteq> None then
        (send_error i codeTurnInProgress ''A turn is already in progress'' s, LIdle)
      else let k = length (replays s) in
        (s\<lparr>replays := replays s @ [\<lparr>rp_ctx = None, rp_done = False\<rparr>], activeOp := Some (ReplayOp k)\<rparr>,
         LReplay i k))"

definition dispatch :: "env \<Rightarrow> 't choice \<Rightarrow> raw_wire_message \<Rightarrow> 't server \<Rightarrow>
    string + ('t server \<times> loop_pc)" where
  "dispatch env c raw s = (let i = rw_id raw; m = rw_method raw; ps = rw_params raw in
     if m = ''initialize'' then Inr (handleInitialize (compile env) i ps s, LIdle)
     else if m = ''prompt'' then Inr (handlePrompt i ps s)
     else if m = ''steer'' then Inr (handleSteer (can_steer env) i ps s)
     else if m = ''cancel'' then Inr (handleCancel i s)
     else if m = ''replay'' then Inr (handleReplay (can_replay env) i s)
     else if m = ''set_plan_mode'' then
       (case handleSetPlanMode (if can_plan env then Some (ch_plan c) else None) i ps s of
          Inl panic \<Rightarrow> Inl panic
        | Inr s' \<Rightarrow> Inr (s', LIdle))
     else Inr (send_error i codeMethodNotFound ''method not found'' s, LIdle))"

section \<open>Turn goroutines\<close>

text \<open>
  Where the goroutine of a turn is: in the agent; in \<open>sendRequestAndWait\<close> before the write, or waiting
  for the response; in \<open>endTurn\<close> before the \<open>TurnEnd\<close> event, before \<open>t.close()\<close>, before the active
  turn is cleared, before \<open>cancelled\<close> is read, before the response; finished.
\<close>

datatype turn_pc =
    TRun turn_prog
  | TWrite agent_call request string nat "go_error + agent_reply \<Rightarrow> turn_prog"
  | TAwait agent_call string nat "go_error + agent_reply \<Rightarrow> turn_prog"
  | TEndEmit prompt_result "go_error option"
  | TEndClose prompt_result "go_error option"
  | TEndClear prompt_result "go_error option"
  | TEndRead prompt_result "go_error option"
  | TEndAnswer prompt_result "go_error option" bool
  | TDone

definition end_answer :: "string \<Rightarrow> prompt_result \<Rightarrow> go_error option \<Rightarrow> bool \<Rightarrow> 't server \<Rightarrow> 't server" where
  "end_answer i result err was s = (case err of
     Some e \<Rightarrow>
       if \<not> was \<and> \<not> errors_Is e Canceled then
         (case as_coded e of
            Some c \<Rightarrow> if c \<noteq> 0 then send_error i c (error_text e) s
                      else send_error i codeInternalError ''internal error'' s
          | None \<Rightarrow> send_error i codeInternalError ''internal error'' s)
       else send_response i (enc_prompt_result \<lparr>pr_status = PromptStatusCancelled, pr_steps = None\<rparr>) s
   | None \<Rightarrow>
       if was then
         send_response i (enc_prompt_result \<lparr>pr_status = PromptStatusCancelled, pr_steps = None\<rparr>) s
       else send_response i (enc_prompt_result result) s)"

text \<open>The \<open>select\<close> of \<open>sendRequestAndWait\<close> and its clean-up, which runs after every exit.\<close>

definition await :: "'t choice \<Rightarrow> agent_call \<Rightarrow> string \<Rightarrow> nat \<Rightarrow> 't server \<Rightarrow>
    ((go_error + agent_reply) \<times> 't server) option" where
  "await c call i q s = map_option (\<lambda>r. (conclude call r, unregister i q s)) (go_select (ch_pick c)
     [map_option response_result (chans s ! q), map_option Inl (ch_ctx c), map_option Inl (serveCtx s)])"

definition steer_input :: "'t choice \<Rightarrow> nat \<Rightarrow> 't server \<Rightarrow> ((go_error + user_input) \<times> 't server) option" where
  "steer_input c k s = go_select (ch_pick c)
     [case tn_steer (turns s ! k) of
        x # xs \<Rightarrow> Some (Inr x, upd_turn k (\<lambda>t. t\<lparr>tn_steer := xs\<rparr>) s)
      | [] \<Rightarrow> None,
      map_option (\<lambda>e. (Inl e, s)) (turn_err s k),
      map_option (\<lambda>e. (Inl e, s)) (ch_ctx c)]"

text \<open>One step of the agent's program. A panic is recovered, logged, and ends the turn.\<close>

fun run_step :: "'t choice \<Rightarrow> nat \<Rightarrow> turn_prog \<Rightarrow> 't server \<Rightarrow> ('t server \<times> turn_pc) option" where
  "run_step c k (TReturn r err) s = Some (s, TEndEmit r err)"
| "run_step c k (TPanic m) s = Some (logf ''panic in Agent.Prompt: %v'' m s,
     TEndEmit zero_prompt_result (Some (CodedErr codeInternalError ''internal error'')))"
| "run_step c k (TEmit ctx ev f) s = (case emitEvent ctx ev s of (e, s1) \<Rightarrow> Some (s1, TRun (f e)))"
| "run_step c k (TAsk call f) s = (case prepare (ch_pick c) (ch_dl c) s call of
     Inl r \<Rightarrow> Some (s, TRun (f r))
   | Inr (req, limit) \<Rightarrow> (case register s of (i, q, s1) \<Rightarrow> Some (s1, TWrite call req i q f)))"
| "run_step c k (TSteerInput f) s = map_option (\<lambda>(r, s1). (s1, TRun (f r))) (steer_input c k s)"

definition clear_active :: "nat \<Rightarrow> 't server \<Rightarrow> 't server" where
  "clear_active k s =
     (if activeTurn s = Some k then s\<lparr>activeTurn := None, activeOp := None\<rparr> else s)"

fun turn_step :: "'t choice \<Rightarrow> nat \<Rightarrow> string \<Rightarrow> turn_pc \<Rightarrow> 't server \<Rightarrow> ('t server \<times> turn_pc) option" where
  "turn_step c k i (TRun p) s = run_step c k p s"
| "turn_step c k i (TWrite call req j q f) s =
     (case write_request (ch_ctx c) j req s of
        (None, s1) \<Rightarrow> Some (s1, TAwait call j q f)
      | (Some e, s1) \<Rightarrow> Some (unregister j q s1, TRun (f (Inl e))))"
| "turn_step c k i (TAwait call j q f) s =
     map_option (\<lambda>(r, s1). (s1, TRun (f r))) (await c call j q s)"
| "turn_step c k i (TEndEmit r err) s =
     (case emitEvent (serveCtx s) (Some TurnEndEvent) s of
        (None, s1) \<Rightarrow> Some (s1, TEndClose r err)
      | (Some e, s1) \<Rightarrow> Some (logf ''failed to emit turn end event: %v'' (error_text e) s1, TEndClose r err))"
| "turn_step c k i (TEndClose r err) s = Some (turn_close k s, TEndClear r err)"
| "turn_step c k i (TEndClear r err) s = Some (clear_active k s, TEndRead r err)"
| "turn_step c k i (TEndRead r err) s = Some (s, TEndAnswer r err (tn_cancelled (turns s ! k)))"
| "turn_step c k i (TEndAnswer r err was) s = Some (end_answer i r err was s, TDone)"
| "turn_step c k i TDone s = None"

section \<open>Replay goroutines\<close>

text \<open>In the agent; before the response; before \<open>activeOp\<close> is cleared; before \<open>done\<close> is closed; gone.\<close>

datatype replay_pc =
    RpRun "replay_result emit_prog"
  | RpClear
  | RpClose
  | RpDone

definition replay_answer :: "string \<Rightarrow> go_error + replay_result \<Rightarrow> 't server \<Rightarrow> 't server" where
  "replay_answer i r s = (case r of
     Inl err \<Rightarrow>
       if errors_Is err Canceled then
         send_response i (enc_replay_result (zero_replay_result\<lparr>rr_status := ReplayStatusCancelled\<rparr>)) s
       else send_error i codeInternalError (error_text err) s
   | Inr result \<Rightarrow> send_response i (enc_replay_result result) s)"

fun replay_step :: "nat \<Rightarrow> string \<Rightarrow> replay_pc \<Rightarrow> 't server \<Rightarrow> ('t server \<times> replay_pc) option" where
  "replay_step k i (RpRun (EReturn r)) s = Some (replay_answer i r s, RpClear)"
| "replay_step k i (RpRun (EPanic m)) s =
     Some (send_error i codeInternalError ''internal error'' (logf ''panic in Agent.Replay: %v'' m s), RpClear)"
| "replay_step k i (RpRun (EEmit ctx ev f)) s =
     (case emitEvent ctx ev s of (e, s1) \<Rightarrow> Some (s1, RpRun (f e)))"
| "replay_step k i RpClear s =
     Some (if activeOp s = Some (ReplayOp k) then s\<lparr>activeOp := None\<rparr> else s, RpClose)"
| "replay_step k i RpClose s =
     Some (s\<lparr>replays := (replays s)[k := (replays s ! k)\<lparr>rp_done := True\<rparr>]\<rparr>, RpDone)"
| "replay_step k i RpDone s = None"

section \<open>The read loop and Serve\<close>

text \<open>
  The read loop: reading; sending a request to \<open>dispatchCh\<close> (room for 1024); sending a response to
  its channel; gone, with \<open>readErr\<close>. \<open>Serve\<close>: waiting for it; before \<open>closePending\<close>; in
  \<open>clearActiveTurn\<close> before the fields are cleared, before \<open>cancel()\<close>, waiting for \<open>done\<close>; waiting for
  the serve loop; returned.
\<close>

datatype reader_pc =
    RRead
  | RDispatch raw_wire_message
  | RRoute nat raw_wire_message
  | RDone "go_error option"

datatype serve_pc =
    SvRead
  | SvPending "go_error option"
  | SvClear "go_error option"
  | SvFire op_ref "go_error option"
  | SvWait op_ref "go_error option"
  | SvJoin "go_error option"
  | SvReturn "go_error option"

definition parse_error_line :: "string \<Rightarrow> json" where
  "parse_error_line msg = JObj [(''jsonrpc'', JStr ''2.0''), (''error'', enc_jsonrpc_error
     \<lparr>je_code = codeParseError, je_message = msg, je_data = None\<rparr>)]"

definition receive_line :: "line \<Rightarrow> 't server \<Rightarrow> 't server \<times> reader_pc" where
  "receive_line l s = (case parse_line l of
     Inl err \<Rightarrow> (snd (write_line (serveCtx s) (parse_error_line (derr_text err))
                  (logf ''parse error: %v'' (derr_text err) s)), RRead)
   | Inr raw \<Rightarrow>
       if rw_id raw \<noteq> [] \<and> rw_method raw = [] then
         (case route_lookup raw s of
            (None, s1) \<Rightarrow> (s1, RRead)
          | (Some q, s1) \<Rightarrow> (s1, RRoute q raw))
       else (s, RDispatch raw))"

fun reader_step :: "'t choice \<Rightarrow> reader_pc \<Rightarrow> 't server \<Rightarrow> ('t server \<times> reader_pc) option" where
  "reader_step c RRead s = (case ch_input c of
     Inl err \<Rightarrow> Some
       (if err \<noteq> EOF \<and> \<not> errors_Is err Canceled \<and> serveCtx s = None
        then logf ''read error: %v'' (error_text err) s else s, RDone (Some err))
   | Inr l \<Rightarrow> Some (receive_line l s))"
| "reader_step c (RDispatch raw) s = go_select (ch_pick c)
     [if length (dispatchCh s) < 1024 then Some (s\<lparr>dispatchCh := dispatchCh s @ [raw]\<rparr>, RRead) else None,
      if serveCtx s \<noteq> None then Some (s, RDone None) else None]"
| "reader_step c (RRoute q raw) s = go_select (ch_pick c)
     [map_option (\<lambda>s1. (s1, RRead)) (chan_send q raw s),
      if serveCtx s \<noteq> None then Some (s, RRead) else None]"
| "reader_step c (RDone e) s = None"

definition cancelServe :: "'t server \<Rightarrow> 't server" where
  "cancelServe s = s\<lparr>serveCtx := cancelled_ctx (serveCtx s)\<rparr>"

definition late_warning :: "op_ref \<Rightarrow> string" where
  "late_warning op = (case op of
     TurnOp k \<Rightarrow> ''warning: clearActiveTurn timed out waiting for turn to finish''
   | ReplayOp k \<Rightarrow> ''warning: clearActiveTurn timed out waiting for operation to finish'')"

fun serve_step :: "'t choice \<Rightarrow> reader_pc \<Rightarrow> loop_pc \<Rightarrow> serve_pc \<Rightarrow> 't server \<Rightarrow>
    ('t server \<times> serve_pc) option" where
  "serve_step c r l SvRead s = (case r of
     RDone err \<Rightarrow> Some (cancelServe s, SvPending err)
   | _ \<Rightarrow> None)"
| "serve_step c r l (SvPending err) s = Some (case err of
     Some e \<Rightarrow> if \<not> errors_Is e Canceled \<and> \<not> errors_Is e EOF then closePending e s else s
   | None \<Rightarrow> s, SvClear err)"
| "serve_step c r l (SvClear err) s = Some (s\<lparr>activeTurn := None, activeOp := None\<rparr>,
     (case activeTurn s of
        Some k \<Rightarrow> SvFire (TurnOp k) err
      | None \<Rightarrow> (case activeOp s of Some op \<Rightarrow> SvFire op err | None \<Rightarrow> SvJoin err)))"
| "serve_step c r l (SvFire op err) s = Some (cancel_op op s, SvWait op err)"
| "serve_step c r l (SvWait op err) s = go_select (ch_pick c)
     [if op_done s op then Some (s, SvJoin err) else None,
      if ch_late c then Some (logf (late_warning op) [] s, SvJoin err) else None]"
| "serve_step c r l (SvJoin err) s =
     (if l = LDone then Some (s\<lparr>serving := False\<rparr>, SvReturn err) else None)"
| "serve_step c r l (SvReturn err) s = None"

section \<open>The system\<close>

text \<open>
  The goroutines and the server. \<open>tg ! k\<close> is the goroutine of turn \<open>k\<close> with the id of its request,
  \<open>rg ! k\<close> that of replay \<open>k\<close>. Kept to state properties, and read by no step: \<open>taken\<close>, the ids of the
  requests taken from \<open>dispatchCh\<close>, and \<open>frames\<close>, the \<open>TurnBegin\<close> (\<open>True\<close>) and \<open>TurnEnd\<close> (\<open>False\<close>)
  events that the server itself emitted. A panic on the serve loop ends the process: \<open>crashed\<close>.
\<close>

record 't sys =
  srv :: "'t server"
  rd :: reader_pc
  lp :: loop_pc
  sv :: serve_pc
  tg :: "(string \<times> turn_pc) list"
  rg :: "(string \<times> replay_pc) list"
  taken :: "string list"
  frames :: "(nat \<times> bool) list"
  crashed :: "string option"

definition turn_finished :: "turn_pc \<Rightarrow> bool" where
  "turn_finished pc = (case pc of TDone \<Rightarrow> True | _ \<Rightarrow> False)"

definition take_request :: "env \<Rightarrow> 't choice \<Rightarrow> raw_wire_message \<Rightarrow> raw_wire_message list \<Rightarrow> 't sys \<Rightarrow> 't sys" where
  "take_request env c raw rest y =
     (let y1 = y\<lparr>taken := taken y @ [rw_id raw]\<rparr> in
      case dispatch env c raw ((srv y)\<lparr>dispatchCh := rest\<rparr>) of
        Inl panic \<Rightarrow> y1\<lparr>crashed := Some panic\<rparr>
      | Inr (s, pc) \<Rightarrow> y1\<lparr>srv := s, lp := pc\<rparr>)"

fun loop_step :: "env \<Rightarrow> 't choice \<Rightarrow> loop_pc \<Rightarrow> 't sys \<Rightarrow> 't sys option" where
  "loop_step env c LIdle y = go_select (ch_pick c)
     [case dispatchCh (srv y) of raw # rest \<Rightarrow> Some (take_request env c raw rest y) | [] \<Rightarrow> None,
      if serveCtx (srv y) \<noteq> None then Some (y\<lparr>lp := LDone\<rparr>) else None]"
| "loop_step env c (LBegin i input k) y = Some
     (case emitEvent (serveCtx (srv y)) (Some (TurnBeginEvent \<lparr>tb_user_input = input\<rparr>)) (srv y) of
        (None, s) \<Rightarrow> y\<lparr>srv := s, lp := LIdle, tg := tg y @ [(i, TRun (ch_prog c))],
          frames := frames y @ [(k, True)]\<rparr>
      | (Some e, s) \<Rightarrow> y\<lparr>srv := s, lp := LJoin k, tg := tg y @ [(i, TEndEmit zero_prompt_result (Some e))],
          frames := frames y @ [(k, True)]\<rparr>)"
| "loop_step env c (LJoin k) y =
     (if turn_finished (snd (tg y ! k)) then Some (y\<lparr>lp := LIdle\<rparr>) else None)"
| "loop_step env c (LSteer i input k) y = go_select (ch_pick c)
     [if tn_steer (turns (srv y) ! k) = []
      then Some (y\<lparr>srv := upd_turn k (\<lambda>t. t\<lparr>tn_steer := [input]\<rparr>) (srv y), lp := LSteerCall i input k\<rparr>)
      else None,
      if turn_err (srv y) k \<noteq> None
      then Some (y\<lparr>srv := send_error i codeNoTurnInProgress ''No agent turn is in progress'' (srv y),
             lp := LIdle\<rparr>)
      else None]"
| "loop_step env c (LSteerCall i input k) y = Some (case ch_steer c of
       Inl panic \<Rightarrow> y\<lparr>crashed := Some panic\<rparr>
     | Inr (Some err) \<Rightarrow> y\<lparr>srv := send_error i codeInternalError (error_text err) (srv y), lp := LIdle\<rparr>
     | Inr None \<Rightarrow> y\<lparr>srv := send_response i (enc_steer_result \<lparr>sx_status = SteerStatusSteered\<rparr>) (srv y),
         lp := LIdle\<rparr>)"
| "loop_step env c (LCancelMark i op t) y = Some (y\<lparr>
     srv := (case t of Some k \<Rightarrow> upd_turn k (\<lambda>t. t\<lparr>tn_cancelled := True\<rparr>) (srv y) | None \<Rightarrow> srv y),
     lp := LCancelFire i op\<rparr>)"
| "loop_step env c (LCancelFire i op) y =
     Some (y\<lparr>srv := cancel_op op (srv y), lp := LCancelWait i op\<rparr>)"
| "loop_step env c (LCancelWait i op) y = go_select (ch_pick c)
     [if op_done (srv y) op
      then Some (y\<lparr>srv := send_response i enc_cancel_result (srv y), lp := LIdle\<rparr>) else None,
      if serveCtx (srv y) \<noteq> None
      then Some (y\<lparr>srv := send_error i codeInternalError ''server shutting down'' (srv y), lp := LIdle\<rparr>)
      else None]"
| "loop_step env c (LReplay i k) y =
     Some (y\<lparr>rg := rg y @ [(i, RpRun (ch_replay c))], lp := LIdle\<rparr>)"
| "loop_step env c LDone y = None"

text \<open>Who takes the next step. \<open>Parent\<close> ends the context given to \<open>Serve\<close>.\<close>

datatype actor = Reader | Looper | TurnG nat | ReplayG nat | Main | Parent | Peer

definition end_frame :: "nat \<Rightarrow> turn_pc \<Rightarrow> (nat \<times> bool) list" where
  "end_frame k pc = (case pc of TEndEmit r err \<Rightarrow> [(k, False)] | _ \<Rightarrow> [])"

fun actor_step :: "env \<Rightarrow> actor \<Rightarrow> 't choice \<Rightarrow> 't sys \<Rightarrow> 't sys option" where
  "actor_step env Reader c y =
     map_option (\<lambda>(s, pc). y\<lparr>srv := s, rd := pc\<rparr>) (reader_step c (rd y) (srv y))"
| "actor_step env Looper c y = loop_step env c (lp y) y"
| "actor_step env (TurnG k) c y =
     (if k < length (tg y) then
        (case tg y ! k of (i, pc) \<Rightarrow> map_option (\<lambda>(s, pc'). y\<lparr>srv := s, tg := (tg y)[k := (i, pc')],
           frames := frames y @ end_frame k pc\<rparr>) (turn_step c k i pc (srv y)))
      else None)"
| "actor_step env (ReplayG k) c y =
     (if k < length (rg y) then
        (case rg y ! k of (i, pc) \<Rightarrow>
           map_option (\<lambda>(s, pc'). y\<lparr>srv := s, rg := (rg y)[k := (i, pc')]\<rparr>) (replay_step k i pc (srv y)))
      else None)"
| "actor_step env Main c y =
     map_option (\<lambda>(s, pc). y\<lparr>srv := s, sv := pc\<rparr>) (serve_step c (rd y) (lp y) (sv y) (srv y))"
| "actor_step env Parent c y = (case ch_ctx c of
     Some e \<Rightarrow> Some (y\<lparr>srv := (srv y)\<lparr>serveCtx := case serveCtx (srv y) of None \<Rightarrow> Some e | Some e' \<Rightarrow> Some e'\<rparr>\<rparr>)
   | None \<Rightarrow> None)"
| "actor_step env Peer c y = Some (y\<lparr>srv := (srv y)\<lparr>transport := ch_peer c (transport (srv y))\<rparr>\<rparr>)"

definition sys_step :: "env \<Rightarrow> actor \<Rightarrow> 't choice \<Rightarrow> 't sys \<Rightarrow> 't sys option" where
  "sys_step env a c y = (if crashed y = None then actor_step env a c y else None)"

text \<open>\<open>Serve\<close> up to the start of its goroutines, under a parent context.\<close>

definition Serve :: "go_error option \<Rightarrow> 't server \<Rightarrow> go_error + 't sys" where
  "Serve parent s =
     (if serving s then Inl (PlainErr ''server already serving'')
      else Inr \<lparr>srv = s\<lparr>serving := True, serveCtx := parent\<rparr>, rd = RRead, lp = LIdle, sv = SvRead,
        tg = [], rg = [], taken = [], frames = [], crashed = None\<rparr>)"

text \<open>\<open>Close\<close>: the transport is closed by its own \<open>Close\<close>. A \<open>Serve\<close> that runs goes on until the read loop
  ends.\<close>

definition Close :: "('t \<Rightarrow> go_error option \<times> 't) \<Rightarrow> 't server \<Rightarrow> go_error option \<times> 't server" where
  "Close close s = (case close (transport s) of (e, t) \<Rightarrow> (e, s\<lparr>serving := False, transport := t\<rparr>))"

text \<open>So \<open>serving\<close> is false after \<open>Close\<close> although the first \<open>Serve\<close> still runs, and a second one starts.\<close>

lemma close_allows_second_serve:
  "Close close s = (e, s') \<Longrightarrow> \<exists>y. Serve parent s' = Inr y"
  by (auto simp: Close_def Serve_def split: prod.splits)

text \<open>The states of a server made by \<open>New\<close> and serving for the first time.\<close>

inductive reachable :: "env \<Rightarrow> 't sys \<Rightarrow> bool" for env where
  start: "Serve parent (New t w opts) = Inr y \<Longrightarrow> reachable env y"
| step: "reachable env y \<Longrightarrow> sys_step env a c y = Some y' \<Longrightarrow> reachable env y'"

end
