(* ===== verification/Server_Answers.thy ===== *)
theory Server_Answers
  imports Server_Turns
begin

text \<open>
  Accounting for responses: in every reachable state of the server the requests taken from the queue
  are, as a multiset of ids, those that were answered and those still in the hands of a goroutine. So
  no request is answered twice, and none is dropped.
\<close>

section \<open>The ids of the responses written\<close>

definition resp_ids :: "'t server \<Rightarrow> string multiset" where
  "resp_ids s = mset (List.map_filter (\<lambda>(l, e). response_id l) (written s))"

lemma response_id_lines [simp]:
  "response_id (Inr (rpc_success i r)) = Some i"
  "response_id (Inr (marshalJSONRPCError i c m)) = Some i"
  "response_id (Inr (rpc_notification mth p)) = None"
  "response_id (Inr (rpc_request mth i p)) = None"
  "response_id (Inr (parse_error_line m)) = None"
  by (simp_all add: rpc_success_def marshalJSONRPCError_def rpc_error_def rpc_notification_def
      rpc_request_def parse_error_line_def)

lemma resp_ids_snoc:
  "written s' = written s @ [(l, e)] \<Longrightarrow>
    resp_ids s' = resp_ids s + (case response_id l of Some i \<Rightarrow> {#i#} | None \<Rightarrow> {#})"
  by (simp add: resp_ids_def map_filter_def split: option.split)

lemma resp_ids_same: "written s' = written s \<Longrightarrow> resp_ids s' = resp_ids s"
  by (simp add: resp_ids_def)

lemma resp_ids_update [simp]:
  "resp_ids (s\<lparr>turns := a\<rparr>) = resp_ids s" "resp_ids (s\<lparr>replays := b\<rparr>) = resp_ids s"
  "resp_ids (s\<lparr>activeTurn := c\<rparr>) = resp_ids s" "resp_ids (s\<lparr>activeOp := d\<rparr>) = resp_ids s"
  "resp_ids (s\<lparr>pending := p\<rparr>) = resp_ids s" "resp_ids (s\<lparr>chans := q\<rparr>) = resp_ids s"
  "resp_ids (s\<lparr>dispatchCh := f\<rparr>) = resp_ids s" "resp_ids (s\<lparr>serveCtx := g\<rparr>) = resp_ids s"
  "resp_ids (s\<lparr>serving := h\<rparr>) = resp_ids s" "resp_ids (s\<lparr>requestCounter := n\<rparr>) = resp_ids s"
  "resp_ids (s\<lparr>transport := t\<rparr>) = resp_ids s"
  by (simp_all add: resp_ids_def)

lemma resp_ids_logf [simp]: "resp_ids (logf f m s) = resp_ids s"
  by (rule resp_ids_same) simp

lemma resp_ids_send_error [simp]: "resp_ids (send_error i c m s) = resp_ids s + {#i#}"
proof -
  obtain e where "written (send_error i c m s) = written s @ [(Inr (marshalJSONRPCError i c m), e)]"
    using written_send_error by blast
  from resp_ids_snoc [OF this] show ?thesis by simp
qed

lemma resp_ids_send_response [simp]: "resp_ids (send_response i r s) = resp_ids s + {#i#}"
proof -
  obtain e where "written (send_response i r s) = written s @ [(Inr (rpc_success i r), e)]"
    using written_send_response by blast
  from resp_ids_snoc [OF this] show ?thesis by simp
qed

lemma resp_ids_snd_write_line [simp]:
  "response_id (Inr j) = None \<Longrightarrow> resp_ids (snd (write_line ctx j s)) = resp_ids s"
  using resp_ids_snoc [OF written_write_line, of ctx j s] by simp

lemma resp_ids_write_line:
  "write_line ctx j s = (e, s') \<Longrightarrow> response_id (Inr j) = None \<Longrightarrow> resp_ids s' = resp_ids s"
  using resp_ids_snd_write_line [of j ctx s] by simp

lemma resp_ids_emitEvent: "emitEvent ctx ev s = (e, s') \<Longrightarrow> resp_ids s' = resp_ids s"
  by (auto simp: emitEvent_def writeMessage_def dest: resp_ids_write_line split: sum.splits)

lemma response_to_id: "response_to i l \<Longrightarrow> response_id l = Some i"
  by (auto simp: response_to_def)

lemma resp_ids_answered: "answered i s s' \<Longrightarrow> resp_ids s' = resp_ids s + {#i#}"
proof -
  assume "answered i s s'"
  then obtain evs l e where w: "written s' = written s @ evs @ [(l, e)]" and r: "response_to i l"
    and ev: "list_all (\<lambda>(l, e). is_event_line l) evs"
    by (auto simp: answered_def)
  have "List.map_filter (\<lambda>(l, e). response_id l) evs = []"
    using ev by (induction evs) (auto simp: map_filter_simps is_event_line_def)
  then show ?thesis
    using w response_to_id [OF r] by (simp add: resp_ids_def map_filter_def)
qed

section \<open>Requests in the hands of a goroutine\<close>

fun loop_ids :: "loop_pc \<Rightarrow> string multiset" where
  "loop_ids (LBegin i input k) = {#i#}"
| "loop_ids (LSteer i input k) = {#i#}"
| "loop_ids (LSteerCall i input k) = {#i#}"
| "loop_ids (LCancelMark i op t) = {#i#}"
| "loop_ids (LCancelFire i op) = {#i#}"
| "loop_ids (LCancelWait i op) = {#i#}"
| "loop_ids (LReplay i k) = {#i#}"
| "loop_ids pc = {#}"

definition turn_ids :: "string \<times> turn_pc \<Rightarrow> string multiset" where
  "turn_ids ip = (if turn_finished (snd ip) then {#} else {#fst ip#})"

definition replay_ids :: "string \<times> replay_pc \<Rightarrow> string multiset" where
  "replay_ids ip = (case snd ip of RpRun p \<Rightarrow> {#fst ip#} | _ \<Rightarrow> {#})"

definition in_flight :: "'t sys \<Rightarrow> string multiset" where
  "in_flight y = loop_ids (lp y) + sum_list (map turn_ids (tg y)) + sum_list (map replay_ids (rg y))"

section \<open>Every step keeps the account\<close>

lemma resp_ids_upd_turn [simp]: "resp_ids (upd_turn k f s) = resp_ids s"
  by (simp add: upd_turn_def)

lemma resp_ids_cancel_op [simp]: "resp_ids (cancel_op op s) = resp_ids s"
  by (cases op) (simp_all add: cancel_turn_def)

lemma resp_ids_turn_close [simp]: "resp_ids (turn_close k s) = resp_ids s"
  by (simp add: turn_close_def)

lemma resp_ids_clear_active [simp]: "resp_ids (clear_active k s) = resp_ids s"
  by (simp add: clear_active_def)

lemma resp_ids_unregister [simp]: "resp_ids (unregister i c s) = resp_ids s"
  by (simp add: unregister_def)

lemma resp_ids_register: "register s = (i, c, s') \<Longrightarrow> resp_ids s' = resp_ids s"
  by (auto simp: register_def nextRequestID_def Let_def)

lemma resp_ids_write_request: "write_request ctx i req s = (e, s') \<Longrightarrow> resp_ids s' = resp_ids s"
  by (auto simp: write_request_def writeMessage_def map_res_eq_Inr dest: resp_ids_write_line
      split: sum.splits)

lemma resp_ids_route_lookup: "route_lookup raw s = (c, s') \<Longrightarrow> resp_ids s' = resp_ids s"
  by (auto simp: route_lookup_def split: option.splits)

lemma resp_ids_closePending [simp]: "resp_ids (closePending e s) = resp_ids s"
  by (simp add: closePending_def)

lemma resp_ids_end_answer [simp]: "resp_ids (end_answer i r err was s) = resp_ids s + {#i#}"
  by (simp add: end_answer_def split: option.split)

lemma resp_ids_replay_answer [simp]: "resp_ids (replay_answer i r s) = resp_ids s + {#i#}"
  by (simp add: replay_answer_def split: sum.split)

lemma handlePrompt_account:
  "handlePrompt i ps s = (s', pc) \<Longrightarrow> resp_ids s' + loop_ids pc = resp_ids s + {#i#}"
  by (auto simp: handlePrompt_def Let_def split: sum.splits if_splits)

lemma handleSteer_account:
  "handleSteer b i ps s = (s', pc) \<Longrightarrow> resp_ids s' + loop_ids pc = resp_ids s + {#i#}"
  by (auto simp: handleSteer_def split: sum.splits if_splits option.splits)

lemma handleCancel_account:
  "handleCancel i s = (s', pc) \<Longrightarrow> resp_ids s' + loop_ids pc = resp_ids s + {#i#}"
  by (auto simp: handleCancel_def split: option.splits)

lemma handleReplay_account:
  "handleReplay b i s = (s', pc) \<Longrightarrow> resp_ids s' + loop_ids pc = resp_ids s + {#i#}"
  by (auto simp: handleReplay_def Let_def split: if_splits)

lemma dispatch_account:
  assumes "dispatch env c raw s = Inr (s', pc)"
  shows "resp_ids s' + loop_ids pc = resp_ids s + {#rw_id raw#}"
  using assms
  by (auto simp: dispatch_def Let_def handlePrompt_account handleSteer_account handleCancel_account
      handleReplay_account resp_ids_answered [OF handleInitialize_answers]
      dest!: handleSetPlanMode_answers resp_ids_answered
      split: if_splits sum.splits)

lemma steer_input_account: "steer_input c k s = Some (r, s') \<Longrightarrow> resp_ids s' = resp_ids s"
  by (auto simp: steer_input_def dest!: go_select_in split: list.splits)

lemma run_step_account:
  "run_step c k p s = Some (s', pc') \<Longrightarrow> resp_ids s' = resp_ids s \<and> \<not> turn_finished pc'"
  by (cases p) (auto simp: turn_finished_def dest: resp_ids_register resp_ids_emitEvent
      steer_input_account split: prod.splits sum.splits)

lemma turn_step_account:
  "turn_step c k i pc s = Some (s', pc') \<Longrightarrow> resp_ids s' + turn_ids (i, pc') = resp_ids s + turn_ids (i, pc)"
proof (cases pc)
  case (TRun p)
  moreover assume "turn_step c k i pc s = Some (s', pc')"
  ultimately show ?thesis using run_step_account [of c k p s s' pc']
    by (simp add: turn_ids_def turn_finished_def)
qed (auto simp: turn_ids_def turn_finished_def await_def dest: resp_ids_write_request resp_ids_emitEvent
    split: prod.splits option.splits)

lemma replay_step_account:
  "replay_step k i pc s = Some (s', pc') \<Longrightarrow>
    resp_ids s' + replay_ids (i, pc') = resp_ids s + replay_ids (i, pc)"
  by (induction k i pc s rule: replay_step.induct)
    (auto simp: replay_ids_def dest: resp_ids_emitEvent split: prod.splits if_splits)

lemma receive_line_account: "receive_line l s = (s', pc) \<Longrightarrow> resp_ids s' = resp_ids s"
  by (auto simp: receive_line_def dest: resp_ids_route_lookup
      split: sum.splits if_splits prod.splits option.splits)

lemma reader_step_account: "reader_step c pc s = Some (s', pc') \<Longrightarrow> resp_ids s' = resp_ids s"
  by (induction c pc s rule: reader_step.induct)
    (auto simp: chan_send_def dest: receive_line_account dest!: go_select_in split: sum.splits if_splits)

lemma serve_step_account: "serve_step c r l pc s = Some (s', pc') \<Longrightarrow> resp_ids s' = resp_ids s"
  by (induction c r l pc s rule: serve_step.induct)
    (auto simp: cancelServe_def dest!: go_select_in split: reader_pc.splits option.splits if_splits)

lemma sum_list_swap:
  fixes f :: "'a \<Rightarrow> 'b multiset"
  shows "k < length xs \<Longrightarrow>
    sum_list (map f (xs[k := y])) + f (xs ! k) = sum_list (map f xs) + f y"
proof (induction xs arbitrary: k)
  case (Cons x xs)
  then show ?case by (cases k) (simp_all add: ac_simps)
qed simp

definition account :: "'t sys \<Rightarrow> bool" where
  "account y \<longleftrightarrow> (crashed y = None \<longrightarrow> resp_ids (srv y) + in_flight y = mset (taken y))"

lemma take_request_account:
  assumes "account y" and "lp y = LIdle" and "crashed y = None"
  shows "account (take_request env c raw rest y)"
proof (cases "dispatch env c raw ((srv y)\<lparr>dispatchCh := rest\<rparr>)")
  case (Inl panic)
  then show ?thesis by (simp add: take_request_def account_def Let_def)
next
  case (Inr sp)
  obtain s pc where sp: "sp = (s, pc)" by (cases sp)
  from dispatch_account [OF Inr [unfolded sp]]
  have "resp_ids s + loop_ids pc = resp_ids (srv y) + {#rw_id raw#}" by simp
  moreover have "resp_ids (srv y) + (sum_list (map turn_ids (tg y)) + sum_list (map replay_ids (rg y)))
      = mset (taken y)"
    using assms by (simp add: account_def in_flight_def)
  ultimately show ?thesis
    by (auto simp: take_request_def account_def Let_def Inr sp in_flight_def)
      (metis (no_types, lifting) add_mset_add_single union_assoc union_commute)
qed

lemma loop_step_account:
  assumes "account y" and "crashed y = None" and "loop_step env c (lp y) y = Some y'"
  shows "account y'"
proof (cases "lp y")
  case LIdle
  with assms take_request_account [OF assms(1) LIdle assms(2)] show ?thesis
    by (auto simp: account_def in_flight_def dest!: go_select_in split: list.splits if_splits)
next
  case (LBegin i input k)
  with assms show ?thesis
    by (auto simp: account_def in_flight_def turn_ids_def turn_finished_def ac_simps
        dest: resp_ids_emitEvent split: prod.splits option.splits)
next
  case (LSteerCall i input k)
  with assms show ?thesis
    by (auto simp: account_def in_flight_def split: sum.splits option.splits)
next
  case (LCancelMark i op t)
  with assms show ?thesis
    by (auto simp: account_def in_flight_def split: option.splits)
qed (use assms in \<open>auto simp: account_def in_flight_def replay_ids_def dest!: go_select_in split: if_splits\<close>)

lemma multiset_shift:
  fixes r :: "'a multiset"
  assumes "r' + t' = r + t" and "S' + t = S + t'"
  shows "r' + S' = r + S"
proof -
  have "r' + S' + (t' + t) = (r' + t') + (S' + t)" by (simp add: ac_simps)
  also have "\<dots> = r + S + (t' + t)" unfolding assms by (simp add: ac_simps)
  finally show ?thesis by simp
qed

lemma turn_account:
  assumes "account y" and "k < length (tg y)" and "tg y ! k = (i, pc)"
    and "turn_step c k i pc (srv y) = Some (s, pc')"
  shows "account (y\<lparr>srv := s, tg := (tg y)[k := (i, pc')], frames := fr\<rparr>)"
proof -
  let ?S = "sum_list (map turn_ids (tg y))" and ?S' = "sum_list (map turn_ids ((tg y)[k := (i, pc')]))"
  have "resp_ids s + ?S' = resp_ids (srv y) + ?S"
  proof (rule multiset_shift)
    show "resp_ids s + turn_ids (i, pc') = resp_ids (srv y) + turn_ids (i, pc)"
      using assms(4) by (rule turn_step_account)
    show "?S' + turn_ids (i, pc) = ?S + turn_ids (i, pc')"
      using sum_list_swap [OF assms(2), of turn_ids "(i, pc')"] assms(3) by simp
  qed
  note eq = this
  have shape: "resp_ids u + (L + S + R) = resp_ids u + S + (L + R)" for u :: "'a server" and L S R
    by (simp add: ac_simps)
  have total: "resp_ids s + (loop_ids l + ?S' + R) = resp_ids (srv y) + (loop_ids l + ?S + R)" for l R
    by (simp only: shape eq)
  show ?thesis using assms(1) by (simp add: account_def in_flight_def total)
qed

lemma replay_account:
  assumes "account y" and "k < length (rg y)" and "rg y ! k = (i, pc)"
    and "replay_step k i pc (srv y) = Some (s, pc')"
  shows "account (y\<lparr>srv := s, rg := (rg y)[k := (i, pc')]\<rparr>)"
proof -
  let ?S = "sum_list (map replay_ids (rg y))" and ?S' = "sum_list (map replay_ids ((rg y)[k := (i, pc')]))"
  have "resp_ids s + ?S' = resp_ids (srv y) + ?S"
  proof (rule multiset_shift)
    show "resp_ids s + replay_ids (i, pc') = resp_ids (srv y) + replay_ids (i, pc)"
      using assms(4) by (rule replay_step_account)
    show "?S' + replay_ids (i, pc) = ?S + replay_ids (i, pc')"
      using sum_list_swap [OF assms(2), of replay_ids "(i, pc')"] assms(3) by simp
  qed
  note eq = this
  have shape: "resp_ids u + (L + R + S) = resp_ids u + S + (L + R)" for u :: "'a server" and L S R
    by (simp add: ac_simps)
  have total: "resp_ids s + (loop_ids l + R + ?S') = resp_ids (srv y) + (loop_ids l + R + ?S)" for l R
    by (simp only: shape eq)
  show ?thesis using assms(1) by (simp add: account_def in_flight_def total)
qed

lemma step_account:
  assumes "account y" and "sys_step env a c y = Some y'"
  shows "account y'"
proof -
  from assms(2) have live: "crashed y = None" and st: "actor_step env a c y = Some y'"
    by (auto simp: sys_step_def split: if_splits)
  show ?thesis
  proof (cases a)
    case Looper
    with st assms(1) live loop_step_account show ?thesis by simp
  next
    case (TurnG k)
    with st assms(1) turn_account show ?thesis by (auto split: if_splits prod.splits)
  next
    case (ReplayG k)
    with st assms(1) replay_account show ?thesis by (auto split: if_splits prod.splits)
  qed (use st assms(1) in \<open>auto simp: account_def in_flight_def dest!: reader_step_account
      serve_step_account split: option.splits\<close>)
qed

lemma New_written: "written (New t w opts) = []"
proof -
  have "written (fold apply_option opts s) = written s" for s
  proof (induction opts arbitrary: s)
    case (Cons opt opts)
    then show ?case by (cases opt) simp_all
  qed simp
  from this [of "New_base t w"] show ?thesis by (simp add: New_def) (simp add: New_base_def)
qed

lemma reachable_account: "reachable env y \<Longrightarrow> account y"
proof (induction rule: reachable.induct)
  case (start parent t w opts y)
  then show ?case
    by (auto simp: Serve_def account_def in_flight_def resp_ids_def New_written map_filter_simps
        split: if_splits)
next
  case (step y a c y')
  then show ?case using step_account by blast
qed

end
