(* ===== verification/Server_Frames.thy ===== *)
theory Server_Frames
  imports Server_Answers
begin

text \<open>
  What sending leaves alone. The invariants of the running server are each about some fields of the
  server only, and most steps end with a message that touches none of them. The locale states the
  contract of such a view of the server (a preorder on server states that contains every state change
  made by sending a message, writing to the log
  or completing the handshake) and derives it for everything the server
  sends. Each invariant interprets it with its own view.
\<close>

lemma quiet_write_request: "quiet s (snd (write_request ctx i req s))"
  by (auto simp: write_request_def writeMessage_def quiet_write_line map_res_eq_Inr split: sum.splits)

lemma sent_line_parse_error [simp]: "sent_line (Inr (parse_error_line m))"
proof -
  have "rw_id msg = []" if "parse_line (Inr (parse_error_line m)) = Inr msg" for msg
    using that by (cases "dec_jsonrpc_error zero_jsonrpc_error (enc_jsonrpc_error
        \<lparr>je_code = codeParseError, je_message = m, je_data = None\<rparr>)")
      (auto simp: codec raw_defs parse_error_line_def dec_ptr_nonnull)
  then show ?thesis by (auto simp: sent_line_def)
qed

locale server_view =
  fixes same :: "'t server \<Rightarrow> 't server \<Rightarrow> bool"
  assumes refl [simp]: "same s s"
    and trans: "same s s' \<Longrightarrow> same s' s'' \<Longrightarrow> same s s''"
    and quiet: "quiet s s' \<Longrightarrow> same s s'"
    and handshake: "s' = s\<lparr>handshakeDone := True, negotiated := n, clientCaps := cc, serverCaps := sc,
      hooks := hk, transport := t, written := w, logs := l\<rparr> \<Longrightarrow> sent_since s s' \<Longrightarrow> same s s'"
begin

lemma send [simp]:
  "same s (send_error i c m s)" "same s (send_response i r s)" "same s (logf f m s)"
  by (simp_all add: quiet)

lemma emit: "emitEvent ctx ev s = (e, s') \<Longrightarrow> same s s'"
  using quiet_emitEvent [of s ctx ev] quiet by auto

lemma emit_log: "emitEvent ctx ev s = (e, s') \<Longrightarrow> same s (logf f m s')"
  using emit send(3) trans by blast

lemma log_error [simp]: "same s (send_error i c m (logf f m' s))"
  using send(3) send(1) trans by blast

lemma log_write [simp]: "sent_line (Inr j) \<Longrightarrow> same s (snd (write_line ctx j (logf f m s)))"
  using quiet_trans [OF quiet_logf quiet_write_line] by (rule quiet)

lemma write_req: "write_request ctx i req s = (e, s') \<Longrightarrow> same s s'"
  using quiet_write_request [of s ctx i req] quiet by auto

lemma end_answer [simp]: "same s (end_answer i r err was s)"
  by (simp add: end_answer_def split: option.split)

lemma replay_answer [simp]: "same s (replay_answer i r s)"
  by (simp add: replay_answer_def split: sum.split)

lemma set_plan: "handleSetPlanMode sw i ps s = Inr s' \<Longrightarrow> same s s'"
  using set_plan_mode_quiet by (blast intro: quiet)

lemma initialize [simp]: "same s (handleInitialize cmp i ps s)"
proof (cases "\<not> handshakeDone s \<and> (\<exists>p. unmarshal dec_initialize_params zero_initialize_params ps = Inr p)")
  case True
  then obtain p where p: "unmarshal dec_initialize_params zero_initialize_params ps = Inr p"
    "\<not> handshakeDone s" by auto
  obtain hks conf where h: "hook_tables cmp s (ip_hooks p) = (hks, conf)" by fastforce
  from handleInitialize_first [OF p(2) p(1) h, of i] obtain t w l e where
    eq: "handleInitialize cmp i ps s = s\<lparr>handshakeDone := True, negotiated := negotiateVersion (ip_protocol_version p),
        clientCaps := client_caps p, serverCaps := server_caps p, hooks := hks, transport := t, written := w, logs := l\<rparr>" and
    w: "w = written s @ [(Inr (rpc_success i (enc_initialize_result (initialize_answer s p conf))), e)]"
    by blast
  from w have "sent_since s (handleInitialize cmp i ps s)" by (simp add: eq sent_since_def)
  with eq show ?thesis by (rule handshake)
next
  case False
  then have "handshakeDone s \<or> (\<exists>err. unmarshal dec_initialize_params zero_initialize_params ps = Inl err)"
    by (cases "unmarshal dec_initialize_params zero_initialize_params ps") auto
  from handleInitialize_refused [OF this] show ?thesis by (simp add: quiet)
qed

end

end
