(* ===== verification/Server_Exclusive.thy ===== *)
theory Server_Exclusive
  imports Server_Frames
begin

text \<open>
  One turn at a time. Until \<open>Serve\<close> clears the active turn on its way out, at most one turn or replay
  is open, the fields \<open>activeTurn\<close> and \<open>activeOp\<close> say which, and the \<open>TurnBegin\<close> and \<open>TurnEnd\<close> events
  of the server alternate, each pair of the same turn.
\<close>

section \<open>Phases\<close>

text \<open>A turn is open until its entry in \<open>activeTurn\<close> is cleared, in frame until its \<open>TurnEnd\<close> event.\<close>

definition turn_open :: "turn_pc \<Rightarrow> bool" where
  "turn_open pc = (case pc of TEndRead _ _ \<Rightarrow> False | TEndAnswer _ _ _ \<Rightarrow> False | TDone \<Rightarrow> False | _ \<Rightarrow> True)"

definition in_frame :: "turn_pc \<Rightarrow> bool" where
  "in_frame pc = (case pc of TRun _ \<Rightarrow> True | TWrite _ _ _ _ _ \<Rightarrow> True | TAwait _ _ _ _ \<Rightarrow> True
     | TEndEmit _ _ \<Rightarrow> True | _ \<Rightarrow> False)"

definition replay_open :: "replay_pc \<Rightarrow> bool" where
  "replay_open pc = (case pc of RpRun _ \<Rightarrow> True | RpClear \<Rightarrow> True | _ \<Rightarrow> False)"

definition serving_phase :: "serve_pc \<Rightarrow> bool" where
  "serving_phase pc = (case pc of SvRead \<Rightarrow> True | SvPending _ \<Rightarrow> True | SvClear _ \<Rightarrow> True | _ \<Rightarrow> False)"

fun begins :: "loop_pc \<Rightarrow> nat option" where
  "begins (LBegin i input k) = Some k"
| "begins pc = None"

fun replays_next :: "loop_pc \<Rightarrow> nat option" where
  "replays_next (LReplay i k) = Some k"
| "replays_next pc = None"

text \<open>The bracketing of the events: \<open>Some (Some k)\<close> inside turn \<open>k\<close>, \<open>Some None\<close> between turns.\<close>

fun frame_event :: "nat option option \<Rightarrow> nat \<times> bool \<Rightarrow> nat option option" where
  "frame_event (Some None) (k, True) = Some (Some k)"
| "frame_event (Some (Some j)) (k, False) = (if j = k then Some None else None)"
| "frame_event _ _ = None"

definition bracket :: "(nat \<times> bool) list \<Rightarrow> nat option option" where
  "bracket fs = foldl frame_event (Some None) fs"

lemma bracket_snoc [simp]: "bracket (fs @ [f]) = frame_event (bracket fs) f"
  by (simp add: bracket_def)

section \<open>Indices\<close>

text \<open>The goroutines that exist, whatever \<open>Serve\<close> does.\<close>

definition counted :: "nat option \<Rightarrow> nat \<Rightarrow> nat \<Rightarrow> bool" where
  "counted next made started = (case next of
     None \<Rightarrow> made = started
   | Some k \<Rightarrow> k = started \<and> made = Suc k)"

definition index_inv :: "'t sys \<Rightarrow> bool" where
  "index_inv y \<longleftrightarrow> counted (begins (lp y)) (length (turns (srv y))) (length (tg y)) \<and>
     counted (replays_next (lp y)) (length (replays (srv y))) (length (rg y))"

text \<open>What is active, as the fields say, agrees with the goroutines.\<close>

definition fields_ok :: "nat option \<Rightarrow> op_ref option \<Rightarrow> nat \<Rightarrow> nat \<Rightarrow> nat option \<Rightarrow> nat option \<Rightarrow> bool" where
  "fields_ok at aop nt nr b r \<longleftrightarrow>
     (case aop of
        None \<Rightarrow> at = None \<and> b = None \<and> r = None
      | Some (TurnOp k) \<Rightarrow> at = Some k \<and> k < nt \<and> r = None \<and> (b = None \<or> b = Some k)
      | Some (ReplayOp k) \<Rightarrow> at = None \<and> k < nr \<and> b = None \<and> (r = None \<or> r = Some k))"

definition active_inv :: "'t sys \<Rightarrow> bool" where
  "active_inv y \<longleftrightarrow>
     (\<forall>k < length (tg y). turn_open (snd (tg y ! k)) = (activeTurn (srv y) = Some k)) \<and>
     (\<forall>k < length (rg y). replay_open (snd (rg y ! k)) = (activeOp (srv y) = Some (ReplayOp k))) \<and>
     fields_ok (activeTurn (srv y)) (activeOp (srv y)) (length (turns (srv y)))
       (length (replays (srv y))) (begins (lp y)) (replays_next (lp y))"

definition frames_inv :: "'t sys \<Rightarrow> bool" where
  "frames_inv y \<longleftrightarrow> (\<exists>f. bracket (frames y) = Some f \<and>
     (\<forall>k < length (tg y). in_frame (snd (tg y ! k)) = (f = Some k)) \<and>
     (\<forall>k. f = Some k \<longrightarrow> k < length (tg y)))"

section \<open>What the steps leave alone\<close>

text \<open>\<open>same_active s s'\<close>: the active fields and the numbers of turns and replays are unchanged.\<close>

definition same_active :: "'t server \<Rightarrow> 't server \<Rightarrow> bool" where
  "same_active s s' \<longleftrightarrow> activeTurn s' = activeTurn s \<and> activeOp s' = activeOp s \<and>
     length (turns s') = length (turns s) \<and> length (replays s') = length (replays s)"

interpretation active: server_view same_active
  by unfold_locales (simp_all add: same_active_def quiet_fields)

lemma same_active_update [simp]:
  "same_active s (s'\<lparr>pending := p\<rparr>) = same_active s s'" "same_active s (s'\<lparr>chans := q\<rparr>) = same_active s s'"
  "same_active s (s'\<lparr>dispatchCh := f\<rparr>) = same_active s s'"
  "same_active s (s'\<lparr>serveCtx := g\<rparr>) = same_active s s'"
  "same_active s (s'\<lparr>serving := h\<rparr>) = same_active s s'"
  "same_active s (s'\<lparr>requestCounter := n\<rparr>) = same_active s s'"
  "same_active s (s'\<lparr>transport := t\<rparr>) = same_active s s'"
  "same_active (s\<lparr>dispatchCh := f\<rparr>) s' = same_active s s'"
  by (simp_all add: same_active_def)

lemma same_active_upd_turn [simp]: "same_active s (upd_turn k f s)"
  by (simp add: upd_turn_def same_active_def)

lemma same_active_cancel_op [simp]: "same_active s (cancel_op op s)"
  by (cases op) (simp_all add: cancel_turn_def, simp add: same_active_def)

lemma same_active_turn_close [simp]: "same_active s (turn_close k s)"
  by (simp add: turn_close_def)

lemma same_active_unregister [simp]: "same_active s (unregister i c s') = same_active s s'"
  by (simp add: unregister_def)

lemma same_active_register: "register s = (i, c, s') \<Longrightarrow> same_active s s'"
  by (auto simp: register_def nextRequestID_def Let_def)

lemma same_active_closePending [simp]: "same_active s (closePending e s)"
  by (simp add: closePending_def)

definition is_clear :: "turn_pc \<Rightarrow> bool" where
  "is_clear pc = (case pc of TEndClear _ _ \<Rightarrow> True | _ \<Rightarrow> False)"

lemma run_step_phase:
  assumes "run_step c k p s = Some (s', pc')"
  shows "same_active s s' \<and> turn_open pc' \<and> in_frame pc'"
  using assms
  by (cases p) (auto simp: turn_open_def in_frame_def steer_input_def dest: same_active_register
      active.emit dest!: go_select_in split: prod.splits sum.splits list.splits)

lemma turn_step_phase:
  assumes "turn_step c k i pc s = Some (s', pc')"
  shows "(if is_clear pc then s' = clear_active k s else same_active s s') \<and>
    turn_open pc' = (turn_open pc \<and> \<not> is_clear pc) \<and>
    in_frame pc' = (in_frame pc \<and> end_frame k pc = []) \<and>
    (end_frame k pc \<noteq> [] \<longrightarrow> end_frame k pc = [(k, False)] \<and> in_frame pc)"
proof (cases pc)
  case (TRun p)
  with assms run_step_phase [of c k p s s' pc'] show ?thesis
    by (simp add: is_clear_def turn_open_def in_frame_def end_frame_def)
next
  case (TWrite call req j q f)
  with assms active.write_req [of "ch_ctx c" j req s] show ?thesis
    by (auto simp: is_clear_def turn_open_def in_frame_def end_frame_def split: prod.splits option.splits)
next
  case (TEndEmit r err)
  with assms active.emit [of "serveCtx s" "Some TurnEndEvent" s] show ?thesis
    by (auto simp: is_clear_def turn_open_def in_frame_def end_frame_def split: prod.splits option.splits
        intro: active.trans)
qed (use assms in \<open>auto simp: is_clear_def turn_open_def in_frame_def end_frame_def await_def\<close>)

lemma replay_step_phase:
  assumes "replay_step k i pc s = Some (s', pc')"
  shows "(if pc = RpClear then s' = (if activeOp s = Some (ReplayOp k) then s\<lparr>activeOp := None\<rparr> else s)
      else same_active s s') \<and> replay_open pc' = (replay_open pc \<and> pc \<noteq> RpClear)"
proof (cases pc)
  case (RpRun p)
  with assms show ?thesis
    by (cases p) (auto simp: replay_open_def dest: active.emit split: prod.splits)
qed (use assms in \<open>auto simp: replay_open_def same_active_def\<close>)

lemma reader_step_active: "reader_step c pc s = Some (s', pc') \<Longrightarrow> same_active s s'"
proof (cases pc)
  case RRead
  moreover assume "reader_step c pc s = Some (s', pc')"
  ultimately show ?thesis
    by (auto simp: receive_line_def route_lookup_def split: sum.splits option.splits if_splits)
qed (auto simp: chan_send_def dest!: go_select_in split: if_splits)

lemma serve_step_active:
  assumes "serve_step c r l pc s = Some (s', pc')"
  shows "length (turns s') = length (turns s) \<and> length (replays s') = length (replays s) \<and>
    (serving_phase pc' \<longrightarrow> serving_phase pc \<and> same_active s s')"
proof (cases pc)
  case (SvFire op err)
  have "same_active s (cancel_op op s)" by simp
  with SvFire assms show ?thesis by (auto simp: serving_phase_def same_active_def)
next
  case (SvPending err)
  then show ?thesis using assms same_active_closePending [of s]
    by (auto simp: serving_phase_def same_active_def split: option.splits if_splits)
next
  case (SvWait op err)
  have "same_active s (logf (late_warning op) [] s)" by simp
  with SvWait assms show ?thesis
    by (auto simp: serving_phase_def same_active_def dest!: go_select_in split: if_splits)
qed (use assms in \<open>auto simp: serving_phase_def same_active_def cancelServe_def
    split: reader_pc.splits option.splits if_splits\<close>)

section \<open>The invariant\<close>

definition turns_inv :: "'t sys \<Rightarrow> bool" where
  "turns_inv y \<longleftrightarrow> index_inv y \<and> (serving_phase (sv y) \<longrightarrow> active_inv y \<and> frames_inv y)"

lemma turns_inv_same:
  assumes "turns_inv y" and "same_active (srv y) s"
  shows "turns_inv (y\<lparr>srv := s\<rparr>)"
  using assms by (simp add: turns_inv_def index_inv_def active_inv_def frames_inv_def same_active_def)

lemma turns_inv_loop:
  assumes "turns_inv y" and "begins pc = begins (lp y)" and "replays_next pc = replays_next (lp y)"
  shows "turns_inv (y\<lparr>lp := pc\<rparr>)"
  using assms by (simp add: turns_inv_def index_inv_def active_inv_def frames_inv_def)

lemma turns_inv_ghost:
  "turns_inv y \<Longrightarrow> turns_inv (y\<lparr>taken := t\<rparr>)" "turns_inv y \<Longrightarrow> turns_inv (y\<lparr>crashed := p\<rparr>)"
  "turns_inv y \<Longrightarrow> turns_inv (y\<lparr>rd := r\<rparr>)"
  by (simp_all add: turns_inv_def index_inv_def active_inv_def frames_inv_def)

lemma turns_inv_turn:
  assumes inv: "turns_inv y" and k: "k < length (tg y)" "tg y ! k = (i, pc)"
    and st: "turn_step c k i pc (srv y) = Some (s, pc')"
  shows "turns_inv (y\<lparr>srv := s, tg := (tg y)[k := (i, pc')], frames := frames y @ end_frame k pc\<rparr>)"
proof -
  note ph = turn_step_phase [OF st]
  have len: "length (turns s) = length (turns (srv y))" "length (replays s) = length (replays (srv y))"
    using ph by (auto simp: same_active_def clear_active_def split: if_splits)
  let ?y = "y\<lparr>srv := s, tg := (tg y)[k := (i, pc')], frames := frames y @ end_frame k pc\<rparr>"
  have "index_inv ?y"
    using inv len by (simp add: turns_inv_def index_inv_def)
  moreover have "active_inv ?y" if "serving_phase (sv y)"
  proof -
    have a: "active_inv y" using inv that by (simp add: turns_inv_def)
    then have k': "turn_open pc = (activeTurn (srv y) = Some k)" using k by (auto simp: active_inv_def)
    show ?thesis
    proof (cases "is_clear pc")
      case False
      with ph a k k' len show ?thesis
        by (auto simp: active_inv_def same_active_def nth_update_if)
    next
      case True
      then have "turn_open pc" by (cases pc) (auto simp: is_clear_def turn_open_def)
      with k' have t: "activeTurn (srv y) = Some k" by simp
      with a have o: "activeOp (srv y) = Some (TurnOp k)" and r: "replays_next (lp y) = None"
        and b: "begins (lp y) = None \<or> begins (lp y) = Some k"
        by (auto simp: active_inv_def fields_ok_def split: option.splits op_ref.splits)
      have "begins (lp y) \<noteq> Some k" using inv k by (auto simp: turns_inv_def index_inv_def counted_def)
      with b have "begins (lp y) = None" by simp
      with True ph a k t o r show ?thesis
        by (auto simp: active_inv_def clear_active_def nth_update_if fields_ok_def)
    qed
  qed
  moreover have "frames_inv ?y" if "serving_phase (sv y)"
  proof -
    have "frames_inv y" using inv that by (simp add: turns_inv_def)
    then obtain f where f: "bracket (frames y) = Some f"
      "\<forall>k < length (tg y). in_frame (snd (tg y ! k)) = (f = Some k)"
      "\<forall>k. f = Some k \<longrightarrow> k < length (tg y)"
      by (auto simp: frames_inv_def)
    show ?thesis
    proof (cases "end_frame k pc = []")
      case True
      with ph f k show ?thesis by (auto simp: frames_inv_def nth_update_if)
    next
      case False
      with ph f(2) k have "f = Some k" by auto
      with False ph f k show ?thesis by (auto simp: frames_inv_def nth_update_if)
    qed
  qed
  ultimately show ?thesis by (simp add: turns_inv_def)
qed

lemma turns_inv_replay:
  assumes inv: "turns_inv y" and k: "k < length (rg y)" "rg y ! k = (i, pc)"
    and st: "replay_step k i pc (srv y) = Some (s, pc')"
  shows "turns_inv (y\<lparr>srv := s, rg := (rg y)[k := (i, pc')]\<rparr>)"
proof -
  note ph = replay_step_phase [OF st]
  have len: "length (turns s) = length (turns (srv y))" "length (replays s) = length (replays (srv y))"
    using ph by (auto simp: same_active_def split: if_splits)
  let ?y = "y\<lparr>srv := s, rg := (rg y)[k := (i, pc')]\<rparr>"
  have "index_inv ?y" using inv len by (simp add: turns_inv_def index_inv_def)
  moreover have "active_inv ?y" if "serving_phase (sv y)"
  proof -
    have a: "active_inv y" using inv that by (simp add: turns_inv_def)
    then have k': "replay_open pc = (activeOp (srv y) = Some (ReplayOp k))"
      using k by (auto simp: active_inv_def)
    show ?thesis
    proof (cases "pc = RpClear")
      case False
      with ph a k k' len show ?thesis by (auto simp: active_inv_def same_active_def nth_update_if)
    next
      case True
      with k' have o: "activeOp (srv y) = Some (ReplayOp k)" by (simp add: replay_open_def)
      with a have t: "activeTurn (srv y) = None" and b: "begins (lp y) = None"
        and r: "replays_next (lp y) = None \<or> replays_next (lp y) = Some k"
        by (auto simp: active_inv_def fields_ok_def)
      have "replays_next (lp y) \<noteq> Some k" using inv k by (auto simp: turns_inv_def index_inv_def counted_def)
      with r have "replays_next (lp y) = None" by simp
      with True ph a k t o b show ?thesis
        by (auto simp: active_inv_def nth_update_if fields_ok_def)
    qed
  qed
  moreover have "frames_inv ?y" if "serving_phase (sv y)"
    using inv that by (simp add: turns_inv_def frames_inv_def)
  ultimately show ?thesis by (simp add: turns_inv_def)
qed

lemma turns_inv_serve:
  assumes "turns_inv y" and "serve_step c r l (sv y) (srv y) = Some (s, pc)"
  shows "turns_inv (y\<lparr>srv := s, sv := pc\<rparr>)"
  using serve_step_active [OF assms(2)] assms(1)
  by (auto simp: turns_inv_def index_inv_def active_inv_def frames_inv_def same_active_def)

text \<open>How a new turn, a new replay or nothing new comes out of a dispatched request.\<close>

lemma dispatch_active:
  assumes "dispatch env c raw s = Inr (s', pc)"
  shows "same_active s s' \<and> begins pc = None \<and> replays_next pc = None \<or>
    activeTurn s = None \<and> activeOp s = None \<and>
      ((\<exists>k. k = length (turns s) \<and> begins pc = Some k \<and> replays_next pc = None \<and>
          activeTurn s' = Some k \<and> activeOp s' = Some (TurnOp k) \<and>
          length (turns s') = Suc k \<and> length (replays s') = length (replays s)) \<or>
       (\<exists>k. k = length (replays s) \<and> begins pc = None \<and> replays_next pc = Some k \<and>
          activeTurn s' = None \<and> activeOp s' = Some (ReplayOp k) \<and>
          length (turns s') = length (turns s) \<and> length (replays s') = Suc k))"
  using assms
  by (auto simp: dispatch_def Let_def handlePrompt_def handleSteer_def handleCancel_def handleReplay_def
      dest: active.set_plan split: if_splits sum.splits option.splits)

lemma turns_inv_take:
  assumes inv: "turns_inv y" and l: "lp y = LIdle"
  shows "turns_inv (take_request env c raw rest y)"
proof (cases "dispatch env c raw ((srv y)\<lparr>dispatchCh := rest\<rparr>)")
  case (Inl panic)
  with inv show ?thesis by (simp add: take_request_def Let_def turns_inv_ghost)
next
  case (Inr sp)
  obtain s pc where sp: "sp = (s, pc)" by (cases sp)
  have y': "take_request env c raw rest y = y\<lparr>taken := taken y @ [rw_id raw], srv := s, lp := pc\<rparr>"
    by (simp add: take_request_def Inr sp)
  have old: "begins (lp y) = None" "replays_next (lp y) = None" by (simp_all add: l)
  from dispatch_active [OF Inr [unfolded sp]] show ?thesis
  proof (elim disjE conjE exE)
    assume "same_active ((srv y)\<lparr>dispatchCh := rest\<rparr>) s" "begins pc = None" "replays_next pc = None"
    with inv old show ?thesis
      unfolding y'
      by (simp add: turns_inv_def index_inv_def active_inv_def frames_inv_def same_active_def)
  next
    fix k
    assume k: "k = length (turns ((srv y)\<lparr>dispatchCh := rest\<rparr>))" and "begins pc = Some k" "replays_next pc = None"
      "activeTurn s = Some k" "activeOp s = Some (TurnOp k)" "length (turns s) = Suc k"
      "length (replays s) = length (replays ((srv y)\<lparr>dispatchCh := rest\<rparr>))"
      and none: "activeTurn ((srv y)\<lparr>dispatchCh := rest\<rparr>) = None" "activeOp ((srv y)\<lparr>dispatchCh := rest\<rparr>) = None"
    moreover have "length (tg y) = k" using inv old k by (simp add: turns_inv_def index_inv_def counted_def)
    ultimately show ?thesis
      using inv old
      unfolding y'
      by (auto simp: turns_inv_def index_inv_def active_inv_def frames_inv_def counted_def fields_ok_def)
  next
    fix k
    assume k: "k = length (replays ((srv y)\<lparr>dispatchCh := rest\<rparr>))" and "begins pc = None" "replays_next pc = Some k"
      "activeTurn s = None" "activeOp s = Some (ReplayOp k)" "length (replays s) = Suc k"
      "length (turns s) = length (turns ((srv y)\<lparr>dispatchCh := rest\<rparr>))"
      and none: "activeTurn ((srv y)\<lparr>dispatchCh := rest\<rparr>) = None" "activeOp ((srv y)\<lparr>dispatchCh := rest\<rparr>) = None"
    moreover have "length (rg y) = k" using inv old k by (simp add: turns_inv_def index_inv_def counted_def)
    ultimately show ?thesis
      using inv old
      unfolding y'
      by (auto simp: turns_inv_def index_inv_def active_inv_def frames_inv_def counted_def fields_ok_def)
  qed
qed

text \<open>The start of the goroutine of a turn whose \<open>TurnBegin\<close> event was emitted.\<close>

lemma turns_inv_begin:
  assumes inv: "turns_inv y" and l: "lp y = LBegin i input k" and s: "same_active (srv y) s"
    and l': "begins pc = None" "replays_next pc = None" and new: "turn_open tp" "in_frame tp"
  shows "turns_inv (y\<lparr>srv := s, lp := pc, tg := tg y @ [(i, tp)], frames := frames y @ [(k, True)]\<rparr>)"
proof -
  let ?y = "y\<lparr>srv := s, lp := pc, tg := tg y @ [(i, tp)], frames := frames y @ [(k, True)]\<rparr>"
  have k: "k = length (tg y)" "length (turns (srv y)) = Suc k"
    "length (replays (srv y)) = length (rg y)"
    using inv l by (auto simp: turns_inv_def index_inv_def counted_def)
  have "index_inv ?y" using k s l' by (simp add: index_inv_def counted_def same_active_def)
  moreover have "active_inv ?y \<and> frames_inv ?y" if "serving_phase (sv y)"
  proof -
    have a: "active_inv y" and f: "frames_inv y" using inv that by (auto simp: turns_inv_def)
    from a l have at: "activeTurn (srv y) = Some k" "activeOp (srv y) = Some (TurnOp k)"
      by (auto simp: active_inv_def fields_ok_def split: option.splits op_ref.splits)
    have "active_inv ?y"
      using a s l' new k at
      by (auto simp: active_inv_def same_active_def fields_ok_def nth_append less_Suc_eq)
    moreover have "frames_inv ?y"
    proof -
      obtain g where g: "bracket (frames y) = Some g"
        "\<forall>j < length (tg y). in_frame (snd (tg y ! j)) = (g = Some j)"
        "\<forall>j. g = Some j \<longrightarrow> j < length (tg y)"
        using f by (auto simp: frames_inv_def)
      have "g = None"
      proof (cases g)
        case (Some j)
        with g have j: "j < length (tg y)" "in_frame (snd (tg y ! j))" by auto
        then have "turn_open (snd (tg y ! j))"
          by (auto simp: in_frame_def turn_open_def split: turn_pc.splits)
        with a j at have "j = k" by (auto simp: active_inv_def)
        with j k show ?thesis by simp
      qed
      with g new k show ?thesis
        by (auto simp: frames_inv_def nth_append less_Suc_eq)
    qed
    ultimately show ?thesis by simp
  qed
  ultimately show ?thesis by (simp add: turns_inv_def)
qed

lemma turns_inv_replay_start:
  assumes inv: "turns_inv y" and l: "lp y = LReplay i k"
  shows "turns_inv (y\<lparr>rg := rg y @ [(i, RpRun p)], lp := LIdle\<rparr>)"
proof -
  have k: "k = length (rg y)" "length (replays (srv y)) = Suc k" "length (turns (srv y)) = length (tg y)"
    using inv l by (auto simp: turns_inv_def index_inv_def counted_def)
  let ?y = "y\<lparr>rg := rg y @ [(i, RpRun p)], lp := LIdle\<rparr>"
  have "active_inv ?y" if a: "active_inv y"
  proof -
    from a l have "activeTurn (srv y) = None" "activeOp (srv y) = Some (ReplayOp k)"
      by (auto simp: active_inv_def fields_ok_def split: option.splits op_ref.splits)
    with a k show ?thesis
      by (auto simp: active_inv_def fields_ok_def replay_open_def nth_append less_Suc_eq)
  qed
  with inv k show ?thesis
    by (auto simp: turns_inv_def index_inv_def counted_def frames_inv_def)
qed

lemma turns_inv_loop_same:
  assumes "turns_inv y" and "same_active (srv y) s" and "begins (lp y) = None" "replays_next (lp y) = None"
    and "begins pc = None" "replays_next pc = None"
  shows "turns_inv (y\<lparr>srv := s, lp := pc\<rparr>)"
  using turns_inv_loop [OF turns_inv_same [OF assms(1,2)], of pc] assms(3-6) by simp

lemma turns_inv_loop_step:
  assumes inv: "turns_inv y" and st: "loop_step env c (lp y) y = Some y'"
  shows "turns_inv y'"
proof (cases "lp y")
  case LIdle
  then have "turns_inv (y\<lparr>lp := LDone\<rparr>)" using turns_inv_loop [OF inv, of LDone] by simp
  with st LIdle turns_inv_take [OF inv LIdle] show ?thesis
    by (auto dest!: go_select_in split: list.splits if_splits)
next
  case (LBegin i input k)
  obtain e s where e: "emitEvent (serveCtx (srv y)) (Some (TurnBeginEvent \<lparr>tb_user_input = input\<rparr>)) (srv y) = (e, s)"
    by fastforce
  with st LBegin have "(\<exists>pc tp. y' = y\<lparr>srv := s, lp := pc, tg := tg y @ [(i, tp)],
      frames := frames y @ [(k, True)]\<rparr> \<and> begins pc = None \<and> replays_next pc = None \<and>
      turn_open tp \<and> in_frame tp)"
    by (cases e) (auto simp: turn_open_def in_frame_def intro!: exI [of _ LIdle] exI [of _ "LJoin k"] exI)
  with turns_inv_begin [OF inv LBegin active.emit [OF e]] show ?thesis by blast
next
  case (LReplay i k)
  with st inv show ?thesis by (auto intro: turns_inv_replay_start)
next
  case (LSteer i input k)
  with st have "\<exists>s pc. y' = y\<lparr>srv := s, lp := pc\<rparr> \<and> same_active (srv y) s \<and> begins pc = None \<and> replays_next pc = None"
    by (fastforce dest!: go_select_in split: if_splits)
  with inv LSteer turns_inv_loop_same show ?thesis by fastforce
next
  case (LSteerCall i input k)
  with st have "(\<exists>s pc. y' = y\<lparr>srv := s, lp := pc\<rparr> \<and> same_active (srv y) s \<and> begins pc = None \<and> replays_next pc = None) \<or>
     (\<exists>p. y' = y\<lparr>crashed := p\<rparr>)"
    by (fastforce split: sum.splits option.splits)
  with inv LSteerCall turns_inv_loop_same turns_inv_ghost show ?thesis by fastforce
next
  case (LCancelMark i op t)
  have "same_active (srv y) (case t of Some k \<Rightarrow> upd_turn k (\<lambda>t. t\<lparr>tn_cancelled := True\<rparr>) (srv y)
      | None \<Rightarrow> srv y)" by (simp split: option.split)
  from turns_inv_loop_same [OF inv this, of "LCancelFire i op"] LCancelMark st show ?thesis by auto
next
  case (LCancelFire i op)
  with st have "\<exists>s pc. y' = y\<lparr>srv := s, lp := pc\<rparr> \<and> same_active (srv y) s \<and> begins pc = None \<and> replays_next pc = None"
    by fastforce
  with inv LCancelFire turns_inv_loop_same show ?thesis by fastforce
next
  case (LCancelWait i op)
  with st have "\<exists>s pc. y' = y\<lparr>srv := s, lp := pc\<rparr> \<and> same_active (srv y) s \<and> begins pc = None \<and> replays_next pc = None"
    by (fastforce dest!: go_select_in split: if_splits)
  with inv LCancelWait turns_inv_loop_same show ?thesis by fastforce
next
  case (LJoin k)
  with st have "y' = y\<lparr>lp := LIdle\<rparr>" by (auto split: if_splits)
  with inv LJoin show ?thesis by (auto intro: turns_inv_loop)
next
  case LDone
  with st show ?thesis by simp
qed

lemma turns_inv_step:
  assumes inv: "turns_inv y" and st: "sys_step env a c y = Some y'"
  shows "turns_inv y'"
proof -
  from st have st: "actor_step env a c y = Some y'" by (auto simp: sys_step_def split: if_splits)
  show ?thesis
  proof (cases a)
    case Reader
    with st inv show ?thesis
      by (auto dest!: reader_step_active intro: turns_inv_ghost(3) turns_inv_same)
  next
    case Looper
    with st inv turns_inv_loop_step show ?thesis by auto
  next
    case (TurnG k)
    with st inv turns_inv_turn show ?thesis by (auto split: if_splits prod.splits)
  next
    case (ReplayG k)
    with st inv turns_inv_replay show ?thesis by (auto split: if_splits prod.splits)
  next
    case Main
    with st inv turns_inv_serve show ?thesis by auto
  next
    case Parent
    with st inv show ?thesis by (auto intro: turns_inv_same split: option.splits)
  next
    case Peer
    with st inv show ?thesis by (auto intro: turns_inv_same)
  qed
qed

lemma New_fields:
  "activeTurn (New t w opts) = None" "activeOp (New t w opts) = None" "turns (New t w opts) = []"
  "replays (New t w opts) = []" "pending (New t w opts) = []" "chans (New t w opts) = []"
  "requestCounter (New t w opts) = 0" "serving (New t w opts) = False"
proof -
  have "activeTurn (fold apply_option opts s) = activeTurn s \<and> activeOp (fold apply_option opts s) = activeOp s \<and>
    turns (fold apply_option opts s) = turns s \<and> replays (fold apply_option opts s) = replays s \<and>
    pending (fold apply_option opts s) = pending s \<and> chans (fold apply_option opts s) = chans s \<and>
    requestCounter (fold apply_option opts s) = requestCounter s \<and>
    serving (fold apply_option opts s) = serving s" for s
  proof (induction opts arbitrary: s)
    case (Cons opt opts)
    then show ?case by (cases opt) simp_all
  qed simp
  from this [of "New_base t w"]
  show "activeTurn (New t w opts) = None" "activeOp (New t w opts) = None" "turns (New t w opts) = []"
    "replays (New t w opts) = []" "pending (New t w opts) = []" "chans (New t w opts) = []"
    "requestCounter (New t w opts) = 0" "serving (New t w opts) = False"
    by (simp_all add: New_def) (simp_all add: New_base_def)
qed

lemma reachable_turns_inv: "reachable env y \<Longrightarrow> turns_inv y"
proof (induction rule: reachable.induct)
  case (start parent t w opts y)
  then show ?case
    by (auto simp: Serve_def turns_inv_def index_inv_def active_inv_def frames_inv_def counted_def
        fields_ok_def bracket_def New_fields)
next
  case (step y a c y')
  then show ?case using turns_inv_step by blast
qed

end
