(* ===== verification/Server_Matching.thy ===== *)
theory Server_Matching
  imports Server_Exclusive
begin

text \<open>
  Responses reach the goroutine that asked: a message in the channel of a waiting request carries that
  request's id, or is the error with which \<open>closePending\<close> ends all requests. The request counter is
  assumed not to have wrapped around, that is, fewer than \<open>2^64\<close> requests were made. The second part
  is about \<open>cancel\<close>: its success answer comes after the \<open>TurnEnd\<close> event of the turn.
\<close>

section \<open>The invariant\<close>

fun waits :: "turn_pc \<Rightarrow> (string \<times> nat) option" where
  "waits (TWrite call req i q f) = Some (i, q)"
| "waits (TAwait call i q f) = Some (i, q)"
| "waits pc = None"

definition table_ok :: "'t server \<Rightarrow> bool" where
  "table_ok s \<longleftrightarrow> unat (requestCounter s) = length (chans s) \<and>
     distinct (map fst (pending s)) \<and> distinct (map snd (pending s)) \<and>
     (\<forall>i q. (i, q) \<in> set (pending s) \<longrightarrow> q < length (chans s) \<and> chans s ! q = None \<and> i = srv_id (q + 1)) \<and>
     (\<forall>q m. q < length (chans s) \<longrightarrow> chans s ! q = Some m \<longrightarrow>
        rw_id m = srv_id (q + 1) \<or> (\<exists>e. m = close_message e))"

definition route_ok :: "reader_pc \<Rightarrow> 't server \<Rightarrow> bool" where
  "route_ok pc s = (case pc of
     RRoute q raw \<Rightarrow> q < length (chans s) \<and> chans s ! q = None \<and> rw_id raw = srv_id (q + 1) \<and>
       q \<notin> snd ` set (pending s)
   | _ \<Rightarrow> True)"

definition waits_ok :: "(string \<times> turn_pc) list \<Rightarrow> 't server \<Rightarrow> bool" where
  "waits_ok gs s \<longleftrightarrow>
     (\<forall>k i q. k < length gs \<longrightarrow> waits (snd (gs ! k)) = Some (i, q) \<longrightarrow> q < length (chans s) \<and> i = srv_id (q + 1)) \<and>
     (\<forall>j k i q. j < length gs \<longrightarrow> k < length gs \<longrightarrow> waits (snd (gs ! j)) = Some (i, q) \<longrightarrow>
        waits (snd (gs ! k)) = Some (i, q) \<longrightarrow> j = k)"

definition match_inv :: "'t sys \<Rightarrow> bool" where
  "match_inv y \<longleftrightarrow> (length (chans (srv y)) < 2 ^ 64 \<longrightarrow>
     table_ok (srv y) \<and> route_ok (rd y) (srv y) \<and> waits_ok (tg y) (srv y))"

lemma table_pending_inv: "table_ok s \<Longrightarrow> pending_inv s"
  by (fastforce simp: table_ok_def pending_inv_def)

text \<open>Steps that leave the counter, the table and the channels alone.\<close>

definition same_table :: "'t server \<Rightarrow> 't server \<Rightarrow> bool" where
  "same_table s s' \<longleftrightarrow> requestCounter s' = requestCounter s \<and> pending s' = pending s \<and> chans s' = chans s"

lemma same_table_ok:
  "same_table s s' \<Longrightarrow> table_ok s' = table_ok s" "same_table s s' \<Longrightarrow> route_ok pc s' = route_ok pc s"
  "same_table s s' \<Longrightarrow> waits_ok gs s' = waits_ok gs s"
  by (simp_all add: same_table_def table_ok_def route_ok_def waits_ok_def split: reader_pc.split)

interpretation table: server_view same_table
  by unfold_locales (simp_all add: same_table_def quiet_fields)

lemma same_table_update [simp]:
  "same_table s (s'\<lparr>turns := a\<rparr>) = same_table s s'" "same_table s (s'\<lparr>replays := b\<rparr>) = same_table s s'"
  "same_table s (s'\<lparr>activeTurn := c\<rparr>) = same_table s s'" "same_table s (s'\<lparr>activeOp := d\<rparr>) = same_table s s'"
  "same_table s (s'\<lparr>dispatchCh := f\<rparr>) = same_table s s'" "same_table s (s'\<lparr>serveCtx := g\<rparr>) = same_table s s'"
  "same_table s (s'\<lparr>serving := h\<rparr>) = same_table s s'" "same_table s (s'\<lparr>transport := t\<rparr>) = same_table s s'"
  "same_table (s\<lparr>dispatchCh := f\<rparr>) s' = same_table s s'"
  by (simp_all add: same_table_def)

lemma same_table_upd_turn [simp]: "same_table s (upd_turn k f s)"
  by (simp add: upd_turn_def)

lemma same_table_cancel_op [simp]: "same_table s (cancel_op op s)"
  by (cases op) (simp_all add: cancel_turn_def)

lemma same_table_turn_close [simp]: "same_table s (turn_close k s)"
  by (simp add: turn_close_def)

lemma same_table_clear_active [simp]: "same_table s (clear_active k s)"
  by (simp add: clear_active_def)

lemma same_table_dispatch: "dispatch env c raw s = Inr (s', pc) \<Longrightarrow> same_table s s'"
  by (auto simp: dispatch_def Let_def handlePrompt_def handleSteer_def handleCancel_def handleReplay_def
      dest: table.set_plan split: if_splits sum.splits option.splits)

lemma same_table_replay_step: "replay_step k i pc s = Some (s', pc') \<Longrightarrow> same_table s s'"
proof (cases pc)
  case (RpRun p)
  moreover assume "replay_step k i pc s = Some (s', pc')"
  ultimately show ?thesis
    by (cases p) (auto dest: table.emit split: prod.splits)
qed auto

lemma same_table_loop_step: "loop_step env c pc y = Some y' \<Longrightarrow> same_table (srv y) (srv y')"
  by (cases pc) (auto simp: take_request_def Let_def dest: table.emit
      dest!: same_table_dispatch go_select_in split: list.splits if_splits sum.splits prod.splits option.splits)

section \<open>Steps that use the table\<close>

lemma table_register:
  assumes ok: "table_ok s" and len: "length (chans s) < 2 ^ 64 - 1" and r: "register s = (i, q, s')"
  shows "table_ok s' \<and> i = srv_id (q + 1) \<and> q = length (chans s) \<and> chans s' = chans s @ [None] \<and>
    pending s' = pending s @ [(i, q)]"
proof -
  have c: "unat (requestCounter s) = length (chans s)" using ok by (simp add: table_ok_def)
  have s': "i = srv_id (length (chans s) + 1)" "q = length (chans s)"
    "s' = s\<lparr>requestCounter := requestCounter s + 1, chans := chans s @ [None], pending := pending s @ [(i, q)]\<rparr>"
    using r register_eq [OF table_pending_inv [OF ok]] c len by auto
  have "unat (requestCounter s + 1) = length (chans s) + 1" using unat_succ [of "requestCounter s"] c len by simp
  moreover have "i \<notin> fst ` set (pending s)" "q \<notin> snd ` set (pending s)"
    using ok s' unfolding table_ok_def by force+
  ultimately show ?thesis
    using ok s' by (auto simp: table_ok_def nth_append less_Suc_eq)
qed

lemma table_unregister: "table_ok s \<Longrightarrow> table_ok (unregister i q s)"
  using set_delete_subset [of i "pending s"]
  by (auto simp: table_ok_def unregister_def nth_update_if distinct_delete distinct_snd_delete)

lemma snd_delete: "q \<notin> snd ` set m \<Longrightarrow> q \<notin> snd ` set (AList.delete i m)"
  using set_delete_subset [of i m] by blast

lemma route_unregister: "route_ok pc s \<Longrightarrow> route_ok pc (unregister i q s)"
  by (cases pc) (simp_all add: route_ok_def unregister_def nth_update_if snd_delete)

lemma waits_unregister: "waits_ok gs (unregister i q s) = waits_ok gs s"
  by (simp add: waits_ok_def unregister_def)

lemma table_closePending:
  assumes "table_ok s"
  shows "table_ok (closePending e s)"
  using closePending_effect [OF table_pending_inv [OF assms], of e] assms
  by (auto simp: table_ok_def closePending_def split: if_splits)

lemma route_closePending: "table_ok s \<Longrightarrow> route_ok pc s \<Longrightarrow> route_ok pc (closePending e s)"
  using closePending_effect [OF table_pending_inv, of s e]
  by (auto simp: route_ok_def split: reader_pc.splits)

lemma waits_closePending: "table_ok s \<Longrightarrow> waits_ok gs (closePending e s) = waits_ok gs s"
  using closePending_effect [OF table_pending_inv, of s e] by (simp add: waits_ok_def)

lemma table_lookup:
  assumes ok: "table_ok s" and r: "route_lookup raw s = (Some q, s')"
  shows "table_ok s' \<and> route_ok (RRoute q raw) s' \<and> waits_ok gs s' = waits_ok gs s"
proof -
  from route_lookup_Some [OF table_pending_inv [OF ok] r]
  have l: "(rw_id raw, q) \<in> set (pending s)" "s' = s\<lparr>pending := AList.delete (rw_id raw) (pending s)\<rparr>"
    "q \<notin> snd ` set (pending s')" "chans s' ! q = None" "q < length (chans s')" by auto
  have "rw_id raw = srv_id (q + 1)" using ok l(1) by (auto simp: table_ok_def)
  moreover have "table_ok s'"
    using ok set_delete_subset [of "rw_id raw" "pending s"]
    by (auto simp: l(2) table_ok_def distinct_delete distinct_snd_delete)
  ultimately show ?thesis using l by (simp add: route_ok_def waits_ok_def)
qed

lemma table_deliver:
  assumes "table_ok s" and "route_ok (RRoute q raw) s" and "chan_send q raw s = Some s'"
  shows "table_ok s' \<and> waits_ok gs s' = waits_ok gs s"
proof -
  have "s' = s\<lparr>chans := (chans s)[q := Some raw]\<rparr>" "rw_id raw = srv_id (q + 1)" "q \<notin> snd ` set (pending s)"
    using assms(2,3) by (auto simp: route_ok_def chan_send_def split: if_splits)
  moreover from this(3) have "r \<noteq> q" if "(i, r) \<in> set (pending s)" for i r using that by force
  ultimately show ?thesis using assms(1) by (auto simp: table_ok_def waits_ok_def nth_update_if)
qed

lemma length_closePending [simp]: "length (chans (closePending e s)) = length (chans s)"
proof -
  have "length (foldl (\<lambda>cs (i, q). if cs ! q = None then cs[q := Some m] else cs) cs ps) = length cs" for cs m ps
    by (induction ps arbitrary: cs) (auto simp: case_prod_beta)
  then show ?thesis by (simp add: closePending_def)
qed

lemma length_unregister [simp]: "length (chans (unregister i q s)) = length (chans s)"
  by (simp add: unregister_def)

text \<open>The goroutines that wait, when one of them moves.\<close>

lemma waits_okD:
  assumes "waits_ok gs s"
  shows "k < length gs \<Longrightarrow> waits (snd (gs ! k)) = Some (i, q) \<Longrightarrow> q < length (chans s) \<and> i = srv_id (q + 1)"
    "j < length gs \<Longrightarrow> k < length gs \<Longrightarrow> waits (snd (gs ! j)) = Some w \<Longrightarrow>
      waits (snd (gs ! k)) = Some w \<Longrightarrow> j = k"
  using assms unfolding waits_ok_def by (blast, cases w, blast)

lemma waits_update:
  assumes ok: "waits_ok gs s" and k: "k < length gs" and pc: "waits pc = waits (snd (gs ! k)) \<or> waits pc = None"
  shows "waits_ok (gs[k := (i, pc)]) s"
proof -
  have old: "waits (snd (gs ! j)) = Some w" if "waits (snd (gs[k := (i, pc)] ! j)) = Some w" for j w
    using that pc by (cases "j = k") (auto simp: nth_update_if split: if_splits)
  show ?thesis
    unfolding waits_ok_def length_list_update using waits_okD [OF ok] old by blast
qed

lemma waits_fresh:
  assumes ok: "waits_ok gs s" and k: "k < length gs"
    and pc: "waits pc = Some (srv_id (length (chans s) + 1), length (chans s))"
    and s': "chans s' = chans s @ [None]"
  shows "waits_ok (gs[k := (i, pc)]) s'"
proof -
  have low: "q < length (chans s) \<and> a = srv_id (q + 1)"
    if "j \<noteq> k" "j < length gs" "waits (snd (gs[k := (i, pc)] ! j)) = Some (a, q)" for j a q
    using that waits_okD(1) [OF ok, of j a q] by simp
  have new: "waits (snd (gs[k := (i, pc)] ! k)) = Some (srv_id (length (chans s) + 1), length (chans s))"
    using k pc by simp
  have "q < length (chans s') \<and> a = srv_id (q + 1)"
    if "j < length gs" "waits (snd (gs[k := (i, pc)] ! j)) = Some (a, q)" for j a q
    using low [OF _ that] new that s' by (cases "j = k") auto
  moreover have "j = l"
    if "j < length gs" "l < length gs" "waits (snd (gs[k := (i, pc)] ! j)) = Some w"
      "waits (snd (gs[k := (i, pc)] ! l)) = Some w" for j l w
  proof (cases "j = k \<or> l = k")
    case True
    with that low [of j "fst w" "snd w"] low [of l "fst w" "snd w"] new show ?thesis
      by (cases "j = k"; cases "l = k") auto
  next
    case False
    with that waits_okD(2) [OF ok, of j l w] show ?thesis by simp
  qed
  ultimately show ?thesis unfolding waits_ok_def length_list_update by blast
qed

lemma waits_snoc: "waits_ok gs s \<Longrightarrow> waits pc = None \<Longrightarrow> waits_ok (gs @ [(i, pc)]) s"
  by (auto simp: waits_ok_def nth_append less_Suc_eq)

section \<open>Every step keeps it\<close>

lemma match_inv_same:
  assumes "match_inv y" and "same_table (srv y) s"
  shows "match_inv (y\<lparr>srv := s\<rparr>)"
  using assms by (simp add: match_inv_def same_table_ok) (simp add: same_table_def)

lemma match_inv_fields [simp]:
  "match_inv (y\<lparr>lp := a\<rparr>) = match_inv y" "match_inv (y\<lparr>sv := b\<rparr>) = match_inv y"
  "match_inv (y\<lparr>rg := c\<rparr>) = match_inv y" "match_inv (y\<lparr>taken := d\<rparr>) = match_inv y"
  "match_inv (y\<lparr>frames := e\<rparr>) = match_inv y" "match_inv (y\<lparr>crashed := f\<rparr>) = match_inv y"
  by (simp_all add: match_inv_def)

text \<open>What a step of a turn does to the table.\<close>

lemma run_step_match:
  assumes "run_step c k p s = Some (s', pc)"
  shows "same_table s s' \<and> waits pc = None \<or> (\<exists>j q. register s = (j, q, s') \<and> waits pc = Some (j, q))"
  using assms
  by (cases p) (auto simp: steer_input_def dest: table.emit dest!: go_select_in
      split: prod.splits sum.splits list.splits)

lemma turn_step_match:
  assumes "turn_step c k i pc s = Some (s', pc')"
  shows "same_table s s' \<and> (waits pc' = waits pc \<or> waits pc' = None) \<or>
    (\<exists>j q s1. same_table s s1 \<and> s' = unregister j q s1 \<and> waits pc' = None) \<or>
    (\<exists>j q. register s = (j, q, s') \<and> waits pc' = Some (j, q))"
proof (cases pc)
  case (TRun p)
  with assms run_step_match [of c k p s s' pc'] show ?thesis by auto
next
  case (TWrite call req j q f)
  with assms table.write_req [of "ch_ctx c" j req s] show ?thesis
    by (fastforce split: prod.splits option.splits)
next
  case (TAwait call j q f)
  with assms have "s' = unregister j q s \<and> waits pc' = None" by (auto simp: await_def)
  then show ?thesis using table.refl by blast
next
  case (TEndEmit r err)
  with assms table.emit [of "serveCtx s" "Some TurnEndEvent" s] show ?thesis
    by (auto split: prod.splits option.splits intro: table.trans)
qed (use assms in auto)

lemma match_inv_turn:
  assumes inv: "match_inv y" and k: "k < length (tg y)" "tg y ! k = (i, pc)"
    and st: "turn_step c k i pc (srv y) = Some (s, pc')"
  shows "match_inv (y\<lparr>srv := s, tg := (tg y)[k := (i, pc')], frames := fr\<rparr>)"
  unfolding match_inv_def
proof (clarsimp, goal_cases)
  case 1
  from turn_step_match [OF st] consider
      (same) "same_table (srv y) s" "waits pc' = waits pc \<or> waits pc' = None"
    | (un) j q s1 where "same_table (srv y) s1" "s = unregister j q s1" "waits pc' = None"
    | (reg) j q where "register (srv y) = (j, q, s)" "waits pc' = Some (j, q)"
    by (elim disjE exE conjE) simp_all
  then show ?case
  proof cases
    case same
    then have ok: "table_ok (srv y) \<and> route_ok (rd y) (srv y) \<and> waits_ok (tg y) (srv y)"
      using 1 inv by (simp add: match_inv_def same_table_def)
    moreover have "waits_ok ((tg y)[k := (i, pc')]) (srv y)"
      by (rule waits_update) (use ok k same(2) in simp_all)
    ultimately show ?thesis by (simp add: same_table_ok [OF same(1)])
  next
    case un
    then have "table_ok (srv y) \<and> route_ok (rd y) (srv y) \<and> waits_ok (tg y) (srv y)"
      using 1 inv by (simp add: match_inv_def same_table_def)
    then have ok: "table_ok s1" "route_ok (rd y) s1" "waits_ok (tg y) s1"
      by (simp_all add: same_table_ok [OF un(1)])
    have "waits_ok ((tg y)[k := (i, pc')]) s1"
      by (rule waits_update) (use ok k un(3) in simp_all)
    with ok un(2) show ?thesis
      by (simp add: table_unregister route_unregister waits_unregister)
  next
    case reg
    from reg(1) have len: "length (chans s) = Suc (length (chans (srv y)))"
      by (auto simp: register_def nextRequestID_def Let_def)
    with 1 inv have ok: "table_ok (srv y)" "route_ok (rd y) (srv y)" "waits_ok (tg y) (srv y)"
      and small: "length (chans (srv y)) < 2 ^ 64 - 1"
      by (auto simp: match_inv_def)
    note t = table_register [OF ok(1) small reg(1)]
    then have "route_ok (rd y) s" using ok(2) by (cases "rd y") (auto simp: route_ok_def nth_append)
    moreover have "waits_ok ((tg y)[k := (i, pc')]) s"
      by (rule waits_fresh [OF ok(3) k(1)]) (use t reg(2) in auto)
    ultimately show ?thesis using t by simp
  qed
qed

lemma match_inv_serve:
  assumes inv: "match_inv y" and st: "serve_step c r l (sv y) (srv y) = Some (s, pc)"
  shows "match_inv (y\<lparr>srv := s, sv := pc\<rparr>)"
proof (cases "sv y")
  case (SvPending err)
  with st have "s = srv y \<or> (\<exists>e. s = closePending e (srv y))" by (auto split: option.splits if_splits)
  with inv show ?thesis
    by (auto simp: match_inv_def table_closePending route_closePending waits_closePending)
next
  case (SvFire op err)
  with st match_inv_same [OF inv same_table_cancel_op] show ?thesis by auto
next
  case (SvWait op err)
  with st inv match_inv_same [OF inv] show ?thesis by (auto dest!: go_select_in split: if_splits)
qed (use assms match_inv_same [OF inv] in \<open>auto simp: cancelServe_def same_table_def
    split: reader_pc.splits option.splits if_splits\<close>)

lemma match_inv_reader:
  assumes inv: "match_inv y" and st: "reader_step c (rd y) (srv y) = Some (s, pc)"
  shows "match_inv (y\<lparr>srv := s, rd := pc\<rparr>)"
proof -
  have same: ?thesis if "same_table (srv y) s" "\<forall>q raw. pc \<noteq> RRoute q raw"
  proof -
    have "route_ok pc s" using that(2) by (cases pc) (auto simp: route_ok_def)
    with inv that(1) show ?thesis
      by (auto simp: match_inv_def same_table_ok) (simp_all add: same_table_def)
  qed
  show ?thesis
  proof (cases "rd y")
    case RRead
    show ?thesis
    proof (cases "ch_input c")
      case (Inl err)
      with RRead st same show ?thesis by (auto split: if_splits)
    next
      case (Inr l)
      with RRead st have rl: "receive_line l (srv y) = (s, pc)" by simp
      show ?thesis
      proof (cases "\<exists>q raw. pc = RRoute q raw")
        case True
        then obtain q raw where pc: "pc = RRoute q raw" by blast
        with rl have "route_lookup raw (srv y) = (Some q, s)"
          by (auto simp: receive_line_def split: sum.splits if_splits prod.splits option.splits)
        from table_lookup [OF _ this] inv pc show ?thesis
          using \<open>route_lookup raw (srv y) = (Some q, s)\<close>
          by (auto simp: match_inv_def route_lookup_def split: option.splits)
      next
        case False
        with rl have "same_table (srv y) s"
          by (auto simp: receive_line_def route_lookup_def
              split: sum.splits if_splits prod.splits option.splits)
        with False same show ?thesis by blast
      qed
    qed
  next
    case (RRoute q raw)
    with st consider "s = srv y" "pc = RRead" | "chan_send q raw (srv y) = Some s" "pc = RRead"
      by (auto dest!: go_select_in split: if_splits)
    then show ?thesis
    proof cases
      case 2
      then have "length (chans s) = length (chans (srv y))" by (auto simp: chan_send_def split: if_splits)
      with inv RRoute table_deliver [of "srv y" q raw s "tg y"] 2 show ?thesis
        by (simp add: match_inv_def) (simp add: route_ok_def)
    qed (use same in simp)
  next
    case (RDispatch raw)
    with st same show ?thesis by (auto simp: same_table_def dest!: go_select_in split: if_splits)
  qed (use st in simp)
qed

lemma match_inv_loop:
  assumes inv: "match_inv y" and st: "loop_step env c (lp y) y = Some y'"
  shows "match_inv y'"
proof -
  note same = same_table_loop_step [OF st]
  have "rd y' = rd y \<and> (tg y' = tg y \<or> (\<exists>i pc. tg y' = tg y @ [(i, pc)] \<and> waits pc = None))"
    using st by (cases "lp y") (auto simp: take_request_def Let_def dest!: go_select_in
        split: list.splits if_splits sum.splits prod.splits option.splits)
  moreover have "length (chans (srv y')) = length (chans (srv y))" using same by (simp add: same_table_def)
  ultimately show ?thesis
    using inv by (auto simp: match_inv_def same_table_ok [OF same] waits_snoc)
qed

lemma match_inv_replay:
  assumes "match_inv y" and "replay_step k i pc (srv y) = Some (s, pc')"
  shows "match_inv (y\<lparr>srv := s, rg := gs\<rparr>)"
  using match_inv_same [OF assms(1) same_table_replay_step [OF assms(2)]]
  by (simp add: match_inv_def)

lemma match_inv_step:
  assumes inv: "match_inv y" and st: "sys_step env a c y = Some y'"
  shows "match_inv y'"
proof -
  from st have st: "actor_step env a c y = Some y'" by (auto simp: sys_step_def split: if_splits)
  show ?thesis
  proof (cases a)
    case (TurnG k)
    with st inv match_inv_turn show ?thesis by (auto split: if_splits prod.splits)
  next
    case Parent
    with st inv show ?thesis by (auto intro!: match_inv_same split: option.splits)
  next
    case Peer
    with st inv show ?thesis by (auto intro: match_inv_same)
  qed (use st inv match_inv_reader match_inv_loop match_inv_replay match_inv_serve in
      \<open>auto split: if_splits prod.splits\<close>)
qed

lemma reachable_match_inv: "reachable env y \<Longrightarrow> match_inv y"
proof (induction rule: reachable.induct)
  case (start parent t w opts y)
  then show ?case
    by (auto simp: Serve_def match_inv_def table_ok_def route_ok_def waits_ok_def New_fields)
next
  case (step y a c y')
  then show ?case using match_inv_step by blast
qed

end
