(* ===== verification/Server_Cancel.thy ===== *)
theory Server_Cancel
  imports Server_Matching
begin

text \<open>
  What a successful \<open>cancel\<close> means. \<open>handleCancel\<close> answers with success only when \<open>done\<close> of the turn is
  closed, and the invariant here says what has happened by then: the turn's \<open>TurnEnd\<close> event was
  emitted, so that the client sees \<open>TurnEnd\<close> before the answer to its \<open>cancel\<close>.
\<close>

section \<open>The invariant\<close>

definition past_close :: "turn_pc \<Rightarrow> bool" where
  "past_close pc = (case pc of TEndClear _ _ \<Rightarrow> True | TEndRead _ _ \<Rightarrow> True | TEndAnswer _ _ _ \<Rightarrow> True
     | TDone \<Rightarrow> True | _ \<Rightarrow> False)"

definition ends_inv :: "'t sys \<Rightarrow> bool" where
  "ends_inv y \<longleftrightarrow>
     (\<forall>k < length (tg y). \<not> in_frame (snd (tg y ! k)) \<longrightarrow> (k, False) \<in> set (frames y)) \<and>
     (\<forall>k < length (turns (srv y)). tn_done (turns (srv y) ! k) \<longrightarrow>
        k < length (tg y) \<and> past_close (snd (tg y ! k)))"

text \<open>The operations that the fields and the serve loop refer to exist.\<close>

fun valid_op :: "'t server \<Rightarrow> op_ref \<Rightarrow> bool" where
  "valid_op s (TurnOp k) = (k < length (turns s))"
| "valid_op s (ReplayOp k) = (k < length (replays s))"

fun cancels :: "loop_pc \<Rightarrow> op_ref option" where
  "cancels (LCancelMark i op t) = Some op"
| "cancels (LCancelFire i op) = Some op"
| "cancels (LCancelWait i op) = Some op"
| "cancels pc = None"

definition ops_inv :: "'t sys \<Rightarrow> bool" where
  "ops_inv y \<longleftrightarrow> pred_option (valid_op (srv y)) (activeOp (srv y)) \<and> pred_option (valid_op (srv y)) (cancels (lp y))"

text \<open>\<open>done_within s s'\<close>: no turn was made, and none became done.\<close>

definition done_within :: "'t server \<Rightarrow> 't server \<Rightarrow> bool" where
  "done_within s s' \<longleftrightarrow> length (turns s') = length (turns s) \<and>
     (\<forall>k. tn_done (turns s' ! k) \<longrightarrow> tn_done (turns s ! k))"

interpretation dones: server_view done_within
  by unfold_locales (simp_all add: done_within_def quiet_fields)

lemma done_within_update [simp]:
  "done_within s (s'\<lparr>pending := p\<rparr>) = done_within s s'" "done_within s (s'\<lparr>chans := q\<rparr>) = done_within s s'"
  "done_within s (s'\<lparr>dispatchCh := f\<rparr>) = done_within s s'" "done_within s (s'\<lparr>serveCtx := g\<rparr>) = done_within s s'"
  "done_within s (s'\<lparr>serving := h\<rparr>) = done_within s s'" "done_within s (s'\<lparr>activeTurn := a\<rparr>) = done_within s s'"
  "done_within s (s'\<lparr>activeOp := b\<rparr>) = done_within s s'" "done_within s (s'\<lparr>replays := r\<rparr>) = done_within s s'"
  "done_within s (s'\<lparr>requestCounter := n\<rparr>) = done_within s s'" "done_within s (s'\<lparr>transport := t\<rparr>) = done_within s s'"
  "done_within (s\<lparr>dispatchCh := f\<rparr>) s' = done_within s s'"
  by (simp_all add: done_within_def)

lemma done_within_upd_turn [simp]:
  "done_within s (upd_turn k (tn_ctx_update f) s)" "done_within s (upd_turn k (tn_steer_update g) s)"
  "done_within s (upd_turn k (tn_cancelled_update h) s)"
  by (auto simp: upd_turn_def done_within_def nth_update_if split: if_splits)

lemma done_within_cancel_op [simp]: "done_within s (cancel_op op s)"
  by (cases op) (simp_all add: cancel_turn_def)

lemma done_within_unregister [simp]: "done_within s (unregister i c s') = done_within s s'"
  by (simp add: unregister_def)

lemma done_within_register: "register s = (i, c, s') \<Longrightarrow> done_within s s'"
  by (auto simp: register_def nextRequestID_def Let_def)

lemma done_within_closePending [simp]: "done_within s (closePending e s)"
  by (simp add: closePending_def)

lemma done_within_clear_active [simp]: "done_within s (clear_active k s)"
  by (simp add: clear_active_def)

lemma run_step_done:
  assumes "run_step c k p s = Some (s', pc)"
  shows "done_within s s' \<and> in_frame pc"
  using assms
  by (cases p) (auto simp: steer_input_def in_frame_def
      dest: dones.emit done_within_register dest!: go_select_in split: prod.splits sum.splits list.splits)

lemma turn_step_done:
  assumes "turn_step c k i pc s = Some (s', pc')"
  shows "(done_within s s' \<or> (\<exists>r err. pc = TEndClose r err \<and> s' = turn_close k s \<and> past_close pc')) \<and>
    (past_close pc \<longrightarrow> past_close pc') \<and>
    (\<not> in_frame pc' \<longrightarrow> \<not> in_frame pc \<or> end_frame k pc = [(k, False)])"
proof (cases pc)
  case (TRun p)
  with assms run_step_done [of c k p s s' pc'] show ?thesis by (simp add: past_close_def)
next
  case (TWrite call req j q f)
  with assms dones.write_req [of "ch_ctx c" j req s] show ?thesis
    by (auto simp: in_frame_def past_close_def split: prod.splits option.splits)
next
  case (TEndEmit r err)
  with assms dones.emit dones.emit_log show ?thesis
    by (auto simp: in_frame_def past_close_def end_frame_def split: prod.splits option.splits)
qed (use assms in \<open>auto simp: in_frame_def past_close_def await_def\<close>)

lemma ends_inv_done:
  assumes "ends_inv y" and "done_within (srv y) s"
  shows "ends_inv (y\<lparr>srv := s\<rparr>)"
  using assms by (auto simp: ends_inv_def done_within_def)

lemma ends_inv_fields [simp]:
  "ends_inv (y\<lparr>lp := a\<rparr>) = ends_inv y" "ends_inv (y\<lparr>sv := b\<rparr>) = ends_inv y" "ends_inv (y\<lparr>rd := e\<rparr>) = ends_inv y"
  "ends_inv (y\<lparr>rg := c\<rparr>) = ends_inv y" "ends_inv (y\<lparr>taken := d\<rparr>) = ends_inv y" "ends_inv (y\<lparr>crashed := f\<rparr>) = ends_inv y"
  by (simp_all add: ends_inv_def)

lemma ends_inv_turn:
  assumes inv: "ends_inv y" and k: "k < length (tg y)" "tg y ! k = (i, pc)"
    and st: "turn_step c k i pc (srv y) = Some (s, pc')"
  shows "ends_inv (y\<lparr>srv := s, tg := (tg y)[k := (i, pc')], frames := frames y @ end_frame k pc\<rparr>)"
proof -
  note ph = turn_step_done [OF st]
  have old: "j < length (tg y) \<and> past_close (snd (tg y ! j))"
    if "j < length (turns (srv y))" "tn_done (turns (srv y) ! j)" for j
    using inv that by (auto simp: ends_inv_def)
  have len: "length (turns s) = length (turns (srv y))"
    using ph by (auto simp: done_within_def turn_close_def upd_turn_def split: if_splits)
  have "tn_done (turns (srv y) ! j) \<or> j = k \<and> past_close pc'" if "tn_done (turns s ! j)" for j
    using ph that by (auto simp: done_within_def turn_close_def upd_turn_def nth_update_if split: if_splits)
  with old ph k len have "j < length (tg y) \<and> past_close (snd ((tg y)[k := (i, pc')] ! j))"
    if "j < length (turns s)" "tn_done (turns s ! j)" for j
    using that by (cases "j = k") fastforce+
  moreover have "(j, False) \<in> set (frames y @ end_frame k pc)"
    if "j < length (tg y)" "\<not> in_frame (snd ((tg y)[k := (i, pc')] ! j))" for j
    using that inv ph k by (cases "j = k") (auto simp: ends_inv_def)
  ultimately show ?thesis by (simp add: ends_inv_def)
qed

text \<open>What the serve loop adds: at most one turn that is not done, or one goroutine in its frame.\<close>

lemma dispatch_done:
  assumes "dispatch env c raw s = Inr (s', pc)"
  shows "done_within s s' \<or> turns s' = turns s @ [newTurn]"
  using assms
  by (auto simp: dispatch_def Let_def handlePrompt_def handleSteer_def handleCancel_def handleReplay_def
      dest: dones.set_plan split: if_splits sum.splits option.splits)

lemma ends_inv_loop:
  assumes inv: "ends_inv y" and st: "loop_step env c (lp y) y = Some y'"
  shows "ends_inv y'"
proof (cases "lp y")
  case LIdle
  with st consider raw rest where "y' = take_request env c raw rest y" | "y' = y\<lparr>lp := LDone\<rparr>"
    by (auto dest!: go_select_in split: list.splits if_splits)
  then show ?thesis
  proof cases
    case (1 raw rest)
    show ?thesis
    proof (cases "dispatch env c raw ((srv y)\<lparr>dispatchCh := rest\<rparr>)")
      case (Inr sp)
      with dispatch_done [of env c raw "(srv y)\<lparr>dispatchCh := rest\<rparr>"] 1 inv show ?thesis
        by (cases sp) (auto simp: take_request_def Let_def ends_inv_def done_within_def nth_append
            newTurn_def split: if_splits)
    qed (use inv 1 in \<open>simp add: take_request_def Let_def\<close>)
  qed (use inv in simp)
next
  case (LBegin i input k)
  obtain e s where e: "emitEvent (serveCtx (srv y)) (Some (TurnBeginEvent \<lparr>tb_user_input = input\<rparr>)) (srv y) = (e, s)"
    by fastforce
  have "done_within (srv y) s" using dones.emit [OF e] .
  with st LBegin e inv show ?thesis
    by (cases e) (auto simp: ends_inv_def done_within_def in_frame_def nth_append less_Suc_eq)
next
  case (LCancelMark i op t)
  with st inv show ?thesis
    by (auto intro!: ends_inv_done split: option.splits)
qed (use st inv in \<open>auto intro!: ends_inv_done dest!: go_select_in
    split: if_splits sum.splits option.splits\<close>)

lemma replay_step_done: "replay_step k i pc s = Some (s', pc') \<Longrightarrow> done_within s s'"
proof (cases pc)
  case (RpRun p)
  moreover assume "replay_step k i pc s = Some (s', pc')"
  ultimately show ?thesis by (cases p) (auto dest: dones.emit split: prod.splits)
qed auto

lemma reader_step_done: "reader_step c pc s = Some (s', pc') \<Longrightarrow> done_within s s'"
proof (cases pc)
  case RRead
  moreover assume "reader_step c pc s = Some (s', pc')"
  ultimately show ?thesis
    by (auto simp: receive_line_def route_lookup_def split: sum.splits option.splits if_splits)
qed (auto simp: chan_send_def dest!: go_select_in split: if_splits)

lemma serve_step_done: "serve_step c r l pc s = Some (s', pc') \<Longrightarrow> done_within s s'"
  by (cases pc) (auto simp: cancelServe_def dest!: go_select_in split: reader_pc.splits option.splits if_splits)

lemma ends_inv_step:
  assumes inv: "ends_inv y" and st: "sys_step env a c y = Some y'"
  shows "ends_inv y'"
proof -
  from st have st: "actor_step env a c y = Some y'" by (auto simp: sys_step_def split: if_splits)
  show ?thesis
  proof (cases a)
    case (TurnG k)
    with st inv ends_inv_turn show ?thesis by (auto split: if_splits prod.splits)
  next
    case Looper
    with st inv ends_inv_loop show ?thesis by auto
  next
    case Parent
    with st inv show ?thesis by (auto intro!: ends_inv_done split: option.splits)
  next
    case Peer
    with st inv show ?thesis by (auto intro!: ends_inv_done)
  qed (use st inv in \<open>auto intro: ends_inv_done dest!: reader_step_done serve_step_done replay_step_done
      split: if_splits prod.splits\<close>)
qed

lemma reachable_ends_inv: "reachable env y \<Longrightarrow> ends_inv y"
proof (induction rule: reachable.induct)
  case (start parent t w opts y)
  then show ?case by (auto simp: Serve_def ends_inv_def New_fields)
next
  case (step y a c y')
  then show ?case using ends_inv_step by blast
qed

section \<open>The operations exist\<close>

text \<open>\<open>ops_within s s'\<close>: no turn or replay is lost, and the active operation is the same or none.\<close>

definition ops_within :: "'t server \<Rightarrow> 't server \<Rightarrow> bool" where
  "ops_within s s' \<longleftrightarrow> length (turns s) \<le> length (turns s') \<and> length (replays s) \<le> length (replays s') \<and>
     (activeOp s' = activeOp s \<or> activeOp s' = None)"

lemma same_active_ops: "same_active s s' \<Longrightarrow> ops_within s s'"
  by (simp add: same_active_def ops_within_def)

lemma valid_op_mono: "ops_within s s' \<Longrightarrow> valid_op s op \<Longrightarrow> valid_op s' op"
  by (cases op) (auto simp: ops_within_def)

lemma pred_valid_mono: "ops_within s s' \<Longrightarrow> pred_option (valid_op s) x \<Longrightarrow> pred_option (valid_op s') x"
  using valid_op_mono by (cases x) auto

lemma ops_inv_within:
  assumes "ops_inv y" and "ops_within (srv y) s" and "cancels l = cancels (lp y) \<or> cancels l = None"
  shows "ops_inv (y\<lparr>srv := s, lp := l\<rparr>)"
  using assms pred_valid_mono [OF assms(2)] by (auto simp: ops_inv_def) (auto simp: ops_within_def)

lemma ops_inv_srv: "ops_inv y \<Longrightarrow> ops_within (srv y) s \<Longrightarrow> ops_inv (y\<lparr>srv := s\<rparr>)"
  using ops_inv_within [of y s "lp y"] by simp

lemma ops_inv_lp: "ops_inv y \<Longrightarrow> cancels l = cancels (lp y) \<or> cancels l = None \<Longrightarrow> ops_inv (y\<lparr>lp := l\<rparr>)"
  using ops_inv_within [of y "srv y" l] same_active_ops [OF active.refl [of "srv y"]] by simp

lemma ops_inv_fields [simp]:
  "ops_inv (y\<lparr>sv := b\<rparr>) = ops_inv y" "ops_inv (y\<lparr>rd := e\<rparr>) = ops_inv y" "ops_inv (y\<lparr>tg := g\<rparr>) = ops_inv y"
  "ops_inv (y\<lparr>rg := c\<rparr>) = ops_inv y" "ops_inv (y\<lparr>taken := d\<rparr>) = ops_inv y"
  "ops_inv (y\<lparr>frames := h\<rparr>) = ops_inv y" "ops_inv (y\<lparr>crashed := f\<rparr>) = ops_inv y"
  by (simp_all add: ops_inv_def)

lemma dispatch_ops:
  assumes "dispatch env c raw s = Inr (s', pc)" and "pred_option (valid_op s) (activeOp s)"
  shows "pred_option (valid_op s') (activeOp s') \<and> pred_option (valid_op s') (cancels pc)"
proof -
  have quiet: ?thesis if "same_active s s'" "cancels pc = None"
    using pred_valid_mono [OF same_active_ops [OF that(1)] assms(2)] that by (simp add: same_active_def)
  show ?thesis
    using assms quiet active.set_plan [of _ "rw_id raw" "rw_params raw" s s']
    by (auto simp: dispatch_def Let_def handlePrompt_def handleSteer_def handleCancel_def handleReplay_def
        split: if_splits sum.splits option.splits)
qed

lemma turn_step_ops: "turn_step c k i pc s = Some (s', pc') \<Longrightarrow> ops_within s s'"
  using turn_step_phase [of c k i pc s s' pc']
  by (auto simp: same_active_def ops_within_def clear_active_def split: if_splits)

lemma replay_step_ops: "replay_step k i pc s = Some (s', pc') \<Longrightarrow> ops_within s s'"
  using replay_step_phase [of k i pc s s' pc']
  by (auto simp: same_active_def ops_within_def split: if_splits)

lemma serve_step_ops: "serve_step c r l pc s = Some (s', pc') \<Longrightarrow> ops_within s s'"
proof (cases pc)
  case (SvFire op err)
  moreover assume "serve_step c r l pc s = Some (s', pc')"
  ultimately show ?thesis using same_active_ops [OF same_active_cancel_op [of s op]] by simp
next
  case (SvPending err)
  moreover assume "serve_step c r l pc s = Some (s', pc')"
  ultimately show ?thesis using same_active_ops [OF same_active_closePending [of s]] same_active_ops [OF active.refl]
    by (auto split: option.splits if_splits)
next
  case (SvWait op err)
  moreover assume "serve_step c r l pc s = Some (s', pc')"
  ultimately show ?thesis using same_active_ops [OF active.send(3)] same_active_ops [OF active.refl]
    by (auto dest!: go_select_in split: if_splits)
qed (auto simp: ops_within_def cancelServe_def split: reader_pc.splits option.splits if_splits)

lemma ops_inv_take:
  assumes "ops_inv y"
  shows "ops_inv (take_request env c raw rest y)"
proof (cases "dispatch env c raw ((srv y)\<lparr>dispatchCh := rest\<rparr>)")
  case (Inr sp)
  have "valid_op ((srv y)\<lparr>dispatchCh := rest\<rparr>) = valid_op (srv y)"
    by (rule ext, case_tac x) simp_all
  with Inr assms dispatch_ops [of env c raw "(srv y)\<lparr>dispatchCh := rest\<rparr>"] show ?thesis
    by (cases sp) (auto simp: take_request_def Let_def ops_inv_def)
qed (use assms in \<open>simp add: take_request_def Let_def\<close>)

lemma ops_inv_loop:
  assumes inv: "ops_inv y" and st: "loop_step env c (lp y) y = Some y'"
  shows "ops_inv y'"
proof (cases "lp y")
  case LIdle
  with st inv ops_inv_take ops_inv_within [OF inv, of "srv y" LDone] show ?thesis
    by (auto simp: same_active_ops dest!: go_select_in split: list.splits if_splits)
next
  case (LBegin i input k)
  obtain e s where e: "emitEvent (serveCtx (srv y)) (Some (TurnBeginEvent \<lparr>tb_user_input = input\<rparr>)) (srv y) = (e, s)"
    by fastforce
  with st LBegin ops_inv_within [OF inv same_active_ops [OF active.emit [OF e]], of LIdle] show ?thesis
    by (cases e) (auto simp: ops_inv_def)
next
  case (LCancelMark i op t)
  have "same_active (srv y) (case t of Some k \<Rightarrow> upd_turn k (tn_cancelled_update (\<lambda>_. True)) (srv y)
      | None \<Rightarrow> srv y)" by (simp split: option.split)
  from ops_inv_within [OF inv same_active_ops [OF this], of "LCancelFire i op"] st LCancelMark show ?thesis
    by simp
qed (use st inv in \<open>auto intro!: ops_inv_srv ops_inv_lp same_active_ops dest!: go_select_in
    split: if_splits sum.splits option.splits\<close>)

lemma ops_inv_step:
  assumes inv: "ops_inv y" and st: "sys_step env a c y = Some y'"
  shows "ops_inv y'"
proof -
  from st have st: "actor_step env a c y = Some y'" by (auto simp: sys_step_def split: if_splits)
  show ?thesis
  proof (cases a)
    case Looper
    with st inv ops_inv_loop show ?thesis by auto
  next
    case Reader
    with st inv show ?thesis by (auto intro!: ops_inv_srv same_active_ops dest: reader_step_active)
  next
    case Parent
    with st inv show ?thesis by (auto intro!: ops_inv_srv same_active_ops split: option.splits)
  next
    case Peer
    with st inv show ?thesis by (auto intro!: ops_inv_srv same_active_ops)
  qed (use st inv ops_inv_srv [OF inv] turn_step_ops replay_step_ops serve_step_ops in
      \<open>fastforce split: if_splits prod.splits\<close>)+
qed

lemma reachable_ops_inv: "reachable env y \<Longrightarrow> ops_inv y"
proof (induction rule: reachable.induct)
  case (start parent t w opts y)
  then show ?case by (auto simp: Serve_def ops_inv_def New_fields)
next
  case (step y a c y')
  then show ?case using ops_inv_step by blast
qed

end
