(* ===== verification/Server_Shutdown.thy ===== *)
theory Server_Shutdown
  imports Server_Cancel
begin

text \<open>
  How \<open>Serve\<close> comes to an end. Once the read loop is gone, a rank of the running server bounds the
  steps that \<open>Serve\<close> and the serve loop still take: no step of any goroutine raises it, and until
  \<open>Serve\<close> returns there is always a goroutine whose next step is enabled and lowers it.
\<close>

section \<open>The rank\<close>

text \<open>The own steps that a turn's goroutine still needs once the agent has returned.\<close>

definition end_rank :: "turn_pc \<Rightarrow> nat" where
  "end_rank pc = (case pc of TEndEmit _ _ \<Rightarrow> 5 | TEndClose _ _ \<Rightarrow> 4 | TEndClear _ _ \<Rightarrow> 3 | TEndRead _ _ \<Rightarrow> 2
     | TEndAnswer _ _ _ \<Rightarrow> 1 | _ \<Rightarrow> 0)"

fun loop_rank :: "loop_pc \<Rightarrow> nat" where
  "loop_rank LIdle = 1"
| "loop_rank (LBegin i input k) = 3"
| "loop_rank (LJoin k) = 2"
| "loop_rank (LSteer i input k) = 3"
| "loop_rank (LSteerCall i input k) = 2"
| "loop_rank (LCancelMark i op t) = 4"
| "loop_rank (LCancelFire i op) = 3"
| "loop_rank (LCancelWait i op) = 2"
| "loop_rank (LReplay i k) = 2"
| "loop_rank LDone = 0"

fun serve_rank :: "serve_pc \<Rightarrow> nat" where
  "serve_rank SvRead = 6"
| "serve_rank (SvPending e) = 5"
| "serve_rank (SvClear e) = 4"
| "serve_rank (SvFire op e) = 3"
| "serve_rank (SvWait op e) = 2"
| "serve_rank (SvJoin e) = 1"
| "serve_rank (SvReturn e) = 0"

fun join_rank :: "loop_pc \<Rightarrow> (string \<times> turn_pc) list \<Rightarrow> nat" where
  "join_rank (LJoin k) ts = end_rank (snd (ts ! k))"
| "join_rank pc ts = 0"

text \<open>Every queued request costs the serve loop at most four steps, each more than the end of one turn.\<close>

definition shutdown_rank :: "'t sys \<Rightarrow> nat" where
  "shutdown_rank y = serve_rank (sv y) + 10 * (4 * length (dispatchCh (srv y)) + loop_rank (lp y)) +
     join_rank (lp y) (tg y)"

section \<open>The queue and the context\<close>

text \<open>\<open>keeps_queue s s'\<close>: nothing was queued and the context of \<open>Serve\<close> is as it was.\<close>

definition keeps_queue :: "'t server \<Rightarrow> 't server \<Rightarrow> bool" where
  "keeps_queue s s' \<longleftrightarrow> dispatchCh s' = dispatchCh s \<and> serveCtx s' = serveCtx s"

interpretation queue: server_view keeps_queue
  by unfold_locales (simp_all add: keeps_queue_def quiet_fields)

lemma keeps_queue_update [simp]:
  "keeps_queue s (s'\<lparr>pending := p\<rparr>) = keeps_queue s s'" "keeps_queue s (s'\<lparr>chans := q\<rparr>) = keeps_queue s s'"
  "keeps_queue s (s'\<lparr>turns := ts\<rparr>) = keeps_queue s s'" "keeps_queue s (s'\<lparr>replays := rs\<rparr>) = keeps_queue s s'"
  "keeps_queue s (s'\<lparr>activeTurn := a\<rparr>) = keeps_queue s s'" "keeps_queue s (s'\<lparr>activeOp := b\<rparr>) = keeps_queue s s'"
  "keeps_queue s (s'\<lparr>serving := h\<rparr>) = keeps_queue s s'" "keeps_queue s (s'\<lparr>requestCounter := n\<rparr>) = keeps_queue s s'"
  "keeps_queue s (s'\<lparr>transport := t\<rparr>) = keeps_queue s s'"
  by (simp_all add: keeps_queue_def)

lemma keeps_queue_ops [simp]:
  "keeps_queue s (upd_turn k f s)" "keeps_queue s (cancel_op op s)" "keeps_queue s (turn_close k s)"
  "keeps_queue s (clear_active k s)" "keeps_queue s (unregister i c s') = keeps_queue s s'"
  "keeps_queue s (closePending e s)"
proof -
  show u: "keeps_queue s (upd_turn k f s)" for k f by (simp add: upd_turn_def)
  show "keeps_queue s (cancel_op op s)" by (cases op) (simp_all add: cancel_turn_def u)
  show "keeps_queue s (turn_close k s)" by (simp add: turn_close_def u)
  show "keeps_queue s (clear_active k s)" by (simp add: clear_active_def)
  show "keeps_queue s (unregister i c s') = keeps_queue s s'" by (simp add: unregister_def)
  show "keeps_queue s (closePending e s)" by (simp add: closePending_def)
qed

lemma queue_fields [simp]:
  "dispatchCh (upd_turn k f s) = dispatchCh s" "serveCtx (upd_turn k f s) = serveCtx s"
  "dispatchCh (cancel_op op s) = dispatchCh s" "serveCtx (cancel_op op s) = serveCtx s"
  "dispatchCh (send_error i n m s) = dispatchCh s" "serveCtx (send_error i n m s) = serveCtx s"
  "dispatchCh (send_response i r s) = dispatchCh s" "serveCtx (send_response i r s) = serveCtx s"
  "dispatchCh (logf m m' s) = dispatchCh s" "serveCtx (logf m m' s) = serveCtx s"
  "dispatchCh (closePending e s) = dispatchCh s" "serveCtx (closePending e s) = serveCtx s"
  using keeps_queue_ops [of s] queue.send [of s] by (simp_all add: keeps_queue_def)

lemma keeps_queue_register: "register s = (i, c, s') \<Longrightarrow> keeps_queue s s'"
  by (auto simp: register_def nextRequestID_def Let_def)

lemma run_step_queue: "run_step c k p s = Some (s', pc') \<Longrightarrow> keeps_queue s s'"
  by (cases p) (auto simp: steer_input_def dest: keeps_queue_register
      queue.emit dest!: go_select_in split: prod.splits sum.splits list.splits)

lemma turn_step_queue:
  assumes "turn_step c k i pc s = Some (s', pc')"
  shows "keeps_queue s s'"
proof (cases pc)
  case (TRun p)
  with assms run_step_queue show ?thesis by auto
next
  case (TWrite call req j q f)
  with assms queue.write_req [of "ch_ctx c" j req s] show ?thesis
    by (auto split: prod.splits option.splits)
next
  case (TEndEmit r err)
  with assms queue.emit [of "serveCtx s" "Some TurnEndEvent" s] show ?thesis
    by (auto split: prod.splits option.splits intro: queue.trans)
qed (use assms in \<open>auto simp: await_def\<close>)

lemma replay_step_queue:
  assumes "replay_step k i pc s = Some (s', pc')"
  shows "keeps_queue s s'"
proof (cases pc)
  case (RpRun p)
  with assms show ?thesis by (cases p) (auto dest: queue.emit split: prod.splits)
qed (use assms in auto)

lemma turn_step_rank:
  assumes "turn_step c k i pc s = Some (s', pc')"
  shows "end_rank pc > 0 \<Longrightarrow> end_rank pc' < end_rank pc"
  using assms by (cases pc) (auto simp: end_rank_def split: prod.splits option.splits)

lemma dispatch_rank:
  assumes "dispatch env c raw s = Inr (s', pc)"
  shows "keeps_queue s s' \<and> loop_rank pc \<le> 4 \<and> (\<forall>k. pc \<noteq> LJoin k)"
  using assms
  by (auto simp: dispatch_def Let_def handlePrompt_def handleSteer_def handleCancel_def handleReplay_def
      dest: queue.set_plan split: if_splits sum.splits option.splits)

section \<open>The invariant\<close>

definition ending :: "turn_pc \<Rightarrow> bool" where
  "ending pc \<longleftrightarrow> end_rank pc > 0 \<or> turn_finished pc"

definition shut_inv :: "'t sys \<Rightarrow> bool" where
  "shut_inv y \<longleftrightarrow> (sv y \<noteq> SvRead \<longrightarrow> serveCtx (srv y) \<noteq> None) \<and>
     (\<forall>k. lp y = LJoin k \<longrightarrow> k < length (tg y) \<and> ending (snd (tg y ! k)))"

lemma turn_step_ending: "turn_step c k i pc s = Some (s', pc') \<Longrightarrow> ending pc \<Longrightarrow> ending pc'"
  by (cases pc) (auto simp: ending_def end_rank_def turn_finished_def split: prod.splits option.splits)

lemma reader_step_ctx: "reader_step c pc s = Some (s', pc') \<Longrightarrow> serveCtx s' = serveCtx s"
proof (cases pc)
  case RRead
  have w: "serveCtx (snd (write_line ctx (parse_error_line e) (logf f m s))) = serveCtx s" for ctx e f m
  proof -
    have "keeps_queue s (snd (write_line ctx (parse_error_line e) (logf f m s)))" by simp
    then show ?thesis by (simp add: keeps_queue_def)
  qed
  assume "reader_step c pc s = Some (s', pc')"
  with RRead w show ?thesis
    by (auto simp: receive_line_def route_lookup_def split: sum.splits option.splits if_splits)
qed (auto simp: chan_send_def dest!: go_select_in split: if_splits)

lemma serve_step_ctx:
  assumes "serve_step c r l pc s = Some (s', pc')"
  shows "dispatchCh s' = dispatchCh s \<and> pc' \<noteq> SvRead \<and> serve_rank pc' < serve_rank pc \<and>
    (serveCtx s \<noteq> None \<or> pc = SvRead \<longrightarrow> serveCtx s' \<noteq> None)"
proof (cases pc)
  case (SvWait op err)
  with assms show ?thesis by (auto dest!: go_select_in split: if_splits)
qed (use assms in \<open>auto simp: cancelServe_def cancelled_ctx_def split: reader_pc.splits option.splits if_splits\<close>)

text \<open>A step of the serve loop lowers the rank, or the process has ended; it keeps the invariant.\<close>

lemma loop_step_shut:
  assumes st: "loop_step env c (lp y) y = Some y'" and ti: "turns_inv y" and inv: "shut_inv y"
  shows "(crashed y' \<noteq> None \<and> shutdown_rank y' \<le> shutdown_rank y \<or> shutdown_rank y' < shutdown_rank y) \<and> shut_inv y' \<and>
    sv y' = sv y \<and> rd y' = rd y"
proof (cases "lp y")
  case LIdle
  have t: "(crashed (take_request env c raw rest y) \<noteq> None \<and>
        shutdown_rank (take_request env c raw rest y) \<le> shutdown_rank y \<or>
        shutdown_rank (take_request env c raw rest y) < shutdown_rank y) \<and>
      shut_inv (take_request env c raw rest y) \<and> sv (take_request env c raw rest y) = sv y \<and>
      rd (take_request env c raw rest y) = rd y"
    if d: "dispatchCh (srv y) = raw # rest" for raw rest
  proof (cases "dispatch env c raw ((srv y)\<lparr>dispatchCh := rest\<rparr>)")
    case (Inl p)
    with inv show ?thesis by (simp add: take_request_def shutdown_rank_def shut_inv_def Let_def)
  next
    case (Inr sp)
    obtain s pc where sp: "sp = (s, pc)" by (cases sp)
    with dispatch_rank [of env c raw "(srv y)\<lparr>dispatchCh := rest\<rparr>" s pc] Inr
    have q: "dispatchCh s = rest" "serveCtx s = serveCtx (srv y)" "loop_rank pc \<le> 4" "\<forall>k. pc \<noteq> LJoin k"
      by (simp_all add: keeps_queue_def)
    then have "join_rank pc ts = 0" for ts by (cases pc) simp_all
    with q sp Inr d LIdle inv show ?thesis by (simp add: take_request_def shutdown_rank_def shut_inv_def)
  qed
  from st LIdle have "(\<exists>raw rest. dispatchCh (srv y) = raw # rest \<and> y' = take_request env c raw rest y) \<or> y' = y\<lparr>lp := LDone\<rparr>"
    by (auto dest!: go_select_in split: list.splits if_splits)
  with t LIdle inv show ?thesis by (auto simp: shutdown_rank_def shut_inv_def)
next
  case (LBegin i input k)
  obtain e s where e: "emitEvent (serveCtx (srv y)) (Some (TurnBeginEvent \<lparr>tb_user_input = input\<rparr>)) (srv y) = (e, s)"
    by fastforce
  have k: "k = length (tg y)" using ti LBegin by (simp add: turns_inv_def index_inv_def counted_def)
  from queue.emit [OF e] have q: "dispatchCh s = dispatchCh (srv y)" "serveCtx s = serveCtx (srv y)"
    by (simp_all add: keeps_queue_def)
  show ?thesis
    using st LBegin e q k inv
    by (cases e) (auto simp: shutdown_rank_def shut_inv_def ending_def end_rank_def)
next
  case (LSteer i input k)
  from st LSteer inv show ?thesis
    by (auto simp: shutdown_rank_def shut_inv_def dest!: go_select_in split: if_splits)
next
  case (LSteerCall i input k)
  from st LSteerCall inv show ?thesis
    by (auto simp: shutdown_rank_def shut_inv_def split: sum.splits option.splits)
next
  case (LCancelMark i op t)
  with st inv show ?thesis by (auto simp: shutdown_rank_def shut_inv_def split: option.splits)
next
  case (LCancelFire i op)
  with st inv show ?thesis by (auto simp: shutdown_rank_def shut_inv_def)
next
  case (LCancelWait i op)
  from st LCancelWait inv show ?thesis
    by (auto simp: shutdown_rank_def shut_inv_def dest!: go_select_in split: if_splits)
next
  case (LJoin k)
  with st inv show ?thesis
    by (auto simp: shutdown_rank_def shut_inv_def turn_finished_def end_rank_def split: if_splits turn_pc.splits)
next
  case (LReplay i k)
  with st inv show ?thesis by (auto simp: shutdown_rank_def shut_inv_def)
next
  case LDone
  with st show ?thesis by simp
qed

lemma shut_inv_turn:
  assumes "shut_inv y" and "k < length (tg y)" "tg y ! k = (i, pc)"
    and st: "turn_step c k i pc (srv y) = Some (s, pc')"
  shows "shut_inv (y\<lparr>srv := s, tg := (tg y)[k := (i, pc')], frames := fs\<rparr>) \<and>
    shutdown_rank (y\<lparr>srv := s, tg := (tg y)[k := (i, pc')], frames := fs\<rparr>) \<le> shutdown_rank y \<and>
    (lp y = LJoin k \<and> \<not> turn_finished pc \<longrightarrow>
      shutdown_rank (y\<lparr>srv := s, tg := (tg y)[k := (i, pc')], frames := fs\<rparr>) < shutdown_rank y)"
proof -
  have j: "join_rank (lp y) ((tg y)[k := (i, pc')]) \<le> join_rank (lp y) (tg y) \<and>
    (lp y = LJoin k \<and> \<not> turn_finished pc \<longrightarrow> join_rank (lp y) ((tg y)[k := (i, pc')]) < join_rank (lp y) (tg y))"
  proof (cases "lp y = LJoin k")
    case True
    with assms have e: "ending pc" by (auto simp: shut_inv_def)
    show ?thesis
    proof (cases "end_rank pc > 0")
      case True
      with turn_step_rank [OF st] assms(2,3) \<open>lp y = LJoin k\<close> show ?thesis by simp
    next
      case False
      with e have "turn_finished pc" by (simp add: ending_def)
      with st show ?thesis by (cases pc) (simp_all add: turn_finished_def)
    qed
  next
    case False
    then show ?thesis by (cases "lp y") simp_all
  qed
  have "ending (snd ((tg y)[k := (i, pc')] ! j))" if "lp y = LJoin j" for j
    using assms that turn_step_ending [OF st] by (cases "j = k") (auto simp: shut_inv_def)
  with j assms(1) turn_step_queue [OF st] show ?thesis
    by (auto simp: shut_inv_def shutdown_rank_def keeps_queue_def)
qed

lemma shut_step:
  assumes st: "sys_step env a c y = Some y'" and ti: "turns_inv y" and inv: "shut_inv y"
  shows "shut_inv y'"
    and "rd y = RDone e \<Longrightarrow> rd y' = RDone e"
    and "rd y = RDone e \<Longrightarrow> shutdown_rank y' \<le> shutdown_rank y"
proof -
  from st have st: "actor_step env a c y = Some y'" by (auto simp: sys_step_def split: if_splits)
  have "shut_inv y' \<and> (rd y = RDone e \<longrightarrow> rd y' = RDone e \<and> shutdown_rank y' \<le> shutdown_rank y)"
  proof (cases a)
    case Reader
    with st inv show ?thesis by (auto simp: shut_inv_def dest: reader_step_ctx)
  next
    case Looper
    with st loop_step_shut [OF _ ti inv, of env c y'] show ?thesis by auto
  next
    case (TurnG k)
    with st inv shut_inv_turn show ?thesis by (fastforce split: if_splits prod.splits)
  next
    case (ReplayG k)
    with st inv show ?thesis
      by (auto simp: shut_inv_def shutdown_rank_def keeps_queue_def dest!: replay_step_queue
          split: if_splits prod.splits)
  next
    case Main
    with st obtain s pc where m: "serve_step c (rd y) (lp y) (sv y) (srv y) = Some (s, pc)"
      "y' = y\<lparr>srv := s, sv := pc\<rparr>" by auto
    from serve_step_ctx [OF m(1)] inv m(2) show ?thesis
      by (auto simp: shut_inv_def shutdown_rank_def)
  next
    case Parent
    with st inv show ?thesis by (auto simp: shut_inv_def shutdown_rank_def split: option.splits)
  next
    case Peer
    with st inv show ?thesis by (auto simp: shut_inv_def shutdown_rank_def)
  qed
  then show "shut_inv y'" and "rd y = RDone e \<Longrightarrow> rd y' = RDone e"
    and "rd y = RDone e \<Longrightarrow> shutdown_rank y' \<le> shutdown_rank y" by blast+
qed

lemma reachable_shut_inv: "reachable env y \<Longrightarrow> shut_inv y"
proof (induction rule: reachable.induct)
  case (start parent t w opts y)
  then show ?case by (auto simp: Serve_def shut_inv_def New_fields)
next
  case (step y a c y')
  then show ?case using shut_step(1) reachable_turns_inv by blast
qed

section \<open>Who can step\<close>

text \<open>The goroutine that \<open>Serve\<close> waits for.\<close>

definition next_actor :: "'t sys \<Rightarrow> actor" where
  "next_actor y = (case sv y of
     SvJoin e \<Rightarrow> (case lp y of
         LDone \<Rightarrow> Main
       | LJoin k \<Rightarrow> if turn_finished (snd (tg y ! k)) then Looper else TurnG k
       | _ \<Rightarrow> Looper)
   | _ \<Rightarrow> Main)"

lemma loop_step_enabled:
  assumes "serveCtx (srv y) \<noteq> None" and "lp y \<noteq> LDone"
    and "\<forall>k. lp y = LJoin k \<longrightarrow> turn_finished (snd (tg y ! k))"
  shows "\<exists>y'. loop_step env c (lp y) y = Some y'"
proof -
  have t: "turn_err (srv y) k \<noteq> None" for k using assms(1) by (auto simp: turn_err_def split: option.split)
  show ?thesis
    by (cases "lp y") (use assms t in \<open>auto intro!: go_select_enabled split: option.splits\<close>)
qed

lemma turn_step_enabled: "ending pc \<Longrightarrow> \<not> turn_finished pc \<Longrightarrow> \<exists>s' pc'. turn_step c k i pc s = Some (s', pc')"
  by (cases pc) (auto simp: ending_def end_rank_def turn_finished_def split: prod.split option.split)

lemma next_actor_steps:
  assumes "reachable env y" and "rd y = RDone e" and "crashed y = None" and "\<forall>err. sv y \<noteq> SvReturn err"
    and "ch_late c"
  shows "\<exists>y'. sys_step env (next_actor y) c y = Some y' \<and> (crashed y' \<noteq> None \<or> shutdown_rank y' < shutdown_rank y)"
proof -
  note ti = reachable_turns_inv [OF assms(1)] and inv = reachable_shut_inv [OF assms(1)]
  have "next_actor y = Main \<or> next_actor y = Looper \<or> (\<exists>k. next_actor y = TurnG k)"
    by (auto simp: next_actor_def split: serve_pc.split loop_pc.split)
  then consider (main) "next_actor y = Main" | (loop) "next_actor y = Looper" | (turn) k where "next_actor y = TurnG k"
    by blast
  then show ?thesis
  proof cases
    case main
    then have "(\<exists>e. sv y = SvJoin e) \<longrightarrow> lp y = LDone"
      by (auto simp: next_actor_def split: loop_pc.splits if_splits)
    with assms(2,4,5) have "\<exists>s pc. serve_step c (rd y) (lp y) (sv y) (srv y) = Some (s, pc)"
      by (cases "sv y") (auto simp: go_select_def)
    then obtain s pc where m: "serve_step c (rd y) (lp y) (sv y) (srv y) = Some (s, pc)" by blast
    with serve_step_ctx [OF m] main assms(3) show ?thesis by (auto simp: sys_step_def shutdown_rank_def)
  next
    case loop
    then obtain e where s: "sv y = SvJoin e" and l: "lp y \<noteq> LDone"
      "\<forall>k. lp y = LJoin k \<longrightarrow> turn_finished (snd (tg y ! k))"
      by (auto simp: next_actor_def split: serve_pc.splits loop_pc.splits if_splits)
    from inv s have "serveCtx (srv y) \<noteq> None" by (simp add: shut_inv_def)
    from loop_step_enabled [OF this l, of env c] obtain y' where y': "loop_step env c (lp y) y = Some y'" by blast
    from loop_step_shut [OF y' ti inv] y' loop assms(3) show ?thesis by (auto simp: sys_step_def)
  next
    case (turn k)
    then have l: "lp y = LJoin k" and f: "\<not> turn_finished (snd (tg y ! k))"
      by (auto simp: next_actor_def split: serve_pc.splits loop_pc.splits if_splits)
    obtain i pc where p: "tg y ! k = (i, pc)" by (cases "tg y ! k")
    from inv l p have k: "k < length (tg y)" "ending pc" by (auto simp: shut_inv_def)
    with f p turn_step_enabled obtain s pc' where st: "turn_step c k i pc (srv y) = Some (s, pc')" by fastforce
    from shut_inv_turn [OF inv k(1) p st] turn st k p l f assms(3) show ?thesis
      by (auto simp: sys_step_def)
  qed
qed

lemma shutdown_rank_bound: "shutdown_rank y \<le> 40 * length (dispatchCh (srv y)) + 51"
proof -
  have "serve_rank (sv y) \<le> 6" by (cases "sv y") simp_all
  moreover have "loop_rank (lp y) \<le> 4" by (cases "lp y") simp_all
  moreover have "join_rank (lp y) (tg y) \<le> 5" by (cases "lp y") (auto simp: end_rank_def split: turn_pc.split)
  ultimately show ?thesis by (simp add: shutdown_rank_def)
qed

end
