(* ===== verification/Server_Intake.thy ===== *)
theory Server_Intake
  imports Server_Shutdown
begin

text \<open>
  What goes into the server and what comes out, for the composition with a client. Out: the record of lines
  written only grows, and each line that reads as a response names its request. In: the requests
  taken, queued and in the reader's hand are among those of the lines read, each counted once.
\<close>

section \<open>Lines written\<close>

interpretation sent: server_view sent_since
  by unfold_locales (auto simp: quiet_def intro: sent_since_trans)

lemma sent_since_update [simp]:
  "sent_since s (s'\<lparr>pending := p\<rparr>) = sent_since s s'" "sent_since s (s'\<lparr>chans := q\<rparr>) = sent_since s s'"
  "sent_since s (s'\<lparr>turns := ts\<rparr>) = sent_since s s'" "sent_since s (s'\<lparr>replays := rs\<rparr>) = sent_since s s'"
  "sent_since s (s'\<lparr>activeTurn := a\<rparr>) = sent_since s s'" "sent_since s (s'\<lparr>activeOp := b\<rparr>) = sent_since s s'"
  "sent_since s (s'\<lparr>serving := h\<rparr>) = sent_since s s'" "sent_since s (s'\<lparr>requestCounter := n\<rparr>) = sent_since s s'"
  "sent_since s (s'\<lparr>transport := t\<rparr>) = sent_since s s'" "sent_since s (s'\<lparr>dispatchCh := f\<rparr>) = sent_since s s'"
  "sent_since s (s'\<lparr>serveCtx := g\<rparr>) = sent_since s s'" "sent_since (s\<lparr>dispatchCh := f\<rparr>) s' = sent_since s s'"
  by (simp_all add: sent_since_def)

lemma sent_since_ops [simp]:
  "sent_since s (upd_turn k f s)" "sent_since s (cancel_op op s)" "sent_since s (turn_close k s)"
  "sent_since s (clear_active k s)" "sent_since s (unregister i c s') = sent_since s s'"
  "sent_since s (closePending e s)" "sent_since s (cancelServe s)"
proof -
  show u: "sent_since s (upd_turn k f s)" for k f by (simp add: upd_turn_def)
  show "sent_since s (cancel_op op s)" by (cases op) (simp_all add: cancel_turn_def u)
  show "sent_since s (turn_close k s)" by (simp add: turn_close_def u)
qed (simp_all add: clear_active_def unregister_def closePending_def cancelServe_def)

lemma sent_since_register: "register s = (i, c, s') \<Longrightarrow> sent_since s s'"
  by (auto simp: register_def nextRequestID_def Let_def)

lemma run_step_sent: "run_step c k p s = Some (s', pc') \<Longrightarrow> sent_since s s'"
  by (cases p) (auto simp: steer_input_def dest: sent_since_register
      sent.emit dest!: go_select_in split: prod.splits sum.splits list.splits)

lemma turn_step_sent:
  assumes "turn_step c k i pc s = Some (s', pc')"
  shows "sent_since s s'"
proof (cases pc)
  case (TRun p)
  with assms run_step_sent show ?thesis by auto
next
  case (TWrite call req j q f)
  with assms sent.write_req [of "ch_ctx c" j req s] show ?thesis
    by (auto split: prod.splits option.splits)
next
  case (TEndEmit r err)
  with assms sent.emit [of "serveCtx s" "Some TurnEndEvent" s] show ?thesis
    by (auto split: prod.splits option.splits intro: sent_since_trans)
qed (use assms in \<open>auto simp: await_def\<close>)

lemma replay_step_sent:
  assumes "replay_step k i pc s = Some (s', pc')"
  shows "sent_since s s'"
proof (cases pc)
  case (RpRun p)
  with assms show ?thesis by (cases p) (auto dest: sent.emit split: prod.splits)
qed (use assms in auto)

lemma reader_step_sent: "reader_step c pc s = Some (s', pc') \<Longrightarrow> sent_since s s'"
proof (cases pc)
  case RRead
  moreover assume "reader_step c pc s = Some (s', pc')"
  ultimately show ?thesis
    by (auto simp: receive_line_def route_lookup_def split: sum.splits option.splits if_splits)
qed (auto simp: chan_send_def dest!: go_select_in split: if_splits)

lemma serve_step_sent:
  assumes "serve_step c r l pc s = Some (s', pc')"
  shows "sent_since s s'"
proof (cases pc)
  case (SvWait op err)
  with assms show ?thesis by (auto dest!: go_select_in split: if_splits)
qed (use assms in \<open>auto split: reader_pc.splits option.splits if_splits\<close>)

lemma dispatch_sent:
  assumes "dispatch env c raw s = Inr (s', pc)"
  shows "sent_since s s'"
  using assms
  by (auto simp: dispatch_def Let_def handlePrompt_def handleSteer_def handleCancel_def handleReplay_def
      dest: sent.set_plan split: if_splits sum.splits option.splits)

lemma take_request_sent: "sent_since (srv y) (srv (take_request env c raw rest y))"
  using dispatch_sent [of env c raw "(srv y)\<lparr>dispatchCh := rest\<rparr>"]
  by (auto simp: take_request_def Let_def split: sum.split)

lemma loop_step_sent:
  assumes "loop_step env c (lp y) y = Some y'"
  shows "sent_since (srv y) (srv y')"
proof (cases "lp y")
  case LIdle
  with assms take_request_sent show ?thesis by (fastforce dest!: go_select_in split: list.splits if_splits)
next
  case (LBegin i input k)
  with assms show ?thesis by (auto dest: sent.emit split: prod.splits option.splits)
qed (use assms in \<open>auto dest!: go_select_in split: if_splits sum.splits option.splits\<close>)

lemma sys_step_sent:
  assumes "sys_step env a c y = Some y'"
  shows "sent_since (srv y) (srv y')"
proof -
  from assms have st: "actor_step env a c y = Some y'" by (auto simp: sys_step_def split: if_splits)
  show ?thesis
  proof (cases a)
    case Looper
    with st loop_step_sent show ?thesis by simp
  qed (use st in \<open>auto dest: reader_step_sent turn_step_sent replay_step_sent serve_step_sent
      split: if_splits prod.splits option.splits\<close>)
qed

lemma reachable_sent_line: "reachable env y \<Longrightarrow> w \<in> set (written (srv y)) \<Longrightarrow> sent_line (fst w)"
proof (induction rule: reachable.induct)
  case (start parent t w opts y)
  then show ?case by (auto simp: Serve_def New_written split: if_splits)
next
  case (step y a c y')
  with sys_step_sent [OF step(2)] show ?case by (auto simp: sent_since_def)
qed

section \<open>Requests read\<close>

text \<open>The id that a line brings to \<open>dispatchCh\<close>: of any message but a response.\<close>

definition line_ids :: "line \<Rightarrow> string multiset" where
  "line_ids l = (case parse_line l of
     Inl e \<Rightarrow> {#}
   | Inr raw \<Rightarrow> if rw_id raw \<noteq> [] \<and> rw_method raw = [] then {#} else {#rw_id raw#})"

fun reader_ids :: "reader_pc \<Rightarrow> string multiset" where
  "reader_ids (RDispatch raw) = {#rw_id raw#}"
| "reader_ids pc = {#}"

definition intake :: "'t sys \<Rightarrow> string multiset" where
  "intake y = mset (taken y) + mset (map rw_id (dispatchCh (srv y))) + reader_ids (rd y)"

definition read_ids :: "actor \<Rightarrow> 't choice \<Rightarrow> 't sys \<Rightarrow> string multiset" where
  "read_ids a c y = (if a = Reader \<and> rd y = RRead
     then (case ch_input c of Inl e \<Rightarrow> {#} | Inr l \<Rightarrow> line_ids l) else {#})"

lemma receive_line_intake:
  "receive_line l s = (s', pc) \<Longrightarrow> dispatchCh s' = dispatchCh s \<and> reader_ids pc = line_ids l"
proof -
  have w: "dispatchCh (snd (write_line ctx (parse_error_line e) (logf f m s))) = dispatchCh s" for ctx e f m
  proof -
    have "keeps_queue s (snd (write_line ctx (parse_error_line e) (logf f m s)))" by simp
    then show ?thesis by (simp add: keeps_queue_def)
  qed
  assume "receive_line l s = (s', pc)"
  with w show ?thesis
    by (auto simp: receive_line_def route_lookup_def line_ids_def split: sum.splits option.splits if_splits)
qed

lemma reader_step_intake:
  assumes "reader_step c pc s = Some (s', pc')"
  shows "mset (map rw_id (dispatchCh s')) + reader_ids pc' \<subseteq># mset (map rw_id (dispatchCh s)) + reader_ids pc +
    (if pc = RRead then (case ch_input c of Inl e \<Rightarrow> {#} | Inr l \<Rightarrow> line_ids l) else {#})"
proof (cases pc)
  case RRead
  with assms show ?thesis
    by (cases "ch_input c") (auto dest: receive_line_intake split: if_splits)
qed (use assms in \<open>auto simp: chan_send_def dest!: go_select_in split: if_splits\<close>)

lemma keeps_queue_channel: "keeps_queue s s' \<Longrightarrow> dispatchCh s' = dispatchCh s"
  by (simp add: keeps_queue_def)

lemma loop_step_intake:
  assumes "loop_step env c (lp y) y = Some y'" and "crashed y' = None"
  shows "mset (taken y') + mset (map rw_id (dispatchCh (srv y'))) =
    mset (taken y) + mset (map rw_id (dispatchCh (srv y))) \<and> rd y' = rd y"
proof (cases "lp y")
  case LIdle
  have t: "mset (taken (take_request env c raw rest y)) + mset (map rw_id (dispatchCh (srv (take_request env c raw rest y)))) =
      mset (taken y) + mset (map rw_id (dispatchCh (srv y))) \<and> rd (take_request env c raw rest y) = rd y"
    if d: "dispatchCh (srv y) = raw # rest" "crashed (take_request env c raw rest y) = None" for raw rest
  proof (cases "dispatch env c raw ((srv y)\<lparr>dispatchCh := rest\<rparr>)")
    case (Inl p)
    with d(2) show ?thesis by (simp add: take_request_def Let_def)
  next
    case (Inr sp)
    obtain s pc where sp: "sp = (s, pc)" by (cases sp)
    with dispatch_rank [of env c raw "(srv y)\<lparr>dispatchCh := rest\<rparr>" s pc] Inr
    have "dispatchCh s = rest" by (simp add: keeps_queue_def)
    with sp Inr d(1) show ?thesis by (simp add: take_request_def)
  qed
  with LIdle assms show ?thesis by (fastforce dest!: go_select_in split: list.splits if_splits)
next
  case (LBegin i input k)
  with assms show ?thesis
    by (auto dest!: queue.emit keeps_queue_channel split: prod.splits option.splits)
qed (use assms in \<open>auto dest!: go_select_in split: if_splits sum.splits option.splits\<close>)

lemma sys_step_intake:
  assumes st: "sys_step env a c y = Some y'" and "crashed y' = None"
  shows "intake y' \<subseteq># intake y + read_ids a c y"
proof -
  from st have st: "actor_step env a c y = Some y'" by (auto simp: sys_step_def split: if_splits)
  show ?thesis
  proof (cases a)
    case Reader
    with st obtain s pc where r: "reader_step c (rd y) (srv y) = Some (s, pc)" "y' = y\<lparr>srv := s, rd := pc\<rparr>" by auto
    from reader_step_intake [OF r(1)] show ?thesis
      using r(2) Reader
      by (auto simp: intake_def read_ids_def add.assoc intro: subset_mset.add_left_mono)
  next
    case Looper
    with st loop_step_intake [of env c y y'] assms(2) show ?thesis by (auto simp: intake_def)
  next
    case Main
    with st show ?thesis by (auto simp: intake_def dest: serve_step_ctx)
  qed (use st in \<open>auto simp: intake_def dest!: turn_step_queue replay_step_queue keeps_queue_channel
      split: if_splits prod.splits option.splits\<close>)
qed

lemma start_intake: "Serve parent (New t w opts) = Inr y \<Longrightarrow> intake y = {#}"
proof -
  have "dispatchCh (fold apply_option opts s) = dispatchCh s" for s
  proof (induction opts arbitrary: s)
    case (Cons opt opts)
    then show ?case by (cases opt) simp_all
  qed simp
  from this [of "New_base t w"] have "dispatchCh (New t w opts) = []" by (simp add: New_def) (simp add: New_base_def)
  then show "intake y = {#}" if "Serve parent (New t w opts) = Inr y"
    using that by (auto simp: Serve_def intake_def split: if_splits)
qed

end
