(* ===== verification/Client_Sent.thy ===== *)
theory Client_Sent
  imports Client_Runs Server_Intake
begin

text \<open>
  What goes out of the client and what comes in, for the composition with a server. Out: of the lines
  written at most one is a request with a given id, since every call takes a new id from the counter. In:
  whatever message a call can be given (in its channel, in the buffer or in the reader's hand) was read by
  the reader as a response.
\<close>

section \<open>Requests written\<close>

definition sent_ids :: "'t client \<Rightarrow> string multiset" where
  "sent_ids s = sum_list (map (\<lambda>w. line_ids (fst w)) (cl_written s))"

lemma sent_ids_snoc:
  "cl_written s' = cl_written s @ [w] \<Longrightarrow> sent_ids s' = sent_ids s + line_ids (fst w)"
  by (simp add: sent_ids_def)

lemma sent_ids_same: "cl_written s' = cl_written s \<Longrightarrow> sent_ids s' = sent_ids s"
  by (simp add: sent_ids_def)

lemma written_message:
  "client_writeMessage ctx msg s = (e, s') \<Longrightarrow>
    cl_written s' = cl_written s \<or> (\<exists>j. msg = Inr j \<and> cl_written s' = cl_written s @ [(Inr j, e)])"
  by (auto simp: client_writeMessage_def client_write_def split: sum.splits prod.splits)

lemma line_ids_call: "call_request call i = Inr j \<Longrightarrow> line_ids (Inr j) = {#i#}"
  by (cases call) (auto simp: call_request_def line_ids_def parse_rpc map_res_eq_Inr)

lemma line_ids_answers:
  "i \<noteq> [] \<Longrightarrow> count (line_ids (Inr (rpc_success j v))) i = 0"
  "i \<noteq> [] \<Longrightarrow> count (line_ids (Inr (rpc_error j \<lparr>je_code = -32603, je_message = m, je_data = None\<rparr>))) i = 0"
  by (simp_all add: line_ids_def parse_rpc code_ok_def)

lemma finish_call_written: "finish_call call r s = (r', s') \<Longrightarrow> cl_written s' = cl_written s"
  by (cases call) (auto split: sum.splits if_splits)

lemma call_step_written:
  assumes "call_step pick ctx pc s = Some (s', pc')"
  shows "(case pc of
      CcWrite call i \<Rightarrow> sent_ids s' = sent_ids s \<or> sent_ids s' = sent_ids s + {#i#}
    | _ \<Rightarrow> sent_ids s' = sent_ids s)"
proof (cases pc)
  case (CcStart call)
  with assms show ?thesis by (auto simp: nextID_def Let_def intro: sent_ids_same)
next
  case (CcWrite call i)
  obtain e s1 where w: "client_writeMessage ctx (call_request call i) s = (e, s1)" by fastforce
  with CcWrite assms have "s' = s1" by (auto split: option.splits)
  with written_message [OF w] CcWrite show ?thesis
    by (auto dest: sent_ids_same sent_ids_snoc simp: line_ids_call)
next
  case (CcRead call i)
  with assms show ?thesis
    by (auto simp: Let_def intro!: sent_ids_same dest: finish_call_written split: option.splits prod.splits)
next
  case (CcWait call i q)
  with assms show ?thesis by (auto simp: close_chan_def intro!: sent_ids_same dest!: go_select_in)
next
  case (CcClean call i q r)
  with assms show ?thesis
    by (auto simp: close_chan_def intro!: sent_ids_same dest!: finish_call_written split: prod.splits)
qed (use assms in simp)

lemma reader_step_written:
  "client_reader_step pick input pc s = Some (s', pc') \<Longrightarrow> sent_ids s' = sent_ids s"
  by (cases pc) (auto simp: client_closePending_def intro!: sent_ids_same dest!: go_select_in
      split: sum.splits if_splits option.splits)

lemma dispatch_step_written:
  assumes "dispatch_step h pick ctx pc s = Some (s', pc')" and "i \<noteq> []"
  shows "count (sent_ids s') i = count (sent_ids s) i"
proof (cases pc)
  case DpWait
  with assms show ?thesis
    by (auto intro!: arg_cong [of _ _ "\<lambda>m. count m i"] sent_ids_same dest!: go_select_in split: list.splits if_splits)
next
  case (DpHandle raw)
  have a: "count (sent_ids s') i = count (sent_ids s) i"
    if "after_send (client_writeMessage ctx msg s) = (s', pc')"
      "\<And>j. msg = Inr j \<Longrightarrow> count (line_ids (Inr j)) i = 0" for msg
  proof -
    obtain e s1 where w: "client_writeMessage ctx msg s = (e, s1)" by fastforce
    with that(1) have "s' = s1" by (auto simp: after_send_def split: option.splits)
    with written_message [OF w] that(2) show ?thesis by (auto dest: sent_ids_same sent_ids_snoc)
  qed
  have r: "count (sent_ids s') i = count (sent_ids s) i" if "after_send (SendResponse ctx j v s) = (s', pc')" for j v
    by (rule a [OF that [unfolded SendResponse_def]]) (auto simp: map_res_eq_Inr line_ids_answers assms(2))
  have e: "count (sent_ids s') i = count (sent_ids s) i" if "after_send (SendError ctx j (-32603) m s) = (s', pc')" for j m
    by (rule a [OF that [unfolded SendError_def]]) (auto simp: line_ids_answers assms(2))
  from assms DpHandle show ?thesis
    by (auto dest: r e split: sum.splits wire_message.splits option.splits)
qed (use assms in simp)

section \<open>Each id once\<close>

definition fresh_ok :: "call_pc list \<Rightarrow> nat \<Rightarrow> (string \<Rightarrow> nat) \<Rightarrow> bool" where
  "fresh_ok ps c f \<longleftrightarrow>
     (\<forall>i. i \<noteq> [] \<longrightarrow> f i \<le> 1 \<and> (f i > 0 \<longrightarrow> (\<exists>n \<le> c. i = req_id n))) \<and>
     (\<forall>k call i. k < length ps \<longrightarrow> ps ! k = CcWrite call i \<longrightarrow> f i = 0)"

definition fresh_inv :: "'t csys \<Rightarrow> bool" where
  "fresh_inv z \<longleftrightarrow> (length (cc z) < 2 ^ 64 \<longrightarrow>
     fresh_ok (cc z) (unat (cl_counter (cl z))) (count (sent_ids (cl z))))"

lemma fresh_okD:
  assumes "fresh_ok ps c f"
  shows "i \<noteq> [] \<Longrightarrow> f i \<le> 1" "i \<noteq> [] \<Longrightarrow> f i > 0 \<Longrightarrow> \<exists>n \<le> c. i = req_id n"
    "k < length ps \<Longrightarrow> ps ! k = CcWrite call i \<Longrightarrow> f i = 0"
  using assms unfolding fresh_ok_def by blast+

lemma fresh_okI:
  assumes "\<And>i. i \<noteq> [] \<Longrightarrow> f i \<le> 1" "\<And>i. i \<noteq> [] \<Longrightarrow> f i > 0 \<Longrightarrow> \<exists>n \<le> c. i = req_id n"
    "\<And>k call i. k < length ps \<Longrightarrow> ps ! k = CcWrite call i \<Longrightarrow> f i = 0"
  shows "fresh_ok ps c f"
  using assms unfolding fresh_ok_def by blast

lemma req_id_nonempty [simp]: "req_id n \<noteq> []"
  by (simp add: req_id_def)

lemma fresh_ok_cong:
  "fresh_ok ps c f \<Longrightarrow> (\<And>i. i \<noteq> [] \<Longrightarrow> g i = f i) \<Longrightarrow>
    (\<And>k call i. k < length ps \<Longrightarrow> ps ! k = CcWrite call i \<Longrightarrow> i \<noteq> []) \<Longrightarrow> fresh_ok ps c g"
  by (auto simp: fresh_ok_def)

lemma fresh_call:
  assumes ids: "ids_ok ps c" and ok: "fresh_ok ps c f" and k: "k < length ps" "ps ! k = CcWrite call i"
    and pc: "\<And>call' i'. pc \<noteq> CcWrite call' i'"
  shows "fresh_ok (ps[k := pc]) c (\<lambda>j. f j + (if j = i then 1 else 0))"
proof -
  have i: "\<exists>n \<le> c. i = req_id n" using ids_okD(1) [OF ids k(1)] k(2) by simp
  have zero: "f i = 0" using fresh_okD(3) [OF ok k] .
  have other: "j \<noteq> i" if "l < length ps" "ps[k := pc] ! l = CcWrite call' j" for l call' j
  proof
    assume "j = i"
    from that pc have "l \<noteq> k" "ps ! l = CcWrite call' j" using k(1) by (auto simp: nth_list_update split: if_splits)
    with \<open>j = i\<close> ids_okD(2) [OF ids that(1) k(1), of i] k(2) show False by simp
  qed
  have "f j = 0" if "l < length ps" "ps[k := pc] ! l = CcWrite call' j" for l call' j
    using that pc k(1) fresh_okD(3) [OF ok that(1), of call' j] by (auto simp: nth_list_update split: if_splits)
  with other have w: "f j + (if j = i then 1 else 0) = 0"
    if "l < length ps" "ps[k := pc] ! l = CcWrite call' j" for l call' j using that by simp
  have "f j + (if j = i then 1 else 0) \<le> 1" if "j \<noteq> []" for j using fresh_okD(1) [OF ok that] zero by simp
  moreover have "\<exists>n \<le> c. j = req_id n" if "j \<noteq> []" "f j + (if j = i then 1 else 0) > 0" for j
    using fresh_okD(2) [OF ok that(1)] that(2) i by (cases "j = i") auto
  ultimately show ?thesis using w by (intro fresh_okI) simp_all
qed

lemma fresh_start:
  assumes ok: "fresh_ok ps c f" and k: "k < length ps"
  shows "fresh_ok (ps[k := CcWrite call (req_id (c + 1))]) (c + 1) f"
proof (rule fresh_okI)
  fix l call' i assume l: "l < length (ps[k := CcWrite call (req_id (c + 1))])"
    "ps[k := CcWrite call (req_id (c + 1))] ! l = CcWrite call' i"
  show "f i = 0"
  proof (cases "l = k")
    case True
    with l have "i = req_id (c + 1)" by simp
    with fresh_okD(2) [OF ok, of i] show ?thesis by fastforce
  next
    case False
    with l fresh_okD(3) [OF ok, of l call' i] show ?thesis by simp
  qed
qed (use fresh_okD(1,2) [OF ok] le_SucI in fastforce)+

lemma fresh_move:
  assumes ok: "fresh_ok ps c f" and pc: "\<forall>call i. pc \<noteq> CcWrite call i"
  shows "fresh_ok (ps[k := pc]) c f"
proof (cases "k < length ps")
  case True
  then show ?thesis
    using fresh_okD [OF ok] pc by (intro fresh_okI) (auto simp: nth_list_update split: if_splits)
qed (use ok in \<open>simp add: list_update_beyond\<close>)

lemma call_step_to_write:
  assumes "call_step pick ctx pc s = Some (s', CcWrite call i)"
  shows "pc = CcStart call"
proof (cases pc)
  case (CcWrite call' j)
  with assms show ?thesis by (auto split: prod.splits option.splits)
next
  case (CcRead call' j)
  with assms show ?thesis by (auto simp: Let_def split: prod.splits option.splits)
next
  case (CcClean call' j q r)
  with assms show ?thesis by (auto split: prod.splits)
qed (use assms in \<open>auto simp: nextID_def Let_def dest!: go_select_in\<close>)

lemma fresh_inv_call:
  assumes inv: "fresh_inv y" and ids: "ids_inv y" "ids_inv (y\<lparr>cl := s, cc := (cc y)[k := pc]\<rparr>)"
    and k: "k < length (cc y)" and st: "call_step pick ctx (cc y ! k) (cl y) = Some (s, pc)"
  shows "fresh_inv (y\<lparr>cl := s, cc := (cc y)[k := pc]\<rparr>)"
proof -
  have "fresh_ok ((cc y)[k := pc]) (unat (cl_counter s)) (count (sent_ids s))" if len: "length (cc y) < 2 ^ 64"
  proof -
    let ?c = "unat (cl_counter (cl y))"
    from inv len have ok: "fresh_ok (cc y) ?c (count (sent_ids (cl y)))" by (simp add: fresh_inv_def)
    from ids(1) len have iok: "ids_ok (cc y) ?c" by (simp add: ids_inv_def)
    from ids(2) len have iok': "ids_ok ((cc y)[k := pc]) (unat (cl_counter s))" by (simp add: ids_inv_def)
    show ?thesis
    proof (cases "\<exists>call. cc y ! k = CcStart call")
      case True
      then obtain call where call: "cc y ! k = CcStart call" ..
      with call_step_ids [OF st] have pc: "pc = CcWrite call (req_id (unat (cl_counter (cl y) + 1)))"
        "cl_counter s = cl_counter (cl y) + 1" by (auto simp: started_def)
      have "?c + 1 = unat (cl_counter s)"
        using filter_update [OF k, of started pc] iok iok' call pc(1) by (simp add: ids_ok_def started_def)
      with fresh_start [OF ok k, of call] pc call_step_written [OF st] call show ?thesis by simp
    next
      case False
      with call_step_ids [OF st] have c: "cl_counter s = cl_counter (cl y)" by auto
      from False call_step_to_write [of pick ctx "cc y ! k" "cl y" s] st
      have w: "\<forall>call i. pc \<noteq> CcWrite call i" by blast
      show ?thesis
      proof (cases "\<exists>call i. cc y ! k = CcWrite call i")
        case True
        then obtain call i where call: "cc y ! k = CcWrite call i" by blast
        from call_step_written [OF st] call
        consider "sent_ids s = sent_ids (cl y)" | "sent_ids s = sent_ids (cl y) + {#i#}" by auto
        then show ?thesis
        proof cases
          case 1
          with fresh_move [OF ok w] c show ?thesis by simp
        next
          case 2
          then have "count (sent_ids s) = (\<lambda>j. count (sent_ids (cl y)) j + (if j = i then 1 else 0))" by auto
          with fresh_call [OF iok ok k call, of pc] w c show ?thesis by simp
        qed
      next
        case False
        with call_step_written [OF st] have "sent_ids s = sent_ids (cl y)" by (cases "cc y ! k") auto
        with fresh_move [OF ok w] c show ?thesis by simp
      qed
    qed
  qed
  then show ?thesis by (simp add: fresh_inv_def)
qed

lemma fresh_inv_step:
  assumes inv: "fresh_inv y" and ids: "ids_inv y" "ids_inv y'" and st: "cactor_step h a c y = Some y'"
  shows "fresh_inv y'"
proof (cases a)
  case CReader
  with st obtain s pc where r: "client_reader_step (cx_pick c) (cx_input c) (cr y) (cl y) = Some (s, pc)"
    "cl y' = s" "cc y' = cc y" by auto
  from reader_step_written [OF r(1)] reader_counter [OF r(1)] r(2,3) inv show ?thesis by (simp add: fresh_inv_def)
next
  case CNew
  with st inv show ?thesis
    by (auto simp: fresh_inv_def fresh_ok_def nth_append less_Suc_eq)
next
  case (CCall k)
  with st inv ids fresh_inv_call show ?thesis by (auto split: if_splits)
next
  case CDispatch
  with st obtain s pc where d: "dispatch_step h (cx_pick c) (cx_ctx c) (cd y) (cl y) = Some (s, pc)"
    "y' = y\<lparr>cl := s, cd := pc, handled := handled y @ taken_by pc\<rparr>" by auto
  have "fresh_ok (cc y) (unat (cl_counter s)) (count (sent_ids s))" if len: "length (cc y) < 2 ^ 64"
  proof -
    from inv len have ok: "fresh_ok (cc y) (unat (cl_counter (cl y))) (count (sent_ids (cl y)))"
      by (simp add: fresh_inv_def)
    from ids(1) len have iok: "ids_ok (cc y) (unat (cl_counter (cl y)))" by (simp add: ids_inv_def)
    have n: "i \<noteq> []" if "k < length (cc y)" "cc y ! k = CcWrite call i" for k call i
      using ids_okD(1) [OF iok that(1), of i] that(2) by auto
    have "cl_counter s = cl_counter (cl y)" using dispatch_step_calls [OF d(1)] by (simp add: same_calls_def)
    moreover have "fresh_ok (cc y) (unat (cl_counter (cl y))) (count (sent_ids s))"
      using dispatch_step_written [OF d(1)] n by (rule fresh_ok_cong [OF ok])
    ultimately show ?thesis by simp
  qed
  with d(2) show ?thesis by (simp add: fresh_inv_def)
qed (use st inv in \<open>auto simp: fresh_inv_def sent_ids_def split: dispatch_pc.splits\<close>)

lemma creachable_fresh_inv: "creachable h y \<Longrightarrow> fresh_inv y"
proof (induction rule: creachable.induct)
  case (cstart d t w)
  show ?case
    by (simp add: client_start_def fresh_inv_def fresh_ok_def NewClient_def WithDefaultTimeout_def sent_ids_def)
next
  case (cstep y a c y')
  then show ?case using fresh_inv_step creachable_ids_inv creachable.cstep by blast
qed

section \<open>Messages read\<close>

text \<open>What a call can be given, but for the error with which \<open>closePending\<close> ends all calls.\<close>

definition held :: "'t csys \<Rightarrow> raw_wire_message set" where
  "held z = {m. \<not> broken m \<and> (m \<in> set (cl_ooo (cl z)) \<or> (\<exists>i. (i, Some m) \<in> set (cl_chans (cl z))) \<or>
     (\<exists>q. cr z = CrSend q m))}"

definition read_response :: "cactor \<Rightarrow> 't cchoice \<Rightarrow> 't csys \<Rightarrow> raw_wire_message \<Rightarrow> bool" where
  "read_response a c z m \<longleftrightarrow> a = CReader \<and> cr z = CrRead \<and>
     (\<exists>l. cx_input c = Inr l \<and> parse_line l = Inr m \<and> rw_method m = [])"

lemma take_ooo_subset: "take_ooo i ms = Some (m, rest) \<Longrightarrow> set rest \<subseteq> set ms"
  by (induction i ms arbitrary: m rest rule: take_ooo.induct) (fastforce split: if_splits)+

lemma in_chans_update: "(i, Some m) \<in> set (cs[q := (j, v)]) \<Longrightarrow> (i, Some m) \<in> set cs \<or> v = Some m"
  using set_update_subset_insert by fastforce

lemma call_step_held:
  assumes "call_step pick ctx pc s = Some (s', pc')"
  shows "set (cl_ooo s') \<subseteq> set (cl_ooo s) \<and> (\<forall>i m. (i, Some m) \<in> set (cl_chans s') \<longrightarrow> (i, Some m) \<in> set (cl_chans s))"
proof (cases pc)
  case (CcStart call)
  with assms show ?thesis by (auto simp: nextID_def Let_def)
next
  case (CcWrite call i)
  with assms same_calls_write [of ctx "call_request call i" s] show ?thesis
    by (auto simp: same_calls_def split: prod.splits option.splits)
next
  case (CcRead call i)
  with assms show ?thesis
    by (auto simp: Let_def same_calls_def dest!: finish_call_fields take_ooo_subset split: option.splits prod.splits)
next
  case (CcWait call i q)
  with assms show ?thesis by (auto simp: close_chan_def dest!: go_select_in in_chans_update)
next
  case (CcClean call i q r)
  with assms show ?thesis
    by (auto simp: close_chan_def same_calls_def dest!: finish_call_fields in_chans_update split: prod.splits)
qed (use assms in simp)

lemma held_step:
  assumes st: "cactor_step h a c z = Some z'" and m: "m \<in> held z'"
  shows "m \<in> held z \<or> read_response a c z m"
proof (cases a)
  case CReader
  with st obtain s pc where r: "client_reader_step (cx_pick c) (cx_input c) (cr z) (cl z) = Some (s, pc)"
    "cl z' = s" "cr z' = pc" by auto
  show ?thesis
  proof (cases "cr z")
    case CrRead
    with r(1) m CReader show ?thesis
      by (auto simp: held_def read_response_def r(2,3) split: sum.splits if_splits option.splits)
  next
    case (CrClose e)
    have "broken m" if "(i, Some m) \<in> set (cl_chans (client_closePending e (cl z)))" "(i, Some m) \<notin> set (cl_chans (cl z))" for i
    proof -
      from that(1) obtain q where q: "q < length (cl_chans (client_closePending e (cl z)))"
        "cl_chans (client_closePending e (cl z)) ! q = (i, Some m)" by (auto simp: in_set_conv_nth)
      with client_closePending_effect(1-4) [of e "cl z"] that(2) show ?thesis
        by (metis fst_conv nth_mem prod.collapse snd_conv)
    qed
    with CrClose r(1) m show ?thesis by (auto simp: held_def r(2,3) client_closePending_def)
  next
    case (CrSend q raw)
    with r(1) m show ?thesis
      by (auto simp: held_def r(2,3) dest!: go_select_in in_chans_update split: if_splits)
  next
    case (CrDispatch raw)
    with r(1) have "cl_ooo s = cl_ooo (cl z)" "cl_chans s = cl_chans (cl z)" "\<forall>q m. pc \<noteq> CrSend q m"
      by (auto dest!: go_select_in split: if_splits)
    with m show ?thesis by (simp add: held_def r(2,3)) blast
  qed (use r(1) m in \<open>auto simp: held_def r(2,3)\<close>)
next
  case (CCall k)
  with st obtain s pc where r: "call_step (cx_pick c) (cx_ctx c) (cc z ! k) (cl z) = Some (s, pc)"
    "cl z' = s" "cr z' = cr z" by (auto split: if_splits)
  from call_step_held [OF r(1)] m show ?thesis by (simp add: held_def r(2,3)) blast
next
  case CDispatch
  with st m show ?thesis by (auto simp: held_def same_calls_def dest!: dispatch_step_calls)
qed (use st m in \<open>auto simp: held_def split: dispatch_pc.splits\<close>)

section \<open>The record of lines\<close>

lemma after_send_grows:
  "after_send (client_writeMessage ctx msg s) = (s', pc) \<Longrightarrow> \<exists>ws. cl_written s' = cl_written s @ ws"
  by (auto simp: after_send_def dest!: written_message split: prod.splits option.splits)

lemma call_step_grows:
  assumes "call_step pick ctx pc s = Some (s', pc')"
  shows "\<exists>ws. cl_written s' = cl_written s @ ws"
proof (cases pc)
  case (CcWrite call i)
  obtain e s1 where w: "client_writeMessage ctx (call_request call i) s = (e, s1)" by fastforce
  with CcWrite assms have "s' = s1" by (auto split: option.splits)
  with written_message [OF w] show ?thesis by auto
next
  case (CcRead call i)
  with assms show ?thesis by (auto simp: Let_def dest!: finish_call_written split: option.splits prod.splits)
next
  case (CcClean call i q r)
  with assms show ?thesis by (auto simp: close_chan_def dest!: finish_call_written split: prod.splits)
qed (use assms in \<open>auto simp: nextID_def Let_def close_chan_def dest!: go_select_in\<close>)

lemma client_step_grows:
  assumes "cactor_step h a c z = Some z'"
  shows "\<exists>ws. cl_written (cl z') = cl_written (cl z) @ ws"
proof (cases a)
  case CReader
  have "cl_written s' = cl_written s" if "client_reader_step pick input pc s = Some (s', pc')"
    for pick input pc pc' and s s' :: "'a client"
    using that by (cases pc) (auto simp: client_closePending_def dest!: go_select_in
      split: sum.splits if_splits option.splits)
  with CReader assms show ?thesis by auto
next
  case (CCall k)
  with assms call_step_grows show ?thesis by (auto split: if_splits)
next
  case CDispatch
  have "\<exists>ws. cl_written s' = cl_written s @ ws" if "dispatch_step h pick ctx pc s = Some (s', pc')"
    for pick ctx pc pc' and s s' :: "'a client"
  proof (cases pc)
    case DpWait
    with that show ?thesis by (auto dest!: go_select_in split: list.splits if_splits)
  next
    case (DpHandle raw)
    with that show ?thesis
      by (auto simp: SendError_def SendResponse_def dest: after_send_grows
          split: sum.splits wire_message.splits option.splits)
  qed (use that in simp)
  with CDispatch assms show ?thesis by auto
qed (use assms in \<open>auto split: dispatch_pc.splits\<close>)

section \<open>The request of a call\<close>

definition asked_inv :: "'t csys \<Rightarrow> bool" where
  "asked_inv z \<longleftrightarrow> (\<forall>pc \<in> set (cc z). \<forall>call i. asks pc = Some (call, i) \<longrightarrow>
     (\<exists>j e. call_request call i = Inr j \<and> (Inr j, e) \<in> set (cl_written (cl z))))"

lemma call_step_asks:
  assumes "call_step pick ctx pc s = Some (s', pc')" and "asks pc' = Some (call, i)"
  shows "asks pc = Some (call, i) \<or> (\<exists>j e. call_request call i = Inr j \<and> (Inr j, e) \<in> set (cl_written s'))"
proof (cases pc)
  case (CcWrite call' i')
  obtain e s1 where w: "client_writeMessage ctx (call_request call' i') s = (e, s1)" by fastforce
  with CcWrite assms have "s' = s1" "call' = call" "i' = i" "e = None" by (auto split: option.splits)
  with w show ?thesis by (auto simp: client_writeMessage_def client_write_def split: sum.splits prod.splits)
next
  case (CcRead call' i')
  with assms show ?thesis by (auto simp: Let_def split: option.splits prod.splits)
next
  case (CcClean call' i' q r)
  with assms show ?thesis by (auto split: prod.splits)
qed (use assms in \<open>auto simp: nextID_def Let_def dest!: go_select_in\<close>)

lemma asked_inv_step:
  assumes inv: "asked_inv z" and st: "cactor_step h a c z = Some z'"
  shows "asked_inv z'"
proof -
  from client_step_grows [OF st] obtain ws where w: "cl_written (cl z') = cl_written (cl z) @ ws" by blast
  have old: "\<exists>j e. call_request call i = Inr j \<and> (Inr j, e) \<in> set (cl_written (cl z'))"
    if "pc \<in> set (cc z)" "asks pc = Some (call, i)" for pc call i
  proof -
    from inv that obtain j e where "call_request call i = Inr j" "(Inr j, e) \<in> set (cl_written (cl z))"
      unfolding asked_inv_def by blast
    with w show ?thesis by auto
  qed
  have keep: ?thesis if s: "set (cc z') \<subseteq> insert (CcStart c0) (set (cc z))" for c0
  proof -
    have "pc \<in> set (cc z)" if "pc \<in> set (cc z')" "asks pc = Some ci" for pc ci
      using s that by auto
    with old show ?thesis unfolding asked_inv_def by blast
  qed
  show ?thesis
  proof (cases "\<exists>k. a = CCall k")
    case True
    then obtain k where a: "a = CCall k" ..
    with st obtain s pc where r: "call_step (cx_pick c) (cx_ctx c) (cc z ! k) (cl z) = Some (s, pc)"
      "cl z' = s" "cc z' = (cc z)[k := pc]" "k < length (cc z)" by (auto simp: a split: if_splits)
    have "\<exists>j e. call_request call i = Inr j \<and> (Inr j, e) \<in> set (cl_written (cl z'))"
      if pc': "pc' \<in> set (cc z')" "asks pc' = Some (call, i)" for pc' call i
    proof -
      from pc'(1) r(3) have "pc' = pc \<or> pc' \<in> set (cc z)" using set_update_subset_insert by fastforce
      then show ?thesis
      proof
        assume "pc' \<in> set (cc z)"
        from old [OF this pc'(2)] show ?thesis .
      next
        assume "pc' = pc"
        with call_step_asks [OF r(1), of call i] pc'(2) r(2) old [OF nth_mem [OF r(4)]] show ?thesis by auto
      qed
    qed
    then show ?thesis by (simp add: asked_inv_def)
  next
    case False
    with st have "set (cc z') \<subseteq> insert (CcStart (cx_call c)) (set (cc z))"
      by (cases a) (auto split: dispatch_pc.splits)
    then show ?thesis by (rule keep)
  qed
qed

lemma creachable_asked_inv: "creachable h z \<Longrightarrow> asked_inv z"
proof (induction rule: creachable.induct)
  case (cstart d t w)
  show ?case by (simp add: client_start_def asked_inv_def)
next
  case (cstep y a c y')
  then show ?case using asked_inv_step by blast
qed

end
