(* ===== verification/Net.thy ===== *)
theory Net
  imports Client_Sent
begin

text \<open>
  A client and a server at the two ends of a transport. The link is any transport that delivers lines in
  the order in which they were handed to \<open>WriteLine\<close>, each at most once: a read takes a line at or after
  the reader's position in the other side's record of lines, so that lines may also get lost, and a
  read may fail at any time. The in-memory channel pair and the pipes of a child process are such
  links. The steps of the two sides interleave freely. The invariant follows a message from the
  record of one side to where the other side holds it.
\<close>

section \<open>The link\<close>

record ('t, 'u) net =
  ns :: "'t sys"
  nc :: "'u csys"
  to_server :: nat         \<comment> \<open>how far the server has read the client's lines\<close>
  to_client :: nat

datatype net_actor = AtServer actor | AtClient cactor

definition link_read :: "nat \<Rightarrow> nat \<Rightarrow> (line \<times> go_error option) list \<Rightarrow> (line \<times> nat) option" where
  "link_read i pos ls = (if pos \<le> i \<and> i < length ls then Some (fst (ls ! i), Suc i) else None)"

text \<open>\<open>i\<close> is the line that a read takes; the input in the choice only says whether the read fails.\<close>

fun net_step :: "env \<Rightarrow> handler \<Rightarrow> net_actor \<Rightarrow> 't choice \<Rightarrow> 'u cchoice \<Rightarrow> nat \<Rightarrow> ('t, 'u) net \<Rightarrow> ('t, 'u) net option" where
  "net_step env h (AtServer a) c d i n =
     (if a = Reader \<and> rd (ns n) = RRead \<and> \<not> isl (ch_input c) then
        (case link_read i (to_server n) (cl_written (cl (nc n))) of
           None \<Rightarrow> None
         | Some (l, p) \<Rightarrow> map_option (\<lambda>y. n\<lparr>ns := y, to_server := p\<rparr>) (sys_step env a (c\<lparr>ch_input := Inr l\<rparr>) (ns n)))
      else map_option (\<lambda>y. n\<lparr>ns := y\<rparr>) (sys_step env a c (ns n)))"
| "net_step env h (AtClient a) c d i n =
     (if a = CReader \<and> cr (nc n) = CrRead \<and> \<not> isl (cx_input d) then
        (case link_read i (to_client n) (written (srv (ns n))) of
           None \<Rightarrow> None
         | Some (l, p) \<Rightarrow> map_option (\<lambda>z. n\<lparr>nc := z, to_client := p\<rparr>) (cactor_step h a (d\<lparr>cx_input := Inr l\<rparr>) (nc n)))
      else map_option (\<lambda>z. n\<lparr>nc := z\<rparr>) (cactor_step h a d (nc n)))"

definition net_start :: "'t sys \<Rightarrow> 'u csys \<Rightarrow> ('t, 'u) net" where
  "net_start y z = \<lparr>ns = y, nc = z, to_server = 0, to_client = 0\<rparr>"

inductive net_reachable :: "env \<Rightarrow> handler \<Rightarrow> ('t, 'u) net \<Rightarrow> bool" for env h where
  nstart: "Serve parent (New t w opts) = Inr y \<Longrightarrow>
    net_reachable env h (net_start y (client_start (WithDefaultTimeout dt (NewClient t' w'))))"
| nstep: "net_reachable env h n \<Longrightarrow> net_step env h a c d i n = Some n' \<Longrightarrow> net_reachable env h n'"

text \<open>A step of the whole is a step of one side, with its reads tied to the other side's record.\<close>

lemma net_step_server:
  assumes "net_step env h (AtServer a) c d i n = Some n'"
  shows "\<exists>c'. sys_step env a c' (ns n) = Some (ns n') \<and> nc n' = nc n \<and> to_client n' = to_client n \<and>
    (read_ids a c' (ns n) = {#} \<and> to_server n' = to_server n \<or>
     to_server n \<le> i \<and> i < length (cl_written (cl (nc n))) \<and> to_server n' = Suc i \<and>
       read_ids a c' (ns n) = line_ids (fst (cl_written (cl (nc n)) ! i)))"
proof (cases "a = Reader \<and> rd (ns n) = RRead \<and> \<not> isl (ch_input c)")
  case True
  with assms obtain y where "to_server n \<le> i" "i < length (cl_written (cl (nc n)))"
    "sys_step env a (c\<lparr>ch_input := Inr (fst (cl_written (cl (nc n)) ! i))\<rparr>) (ns n) = Some y"
    "n' = n\<lparr>ns := y, to_server := Suc i\<rparr>"
    by (auto simp: link_read_def split: if_splits)
  with True show ?thesis
    by (intro exI [of _ "c\<lparr>ch_input := Inr (fst (cl_written (cl (nc n)) ! i))\<rparr>"]) (simp add: read_ids_def)
next
  case False
  with assms have "sys_step env a c (ns n) = Some (ns n')" "nc n' = nc n" "to_client n' = to_client n"
    "to_server n' = to_server n" by (auto split: if_splits)
  moreover have "read_ids a c (ns n) = {#}" using False by (auto simp: read_ids_def split: sum.split)
  ultimately show ?thesis by blast
qed

lemma net_step_client:
  assumes "net_step env h (AtClient a) c d i n = Some n'"
  shows "\<exists>d'. cactor_step h a d' (nc n) = Some (nc n') \<and> ns n' = ns n \<and> to_server n' = to_server n \<and>
    (\<forall>m. read_response a d' (nc n) m \<longrightarrow> (\<exists>w \<in> set (written (srv (ns n))). parse_line (fst w) = Inr m \<and> rw_method m = []))"
proof (cases "a = CReader \<and> cr (nc n) = CrRead \<and> \<not> isl (cx_input d)")
  case True
  with assms obtain z where z: "i < length (written (srv (ns n)))"
    "cactor_step h a (d\<lparr>cx_input := Inr (fst (written (srv (ns n)) ! i))\<rparr>) (nc n) = Some z"
    "n' = n\<lparr>nc := z, to_client := Suc i\<rparr>"
    by (auto simp: link_read_def split: if_splits)
  with nth_mem [OF z(1)] show ?thesis
    by (intro exI [of _ "d\<lparr>cx_input := Inr (fst (written (srv (ns n)) ! i))\<rparr>"]) (auto simp: read_response_def)
next
  case False
  with assms have "cactor_step h a d (nc n) = Some (nc n')" "ns n' = ns n" "to_server n' = to_server n"
    by (auto split: if_splits)
  moreover have "\<not> read_response a d (nc n) m" for m using False by (auto simp: read_response_def)
  ultimately show ?thesis by blast
qed

declare net_step.simps [simp del]

lemma net_sides: "net_reachable env h n \<Longrightarrow> reachable env (ns n) \<and> creachable h (nc n)"
proof (induction rule: net_reachable.induct)
  case (nstart parent t w opts y dt t' w')
  then show ?case by (auto simp: net_start_def intro: reachable.start creachable.cstart)
next
  case (nstep n a c d i n')
  then show ?case
    by (cases a) (auto dest!: net_step_server net_step_client intro: reachable.step creachable.cstep)
qed

section \<open>The invariant\<close>

definition first_ids :: "nat \<Rightarrow> 'u client \<Rightarrow> string multiset" where
  "first_ids p s = sum_list (map (\<lambda>w. line_ids (fst w)) (take p (cl_written s)))"

definition link_inv :: "('t, 'u) net \<Rightarrow> bool" where
  "link_inv n \<longleftrightarrow> to_server n \<le> length (cl_written (cl (nc n))) \<and>
     (crashed (ns n) = None \<longrightarrow> intake (ns n) \<subseteq># first_ids (to_server n) (cl (nc n))) \<and>
     (\<forall>m \<in> held (nc n). \<exists>w \<in> set (written (srv (ns n))). parse_line (fst w) = Inr m \<and> rw_method m = [])"

lemma sum_list_take_mono:
  fixes f :: "'a \<Rightarrow> 'b multiset"
  assumes "p \<le> q"
  shows "sum_list (map f (take p xs)) \<subseteq># sum_list (map f (take q xs))"
proof -
  have "take q xs = take p xs @ take (q - p) (drop p xs)" using assms by (metis le_add_diff_inverse take_add)
  then show ?thesis by simp
qed

lemma first_ids_read:
  assumes "p \<le> i" and "i < length (cl_written s)"
  shows "first_ids p s + line_ids (fst (cl_written s ! i)) \<subseteq># first_ids (Suc i) s"
proof -
  have "first_ids (Suc i) s = first_ids i s + line_ids (fst (cl_written s ! i))"
    using assms(2) by (simp add: first_ids_def take_Suc_conv_app_nth)
  with sum_list_take_mono [OF assms(1)] show ?thesis by (simp add: first_ids_def)
qed

lemma link_inv_server:
  assumes inv: "link_inv n" and st: "net_step env h (AtServer a) c d i n = Some n'"
  shows "link_inv n'"
proof -
  from net_step_server [OF st] obtain c' where
    s: "sys_step env a c' (ns n) = Some (ns n')" "nc n' = nc n" and
    r: "read_ids a c' (ns n) = {#} \<and> to_server n' = to_server n \<or>
     to_server n \<le> i \<and> i < length (cl_written (cl (nc n))) \<and> to_server n' = Suc i \<and>
       read_ids a c' (ns n) = line_ids (fst (cl_written (cl (nc n)) ! i))" by blast
  have live: "crashed (ns n) = None" using s(1) by (auto simp: sys_step_def split: if_splits)
  have "intake (ns n') \<subseteq># first_ids (to_server n') (cl (nc n'))" if "crashed (ns n') = None"
  proof -
    have "intake (ns n') \<subseteq># intake (ns n) + read_ids a c' (ns n)" using sys_step_intake [OF s(1) that] .
    also have "\<dots> \<subseteq># first_ids (to_server n) (cl (nc n)) + read_ids a c' (ns n)"
      using inv live by (simp add: link_inv_def)
    also have "\<dots> \<subseteq># first_ids (to_server n') (cl (nc n))"
      using r first_ids_read by fastforce
    finally show ?thesis using s(2) by simp
  qed
  moreover have "to_server n' \<le> length (cl_written (cl (nc n')))" using inv r s(2) by (auto simp: link_inv_def)
  moreover from sys_step_sent [OF s(1)] have "set (written (srv (ns n))) \<subseteq> set (written (srv (ns n')))"
    by (auto simp: sent_since_def)
  ultimately show ?thesis using inv s(2) unfolding link_inv_def by fastforce
qed

lemma link_inv_client:
  assumes inv: "link_inv n" and st: "net_step env h (AtClient a) c d i n = Some n'"
  shows "link_inv n'"
proof -
  from net_step_client [OF st] obtain d' where
    s: "cactor_step h a d' (nc n) = Some (nc n')" "ns n' = ns n" "to_server n' = to_server n" and
    r: "\<And>m. read_response a d' (nc n) m \<Longrightarrow>
      \<exists>w \<in> set (written (srv (ns n))). parse_line (fst w) = Inr m \<and> rw_method m = []" by blast
  from client_step_grows [OF s(1)] obtain ws where w: "cl_written (cl (nc n')) = cl_written (cl (nc n)) @ ws" by blast
  from inv have p: "to_server n \<le> length (cl_written (cl (nc n)))" by (simp add: link_inv_def)
  then have "first_ids (to_server n) (cl (nc n')) = first_ids (to_server n) (cl (nc n))"
    by (simp add: first_ids_def w)
  moreover have "\<exists>w \<in> set (written (srv (ns n))). parse_line (fst w) = Inr m \<and> rw_method m = []"
    if "m \<in> held (nc n')" for m
    using held_step [OF s(1) that] r inv by (auto simp: link_inv_def)
  ultimately show ?thesis using inv s p w by (simp add: link_inv_def)
qed

lemma net_link_inv: "net_reachable env h n \<Longrightarrow> link_inv n"
proof (induction rule: net_reachable.induct)
  case (nstart parent t w opts y dt t' w')
  from start_intake [OF this] show ?case
    by (simp add: link_inv_def net_start_def client_start_def held_def NewClient_def WithDefaultTimeout_def)
next
  case (nstep n a c d i n')
  then show ?case by (cases a) (auto intro: link_inv_server link_inv_client)
qed

end
