(* ===== verification/Client_Answers.thy ===== *)
theory Client_Answers
  imports Client_Sent
begin

text \<open>
  The answers that a client's \<open>Dispatch\<close> writes, for the composition with a server. Each line that the
  client writes and that reads as a response is the answer of the handler to a message that
  \<open>Dispatch\<close> took; and each message it took was read by the reader.
\<close>

section \<open>Answers\<close>

text \<open>The line with which \<open>Dispatch\<close> answers a message, if it does.\<close>

definition answer_line :: "handler \<Rightarrow> raw_wire_message \<Rightarrow> json option" where
  "answer_line h raw = (case ParseWireMessage raw of
     Inr (RequestMessage v mth i req) \<Rightarrow> (case HandleRequest h req of
         Inl err \<Rightarrow> Some (rpc_error i \<lparr>je_code = -32603,
           je_message = RedactString (RedactString (error_text err)), je_data = None\<rparr>)
       | Inr (Inr j) \<Rightarrow> Some (rpc_success i j)
       | Inr (Inl err) \<Rightarrow> None)
   | _ \<Rightarrow> None)"

definition is_response :: "line \<Rightarrow> bool" where
  "is_response l = (case parse_line l of Inl e \<Rightarrow> False | Inr m \<Rightarrow> rw_id m \<noteq> [] \<and> rw_method m = [])"

definition answers_of :: "handler \<Rightarrow> raw_wire_message list \<Rightarrow> line list \<Rightarrow> bool" where
  "answers_of h raws ls \<longleftrightarrow> (\<forall>l \<in> set ls. is_response l \<longrightarrow>
     (\<exists>raw \<in> set raws. map_option Inr (answer_line h raw) = Some l))"

definition answered_inv :: "handler \<Rightarrow> 't csys \<Rightarrow> bool" where
  "answered_inv h z \<longleftrightarrow> set (taken_by (cd z)) \<subseteq> set (handled z) \<and>
     answers_of h (handled z) (map fst (cl_written (cl z)))"

lemma answers_of_more: "answers_of h raws ls \<Longrightarrow> set raws \<subseteq> set raws' \<Longrightarrow> answers_of h raws' ls"
  unfolding answers_of_def by blast

lemma answers_of_append: "answers_of h raws (ls @ ms) \<longleftrightarrow> answers_of h raws ls \<and> answers_of h raws ms"
  by (auto simp: answers_of_def)

lemma answers_of_none: "\<forall>l \<in> set ls. \<not> is_response l \<Longrightarrow> answers_of h raws ls"
  by (simp add: answers_of_def)

lemma call_request_method: "call_request call i = Inr j \<Longrightarrow> \<not> is_response (Inr j)"
  by (cases call) (auto simp: call_request_def is_response_def parse_rpc map_res_eq_Inr)

lemma call_step_answers:
  assumes "call_step pick ctx pc s = Some (s', pc')"
  shows "\<exists>ws. cl_written s' = cl_written s @ ws \<and> (\<forall>l \<in> set (map fst ws). \<not> is_response l)"
proof (cases pc)
  case (CcWrite call i)
  obtain e s1 where w: "client_writeMessage ctx (call_request call i) s = (e, s1)" by fastforce
  with CcWrite assms have "s' = s1" by (auto split: option.splits)
  with written_message [OF w] call_request_method show ?thesis by fastforce
next
  case (CcRead call i)
  with assms show ?thesis by (auto simp: Let_def dest!: finish_call_written split: option.splits prod.splits)
next
  case (CcClean call i q r)
  with assms show ?thesis by (auto simp: close_chan_def dest!: finish_call_written split: prod.splits)
qed (use assms in \<open>auto simp: nextID_def Let_def close_chan_def dest!: go_select_in\<close>)

lemma dispatch_step_answers:
  assumes "dispatch_step h pick ctx pc s = Some (s', pc')"
  shows "cl_written s' = cl_written s \<or> (\<exists>raw j e. pc = DpHandle raw \<and> answer_line h raw = Some j \<and>
    cl_written s' = cl_written s @ [(Inr j, e)])"
proof (cases pc)
  case DpWait
  with assms show ?thesis by (auto dest!: go_select_in split: list.splits if_splits)
next
  case (DpHandle raw)
  with assms show ?thesis
    by (auto simp: after_send_def SendError_def SendResponse_def client_writeMessage_def client_write_def answer_line_def
        split: sum.splits wire_message.splits option.splits prod.splits)
qed (use assms in simp)

lemma reader_step_answers:
  "client_reader_step pick input pc s = Some (s', pc') \<Longrightarrow> cl_written s' = cl_written s"
  by (cases pc) (auto simp: client_closePending_def dest!: go_select_in split: sum.splits if_splits option.splits)

lemma answered_inv_step:
  assumes inv: "answered_inv h z" and st: "cactor_step h a c z = Some z'"
  shows "answered_inv h z'"
proof (cases a)
  case CReader
  with st inv show ?thesis by (auto simp: answered_inv_def dest!: reader_step_answers)
next
  case (CCall k)
  with st obtain s pc where r: "call_step (cx_pick c) (cx_ctx c) (cc z ! k) (cl z) = Some (s, pc)"
    "z' = z\<lparr>cl := s, cc := (cc z)[k := pc]\<rparr>" by (auto split: if_splits)
  from call_step_answers [OF r(1)] inv answers_of_none show ?thesis
    by (fastforce simp: answered_inv_def answers_of_append r(2))
next
  case CDispatch
  with st obtain s pc where d: "dispatch_step h (cx_pick c) (cx_ctx c) (cd z) (cl z) = Some (s, pc)"
    "z' = z\<lparr>cl := s, cd := pc, handled := handled z @ taken_by pc\<rparr>" by auto
  from dispatch_step_answers [OF d(1)] show ?thesis
  proof
    assume "cl_written s = cl_written (cl z)"
    with inv show ?thesis by (auto simp: answered_inv_def d(2) intro: answers_of_more)
  next
    assume "\<exists>raw j e. cd z = DpHandle raw \<and> answer_line h raw = Some j \<and> cl_written s = cl_written (cl z) @ [(Inr j, e)]"
    then obtain raw j e where w: "cd z = DpHandle raw" "answer_line h raw = Some j" "cl_written s = cl_written (cl z) @ [(Inr j, e)]"
      by blast
    with inv have "answers_of h (handled z) [Inr j]" by (auto simp: answered_inv_def answers_of_def taken_by_def)
    with inv w(3) show ?thesis by (auto simp: answered_inv_def d(2) answers_of_append intro: answers_of_more)
  qed
qed (use st inv in \<open>auto simp: answered_inv_def taken_by_def split: dispatch_pc.splits\<close>)

lemma creachable_answered_inv: "creachable h z \<Longrightarrow> answered_inv h z"
proof (induction rule: creachable.induct)
  case (cstart d t w)
  show ?case
    by (simp add: client_start_def answered_inv_def answers_of_def NewClient_def WithDefaultTimeout_def taken_by_def)
qed (rule answered_inv_step)

section \<open>Events and requests read\<close>

definition incoming :: "'t csys \<Rightarrow> raw_wire_message set" where
  "incoming z = set (handled z) \<union> set (cl_dispatch (cl z)) \<union> set (in_hand (cr z))"

definition read_call :: "cactor \<Rightarrow> 't cchoice \<Rightarrow> 't csys \<Rightarrow> raw_wire_message \<Rightarrow> bool" where
  "read_call a c z m \<longleftrightarrow> a = CReader \<and> cr z = CrRead \<and> (\<exists>l. cx_input c = Inr l \<and> parse_line l = Inr m)"

lemma call_step_queue: "call_step pick ctx pc s = Some (s', pc') \<Longrightarrow> cl_dispatch s' = cl_dispatch s"
  by (drule same_queue_call) (simp add: same_queue_def)

lemma incoming_step:
  assumes st: "cactor_step h a c z = Some z'" and m: "m \<in> incoming z'"
  shows "m \<in> incoming z \<or> read_call a c z m"
proof (cases a)
  case CReader
  with st obtain s pc where r: "client_reader_step (cx_pick c) (cx_input c) (cr z) (cl z) = Some (s, pc)"
    "cl z' = s" "cr z' = pc" "handled z' = handled z" by auto
  show ?thesis
  proof (cases "cr z")
    case CrRead
    with r(1) m CReader show ?thesis
      by (auto simp: incoming_def read_call_def in_hand_def r(2-4) split: sum.splits if_splits option.splits)
  qed (use r(1) m in \<open>auto simp: incoming_def in_hand_def r(2-4) client_closePending_def
      dest!: go_select_in split: if_splits\<close>)
next
  case (CCall k)
  with st m show ?thesis by (auto simp: incoming_def dest!: call_step_queue split: if_splits)
next
  case CDispatch
  with st obtain s pc where d: "dispatch_step h (cx_pick c) (cx_ctx c) (cd z) (cl z) = Some (s, pc)"
    "z' = z\<lparr>cl := s, cd := pc, handled := handled z @ taken_by pc\<rparr>" by auto
  show ?thesis
  proof (cases "cd z")
    case DpWait
    with d m show ?thesis
      by (auto simp: incoming_def taken_by_def dest!: go_select_in split: list.splits if_splits)
  next
    case (DpHandle raw)
    with d(1) have "cl_dispatch s = cl_dispatch (cl z) \<and> (\<forall>raw. pc \<noteq> DpHandle raw)"
      by (auto simp: SendError_def SendResponse_def dest: after_send_queue
          split: sum.splits wire_message.splits option.splits)
    with m d(2) show ?thesis by (auto simp: incoming_def taken_by_def split: dispatch_pc.splits)
  qed (use d in simp)
qed (use st m in \<open>auto simp: incoming_def split: dispatch_pc.splits\<close>)

end
