(* ===== verification/Server_Refs.thy ===== *)
theory Server_Refs
  imports Server_Shutdown
begin

text \<open>
  The references of the running server. A pointer of the code is an index here, so that what Go's types
  and allocation give (no pointer is dangling) is an invariant of the model: every turn, replay and
  response channel that a field or a goroutine refers to exists. All accesses \<open>turns s ! k\<close>,
  \<open>replays s ! k\<close>, \<open>chans s ! q\<close> and \<open>tg y ! k\<close> of the steps are within bounds.
\<close>

section \<open>References\<close>

fun loop_turn :: "loop_pc \<Rightarrow> nat option" where
  "loop_turn (LBegin i input k) = Some k"
| "loop_turn (LSteer i input k) = Some k"
| "loop_turn (LSteerCall i input k) = Some k"
| "loop_turn (LCancelMark i op t) = t"
| "loop_turn pc = None"

fun joined :: "loop_pc \<Rightarrow> nat option" where
  "joined (LJoin k) = Some k"
| "joined pc = None"

fun serve_op :: "serve_pc \<Rightarrow> op_ref option" where
  "serve_op (SvFire op e) = Some op"
| "serve_op (SvWait op e) = Some op"
| "serve_op pc = None"

fun routed :: "reader_pc \<Rightarrow> nat option" where
  "routed (RRoute q raw) = Some q"
| "routed pc = None"

definition within :: "nat option \<Rightarrow> nat \<Rightarrow> bool" where
  "within x n = pred_option (\<lambda>k. k < n) x"

definition waits_within :: "(string \<times> turn_pc) list \<Rightarrow> nat \<Rightarrow> bool" where
  "waits_within ts n \<longleftrightarrow> (\<forall>t \<in> set ts. within (map_option snd (waits (snd t))) n)"

definition refs_inv :: "'t sys \<Rightarrow> bool" where
  "refs_inv y \<longleftrightarrow> within (activeTurn (srv y)) (length (turns (srv y))) \<and>
     within (loop_turn (lp y)) (length (turns (srv y))) \<and>
     pred_option (valid_op (srv y)) (serve_op (sv y)) \<and>
     (\<forall>p \<in> set (pending (srv y)). snd p < length (chans (srv y))) \<and>
     within (routed (rd y)) (length (chans (srv y))) \<and> waits_within (tg y) (length (chans (srv y)))"

lemma within_simps [simp]: "within None n" "within (Some k) n \<longleftrightarrow> k < n"
  by (simp_all add: within_def)

lemma within_mono: "within x m \<Longrightarrow> m \<le> n \<Longrightarrow> within x n"
  by (cases x) auto

lemma waits_within_mono: "waits_within ts m \<Longrightarrow> m \<le> n \<Longrightarrow> waits_within ts n"
  unfolding waits_within_def using within_mono by blast

lemma waits_within_update:
  "waits_within ts n \<Longrightarrow> within (map_option snd (waits pc)) n \<Longrightarrow> waits_within (ts[k := (i, pc)]) n"
  unfolding waits_within_def using set_update_subset_insert [of ts k "(i, pc)"] by fastforce

text \<open>\<open>refs_kept s s'\<close>: what existed exists, and no new reference was stored.\<close>

definition refs_kept :: "'t server \<Rightarrow> 't server \<Rightarrow> bool" where
  "refs_kept s s' \<longleftrightarrow> length (turns s) \<le> length (turns s') \<and> length (replays s) \<le> length (replays s') \<and>
     length (chans s) \<le> length (chans s') \<and> (activeTurn s' = activeTurn s \<or> activeTurn s' = None) \<and>
     set (pending s') \<subseteq> set (pending s)"

interpretation refs: server_view refs_kept
  by unfold_locales (auto simp: refs_kept_def quiet_fields)

lemma refs_kept_update [simp]:
  "refs_kept s (s'\<lparr>dispatchCh := f\<rparr>) = refs_kept s s'" "refs_kept s (s'\<lparr>serveCtx := g\<rparr>) = refs_kept s s'"
  "refs_kept s (s'\<lparr>serving := h\<rparr>) = refs_kept s s'" "refs_kept s (s'\<lparr>requestCounter := n\<rparr>) = refs_kept s s'"
  "refs_kept s (s'\<lparr>transport := t\<rparr>) = refs_kept s s'" "refs_kept s (s'\<lparr>activeOp := b\<rparr>) = refs_kept s s'"
  "refs_kept (s\<lparr>dispatchCh := f\<rparr>) s' = refs_kept s s'"
  by (simp_all add: refs_kept_def)

lemma refs_kept_ops [simp]:
  "refs_kept s (upd_turn k f s)" "refs_kept s (cancel_op op s)" "refs_kept s (turn_close k s)"
  "refs_kept s (clear_active k s)" "refs_kept s (unregister i c s)" "refs_kept s (closePending e s)"
  "refs_kept s (s\<lparr>activeTurn := None, activeOp := b\<rparr>)" "refs_kept s (s\<lparr>activeTurn := None\<rparr>)"
  "refs_kept s (s\<lparr>replays := (replays s)[k := r]\<rparr>)"
proof -
  show u: "refs_kept s (upd_turn k f s)" for k f by (simp add: upd_turn_def refs_kept_def)
  show "refs_kept s (cancel_op op s)" by (cases op) (simp_all add: cancel_turn_def u, simp add: refs_kept_def)
  show "refs_kept s (turn_close k s)" by (simp add: turn_close_def u)
  show "refs_kept s (clear_active k s)" by (simp add: clear_active_def refs_kept_def)
  show "refs_kept s (unregister i c s)"
    using set_delete_subset [of i "pending s"] by (simp add: unregister_def refs_kept_def)
  show "refs_kept s (closePending e s)" by (simp add: refs_kept_def) (simp add: closePending_def)
qed (simp_all add: refs_kept_def)

lemma refs_inv_kept:
  assumes "refs_inv y" and "refs_kept (srv y) s"
  shows "refs_inv (y\<lparr>srv := s\<rparr>)"
proof -
  have "valid_op s op" if "valid_op (srv y) op" for op using that assms(2) by (cases op) (auto simp: refs_kept_def)
  then have "pred_option (valid_op s) (serve_op (sv y))" using assms(1)
    by (cases "serve_op (sv y)") (auto simp: refs_inv_def)
  then show ?thesis
    using assms waits_within_mono within_mono by (fastforce simp: refs_inv_def refs_kept_def)
qed

lemma refs_inv_fields [simp]:
  "refs_inv (y\<lparr>rg := a\<rparr>) = refs_inv y" "refs_inv (y\<lparr>taken := b\<rparr>) = refs_inv y"
  "refs_inv (y\<lparr>frames := c\<rparr>) = refs_inv y" "refs_inv (y\<lparr>crashed := d\<rparr>) = refs_inv y"
  by (simp_all add: refs_inv_def)

section \<open>Turns\<close>

lemma set_alist_update: "set (AList.update k v xs) \<subseteq> insert (k, v) (set xs)"
  by (induction xs) auto

lemma register_refs:
  assumes "register s = (i, q, s')"
  shows "q = length (chans s) \<and> chans s' = chans s @ [None] \<and> turns s' = turns s \<and> replays s' = replays s \<and>
    activeTurn s' = activeTurn s \<and> set (pending s') \<subseteq> insert (i, q) (set (pending s))"
  using assms set_alist_update [of i q "pending s"] by (auto simp: register_def nextRequestID_def Let_def)

lemma turn_step_refs:
  assumes "turn_step c k i pc s = Some (s', pc')"
  shows "refs_kept s s' \<and> (waits pc' = waits pc \<or> waits pc' = None) \<or>
    (\<exists>j q. register s = (j, q, s') \<and> waits pc' = Some (j, q))"
proof (cases pc)
  case (TRun p)
  have "refs_kept s s' \<and> waits pc' = None \<or> (\<exists>j q. register s = (j, q, s') \<and> waits pc' = Some (j, q))"
    if "run_step c k p s = Some (s', pc')"
    using that by (cases p) (auto simp: steer_input_def dest: refs.emit dest!: go_select_in
        split: prod.splits sum.splits list.splits)
  with assms TRun show ?thesis by auto
next
  case (TWrite call req j q f)
  obtain e s1 where w: "write_request (ch_ctx c) j req s = (e, s1)" by fastforce
  from refs.trans [OF refs.write_req [OF w] refs_kept_ops(5)] refs.write_req [OF w] w assms TWrite show ?thesis
    by (auto split: option.splits)
next
  case (TEndEmit r err)
  with assms show ?thesis by (auto dest: refs.emit refs.emit_log split: prod.splits option.splits)
qed (use assms in \<open>auto simp: await_def\<close>)

lemma refs_inv_turn:
  assumes inv: "refs_inv y" and k: "k < length (tg y)" "tg y ! k = (i, pc)"
    and st: "turn_step c k i pc (srv y) = Some (s, pc')"
  shows "refs_inv (y\<lparr>srv := s, tg := (tg y)[k := (i, pc')], frames := fr\<rparr>)"
proof -
  have w: "within (map_option snd (waits pc)) (length (chans (srv y)))"
    using inv nth_mem [OF k(1)] k(2) by (fastforce simp: refs_inv_def waits_within_def)
  from turn_step_refs [OF st] show ?thesis
  proof
    assume a: "refs_kept (srv y) s \<and> (waits pc' = waits pc \<or> waits pc' = None)"
    with w within_mono have "within (map_option snd (waits pc')) (length (chans s))"
      by (fastforce simp: refs_kept_def)
    with refs_inv_kept [OF inv] a waits_within_update show ?thesis by (auto simp: refs_inv_def)
  next
    assume "\<exists>j q. register (srv y) = (j, q, s) \<and> waits pc' = Some (j, q)"
    then obtain j q where r: "register (srv y) = (j, q, s)" "waits pc' = Some (j, q)" by blast
    note f = register_refs [OF r(1)]
    have "valid_op s op = valid_op (srv y) op" for op using f by (cases op) simp_all
    then have "pred_option (valid_op s) (serve_op (sv y))" using inv
      by (cases "serve_op (sv y)") (auto simp: refs_inv_def)
    moreover have "waits_within ((tg y)[k := (i, pc')]) (length (chans s))"
      using inv f r(2) waits_within_mono [of "tg y" "length (chans (srv y))"]
      by (intro waits_within_update) (auto simp: refs_inv_def)
    moreover have "within (routed (rd y)) (length (chans s))"
      using inv f within_mono [of _ "length (chans (srv y))" "length (chans s)"] by (simp add: refs_inv_def)
    ultimately show ?thesis using inv f by (fastforce simp: refs_inv_def)
  qed
qed

section \<open>The loops\<close>

lemma dispatch_refs:
  assumes "dispatch env c raw s = Inr (s', pc)" and "within (activeTurn s) (length (turns s))"
  shows "within (loop_turn pc) (length (turns s')) \<and> (refs_kept s s' \<or>
    s' = s\<lparr>turns := turns s @ [newTurn], activeTurn := Some (length (turns s)), activeOp := Some (TurnOp (length (turns s)))\<rparr>)"
  using assms
  by (auto simp: dispatch_def Let_def handlePrompt_def handleSteer_def handleCancel_def handleReplay_def
      dest: refs.set_plan split: if_splits sum.splits option.splits) (simp add: refs_kept_def)

lemma refs_inv_loop_pc:
  "refs_inv y \<Longrightarrow> loop_turn pc = loop_turn (lp y) \<or> loop_turn pc = None \<Longrightarrow> refs_inv (y\<lparr>lp := pc\<rparr>)"
  by (auto simp: refs_inv_def)

lemma refs_inv_move:
  assumes "refs_inv y" and "refs_kept (srv y) s" and "loop_turn pc = loop_turn (lp y) \<or> loop_turn pc = None"
  shows "refs_inv (y\<lparr>srv := s, lp := pc\<rparr>)"
  using refs_inv_loop_pc [OF refs_inv_kept [OF assms(1,2)], of pc] assms(3) by simp

lemma refs_inv_take:
  assumes inv: "refs_inv y"
  shows "refs_inv (take_request env c raw rest y)"
proof (cases "dispatch env c raw ((srv y)\<lparr>dispatchCh := rest\<rparr>)")
  case (Inr sp)
  obtain s pc where sp: "sp = (s, pc)" by (cases sp)
  have "within (activeTurn ((srv y)\<lparr>dispatchCh := rest\<rparr>)) (length (turns ((srv y)\<lparr>dispatchCh := rest\<rparr>)))"
    using inv by (simp add: refs_inv_def)
  from dispatch_refs [OF Inr [unfolded sp] this] have
    l: "within (loop_turn pc) (length (turns s))" and
    k: "refs_kept (srv y) s \<or> s = (srv y)\<lparr>dispatchCh := rest, turns := turns (srv y) @ [newTurn],
      activeTurn := Some (length (turns (srv y))), activeOp := Some (TurnOp (length (turns (srv y))))\<rparr>"
    by auto
  from k have "refs_inv (y\<lparr>srv := s\<rparr>)"
  proof
    assume "refs_kept (srv y) s"
    with inv show ?thesis by (rule refs_inv_kept)
  next
    assume s: "s = (srv y)\<lparr>dispatchCh := rest, turns := turns (srv y) @ [newTurn],
      activeTurn := Some (length (turns (srv y))), activeOp := Some (TurnOp (length (turns (srv y))))\<rparr>"
    have "valid_op s op" if "valid_op (srv y) op" for op using that by (cases op) (auto simp: s)
    then have "pred_option (valid_op s) (serve_op (sv y))" using inv
      by (cases "serve_op (sv y)") (auto simp: refs_inv_def)
    with inv within_mono [of "loop_turn (lp y)" "length (turns (srv y))"] show ?thesis by (simp add: refs_inv_def s)
  qed
  with l show ?thesis by (simp add: take_request_def Inr sp refs_inv_def)
qed (use inv in \<open>simp add: take_request_def Let_def\<close>)

lemma refs_inv_loop:
  assumes inv: "refs_inv y" and st: "loop_step env c (lp y) y = Some y'"
  shows "refs_inv y'"
proof (cases "lp y")
  case LIdle
  with st refs_inv_take [OF inv] refs_inv_loop_pc [OF inv, of LDone] show ?thesis
    by (auto dest!: go_select_in split: list.splits if_splits)
next
  case (LBegin i input k)
  obtain e s where e: "emitEvent (serveCtx (srv y)) (Some (TurnBeginEvent \<lparr>tb_user_input = input\<rparr>)) (srv y) = (e, s)"
    by fastforce
  have "\<exists>pc tp. y' = y\<lparr>srv := s, lp := pc, tg := tg y @ [(i, tp)], frames := frames y @ [(k, True)]\<rparr> \<and>
      loop_turn pc = None \<and> waits tp = None"
    using st LBegin e by (cases e) (auto intro!: exI [of _ LIdle] exI [of _ "LJoin k"] exI)
  with refs_inv_move [OF inv refs.emit [OF e]] show ?thesis
    by (fastforce simp: refs_inv_def waits_within_def)
next
  case (LSteer i input k)
  with st have "\<exists>s pc. y' = y\<lparr>srv := s, lp := pc\<rparr> \<and> refs_kept (srv y) s \<and>
      (loop_turn pc = loop_turn (lp y) \<or> loop_turn pc = None)"
    by (fastforce dest!: go_select_in split: if_splits)
  with refs_inv_move [OF inv] show ?thesis by blast
next
  case (LSteerCall i input k)
  with st have "(\<exists>s. y' = y\<lparr>srv := s, lp := LIdle\<rparr> \<and> refs_kept (srv y) s) \<or> (\<exists>p. y' = y\<lparr>crashed := p\<rparr>)"
    by (fastforce split: sum.splits option.splits)
  with refs_inv_move [OF inv, of _ LIdle] inv show ?thesis by auto
next
  case (LCancelMark i op t)
  have "refs_kept (srv y) (case t of Some k \<Rightarrow> upd_turn k (\<lambda>t. t\<lparr>tn_cancelled := True\<rparr>) (srv y) | None \<Rightarrow> srv y)"
    by (simp split: option.split)
  from refs_inv_move [OF inv this, of "LCancelFire i op"] st LCancelMark show ?thesis by simp
next
  case (LCancelFire i op)
  with st refs_inv_move [OF inv refs_kept_ops(2), of "LCancelWait i op"] show ?thesis by auto
next
  case (LCancelWait i op)
  with st have "\<exists>s. y' = y\<lparr>srv := s, lp := LIdle\<rparr> \<and> refs_kept (srv y) s"
    by (fastforce dest!: go_select_in split: if_splits)
  with refs_inv_move [OF inv, of _ LIdle] show ?thesis by auto
next
  case (LJoin k)
  with st refs_inv_loop_pc [OF inv, of LIdle] show ?thesis by (auto split: if_splits)
next
  case (LReplay i k)
  with st have "\<exists>r. y' = y\<lparr>rg := r, lp := LIdle\<rparr>" by (cases "srv y") auto
  with inv show ?thesis by (elim exE) (simp add: refs_inv_def)
qed (use st in simp)

lemma refs_inv_serve:
  assumes inv: "refs_inv y" and ops: "ops_inv y" and st: "serve_step c r l (sv y) (srv y) = Some (s, pc)"
  shows "refs_inv (y\<lparr>srv := s, sv := pc\<rparr>)"
proof -
  have step: "refs_kept (srv y) s \<and> pred_option (valid_op (srv y)) (serve_op pc)"
  proof (cases "sv y")
    case (SvClear e)
    with st inv ops show ?thesis by (auto simp: refs_inv_def ops_inv_def split: option.splits)
  next
    case (SvWait op e)
    with st show ?thesis by (auto dest!: go_select_in split: if_splits)
  next
    case (SvFire op e)
    with st inv show ?thesis by (auto simp: refs_inv_def)
  qed (use st in \<open>auto simp: cancelServe_def split: reader_pc.splits option.splits if_splits\<close>)
  then have "valid_op s op" if "valid_op (srv y) op" for op using that by (cases op) (auto simp: refs_kept_def)
  with step have "pred_option (valid_op s) (serve_op pc)" by (cases "serve_op pc") auto
  with refs_inv_kept [OF inv] step show ?thesis by (auto simp: refs_inv_def)
qed

lemma refs_inv_reader:
  assumes inv: "refs_inv y" and st: "reader_step c (rd y) (srv y) = Some (s, pc)"
  shows "refs_inv (y\<lparr>srv := s, rd := pc\<rparr>)"
proof -
  have "refs_kept (srv y) s \<and> within (routed pc) (length (chans s))"
  proof (cases "rd y")
    case RRead
    have look: "refs_kept (srv y) s1 \<and> within q (length (chans s1))"
      if "route_lookup raw (srv y) = (q, s1)" for raw q s1
    proof (cases "map_of (pending (srv y)) (rw_id raw)")
      case None
      with that show ?thesis by (simp add: route_lookup_def)
    next
      case (Some p)
      from inv map_of_SomeD [OF Some] have "p < length (chans (srv y))" by (fastforce simp: refs_inv_def)
      moreover from that Some have
        "q = Some p" "s1 = (srv y)\<lparr>pending := AList.delete (rw_id raw) (pending (srv y))\<rparr>"
        by (simp_all add: route_lookup_def split: option.splits)
      ultimately show ?thesis
        using set_delete_subset [of "rw_id raw" "pending (srv y)"] by (simp add: refs_kept_def)
    qed
    have "refs_kept (srv y) s1 \<and> within (routed p1) (length (chans s1))"
      if "receive_line l (srv y) = (s1, p1)" for l s1 p1
      using that look
      by (auto simp: receive_line_def split: sum.splits option.splits if_splits prod.splits) force+
    with RRead st show ?thesis
      by (auto split: sum.splits if_splits)
  next
    case (RRoute q raw)
    with st show ?thesis by (auto simp: chan_send_def refs_kept_def dest!: go_select_in split: if_splits)
  qed (use st in \<open>auto dest!: go_select_in split: if_splits\<close>)
  with refs_inv_kept [OF inv] show ?thesis by (auto simp: refs_inv_def)
qed

lemma refs_inv_step:
  assumes inv: "refs_inv y" and ops: "ops_inv y" and st: "sys_step env a c y = Some y'"
  shows "refs_inv y'"
proof -
  from st have st: "actor_step env a c y = Some y'" by (auto simp: sys_step_def split: if_splits)
  show ?thesis
  proof (cases a)
    case Reader
    with st inv refs_inv_reader show ?thesis by auto
  next
    case Looper
    with st inv refs_inv_loop show ?thesis by auto
  next
    case (TurnG k)
    with st inv refs_inv_turn show ?thesis by (auto split: if_splits prod.splits)
  next
    case (ReplayG k)
    have "refs_kept s s'" if "replay_step j i pc s = Some (s', pc')" for j i pc pc' and s s' :: "'a server"
      using that
    proof (cases pc)
      case (RpRun p)
      with that show ?thesis by (cases p) (auto dest: refs.emit split: prod.splits)
    qed auto
    with ReplayG st inv show ?thesis by (auto intro!: refs_inv_kept split: if_splits prod.splits)
  next
    case Main
    with st inv ops refs_inv_serve show ?thesis by auto
  next
    case Parent
    with st inv show ?thesis by (auto intro!: refs_inv_kept split: option.splits)
  next
    case Peer
    with st inv show ?thesis by (auto intro!: refs_inv_kept)
  qed
qed

lemma reachable_refs_inv: "reachable env y \<Longrightarrow> refs_inv y"
proof (induction rule: reachable.induct)
  case (start parent t w opts y)
  then show ?case by (auto simp: Serve_def refs_inv_def waits_within_def New_fields)
next
  case (step y a c y')
  then show ?case using refs_inv_step reachable_ops_inv by blast
qed

text \<open>The goroutines are numbered as the turns and replays they run.\<close>

lemma reachable_goroutines:
  assumes "reachable env y"
  shows "length (tg y) \<le> length (turns (srv y))" "length (rg y) \<le> length (replays (srv y))"
    "within (joined (lp y)) (length (tg y))"
proof -
  show "length (tg y) \<le> length (turns (srv y))" "length (rg y) \<le> length (replays (srv y))"
    using reachable_turns_inv [OF assms] by (auto simp: turns_inv_def index_inv_def counted_def split: option.splits)
  show "within (joined (lp y)) (length (tg y))"
    using reachable_shut_inv [OF assms] by (cases "lp y") (auto simp: shut_inv_def)
qed

end
