(* ===== verification/Server_Asked.thy ===== *)
theory Server_Asked
  imports Server_Refs Server_Intake
begin

text \<open>
  The requests that the server's agents send, for the composition with a client. Among the lines written
  no two are requests with the same id; a goroutine that waits for a response has written the
  request of its own call under its own id; and what a goroutine is given was read as a response.
  As in \<open>Server_Matching\<close>, fewer than \<open>2^64\<close> requests are assumed.
\<close>

section \<open>Request lines\<close>

definition is_request :: "line \<Rightarrow> bool" where
  "is_request l = (case parse_line l of Inl e \<Rightarrow> False | Inr m \<Rightarrow> rw_method m = ''request'')"

definition request_id :: "line \<Rightarrow> string" where
  "request_id l = (case parse_line l of Inl e \<Rightarrow> [] | Inr m \<Rightarrow> rw_id m)"

definition req_lines :: "'t server \<Rightarrow> line list" where
  "req_lines s = filter is_request (map fst (written s))"

lemma is_request_shapes [simp]:
  "\<not> is_request (Inr (rpc_success i r))" "\<not> is_request (Inr (rpc_notification ''event'' p))"
  "is_request (Inr (rpc_request ''request'' i p))" "request_id (Inr (rpc_request mth i p)) = i"
  by (simp_all add: is_request_def request_id_def parse_rpc)

lemma is_request_error [simp]:
  "\<not> is_request (Inr (marshalJSONRPCError i c m))" "\<not> is_request (Inr (parse_error_line m))"
proof -
  have "rw_method msg = []" if "parse_line (Inr (rpc_error i e)) = Inr msg" for e msg
    using that by (cases "dec_jsonrpc_error zero_jsonrpc_error (enc_jsonrpc_error e)")
      (auto simp: codec raw_defs rpc_error_def dec_ptr_nonnull)
  then show "\<not> is_request (Inr (marshalJSONRPCError i c m))"
    by (auto simp: is_request_def marshalJSONRPCError_def split: sum.splits)
  have "rw_method msg = []" if "parse_line (Inr (parse_error_line m)) = Inr msg" for msg
    using that by (cases "dec_jsonrpc_error zero_jsonrpc_error (enc_jsonrpc_error
        \<lparr>je_code = codeParseError, je_message = m, je_data = None\<rparr>)")
      (auto simp: codec raw_defs parse_error_line_def dec_ptr_nonnull)
  then show "\<not> is_request (Inr (parse_error_line m))" by (auto simp: is_request_def split: sum.splits)
qed

text \<open>\<open>unasked s s'\<close>: no request was written in between.\<close>

definition unasked :: "'t server \<Rightarrow> 't server \<Rightarrow> bool" where
  "unasked s s' \<longleftrightarrow> req_lines s' = req_lines s"

lemma unasked_refl [simp]: "unasked s s"
  by (simp add: unasked_def)

lemma unasked_trans: "unasked s s' \<Longrightarrow> unasked s' s'' \<Longrightarrow> unasked s s''"
  by (simp add: unasked_def)

lemma unasked_update [simp]:
  "unasked s (s'\<lparr>pending := p\<rparr>) = unasked s s'" "unasked s (s'\<lparr>chans := q\<rparr>) = unasked s s'"
  "unasked s (s'\<lparr>turns := ts\<rparr>) = unasked s s'" "unasked s (s'\<lparr>replays := rs\<rparr>) = unasked s s'"
  "unasked s (s'\<lparr>activeTurn := a\<rparr>) = unasked s s'" "unasked s (s'\<lparr>activeOp := b\<rparr>) = unasked s s'"
  "unasked s (s'\<lparr>serving := h\<rparr>) = unasked s s'" "unasked s (s'\<lparr>requestCounter := n\<rparr>) = unasked s s'"
  "unasked s (s'\<lparr>transport := t\<rparr>) = unasked s s'" "unasked s (s'\<lparr>dispatchCh := f\<rparr>) = unasked s s'"
  "unasked s (s'\<lparr>serveCtx := g\<rparr>) = unasked s s'" "unasked (s\<lparr>dispatchCh := f\<rparr>) s' = unasked s s'"
  by (simp_all add: unasked_def req_lines_def)

lemma unasked_written: "written s' = written s @ [(l, e)] \<Longrightarrow> \<not> is_request l \<Longrightarrow> unasked s s'"
  by (simp add: unasked_def req_lines_def)

lemma unasked_send [simp]:
  "unasked s (send_error i c m s') = unasked s s'" "unasked s (send_response i r s') = unasked s s'"
  "unasked s (logf f m s') = unasked s s'"
proof -
  show "unasked s (send_error i c m s') = unasked s s'"
    using written_send_error [of i c m s'] by (auto simp: unasked_def req_lines_def)
  show "unasked s (send_response i r s') = unasked s s'"
    using written_send_response [of i r s'] by (auto simp: unasked_def req_lines_def)
qed (simp add: unasked_def req_lines_def)

lemma unasked_write_line: "\<not> is_request (Inr j) \<Longrightarrow> unasked s (snd (write_line ctx j s))"
  by (rule unasked_written [OF written_write_line])

lemma unasked_emit: "emitEvent ctx ev s = (e, s') \<Longrightarrow> unasked s s'"
  using unasked_write_line [of "rpc_notification ''event'' p" s ctx for p]
  by (auto simp: emitEvent_def writeMessage_def split: sum.splits) (metis is_request_shapes(2) snd_conv)

lemma unasked_run_emit: "run_emit p s = (r, s') \<Longrightarrow> unasked s s'"
proof (induction p arbitrary: s)
  case (EEmit ctx ev f)
  obtain e s1 where 1: "emitEvent ctx ev s = (e, s1)" by fastforce
  with EEmit.prems have 2: "run_emit (f e) s1 = (r, s')" by simp
  from unasked_trans [OF unasked_emit [OF 1] EEmit.IH [OF rangeI 2]] show ?case .
qed simp_all

lemma unasked_set_plan: "handleSetPlanMode sw i ps s = Inr s' \<Longrightarrow> unasked s s'"
  using unasked_run_emit
  by (fastforce simp: handleSetPlanMode_def split: if_splits option.splits sum.splits prod.splits)

lemma unasked_initialize [simp]: "unasked s (handleInitialize cmp i ps s)"
proof (cases "\<not> handshakeDone s \<and> (\<exists>p. unmarshal dec_initialize_params zero_initialize_params ps = Inr p)")
  case True
  then obtain p where p: "unmarshal dec_initialize_params zero_initialize_params ps = Inr p" "\<not> handshakeDone s" by auto
  obtain hks conf where h: "hook_tables cmp s (ip_hooks p) = (hks, conf)" by fastforce
  from handleInitialize_first [OF p(2) p(1) h, of i] show ?thesis by (auto intro: unasked_written)
next
  case False
  then have "handshakeDone s \<or> (\<exists>err. unmarshal dec_initialize_params zero_initialize_params ps = Inl err)"
    by (cases "unmarshal dec_initialize_params zero_initialize_params ps") auto
  then have "\<exists>c m e. written (handleInitialize cmp i ps s) = written s @ [(Inr (marshalJSONRPCError i c m), e)]"
    using handleInitialize_refused by blast
  then show ?thesis using unasked_written is_request_error(1) by blast
qed

lemma unasked_answers [simp]:
  "unasked s (end_answer i r err was s)" "unasked s (replay_answer i x s)"
  "unasked s (snd (write_line ctx (parse_error_line m) s'')) = unasked s s''"
  "unasked s (upd_turn k f s') = unasked s s'" "unasked s (cancel_op op s') = unasked s s'"
  "unasked s (turn_close k s') = unasked s s'" "unasked s (clear_active k s') = unasked s s'"
  "unasked s (unregister j q s') = unasked s s'" "unasked s (closePending e s') = unasked s s'"
  "unasked s (cancelServe s') = unasked s s'"
proof -
  show u: "unasked s (upd_turn k f s') = unasked s s'" for k f by (simp add: upd_turn_def)
  show "unasked s (cancel_op op s') = unasked s s'" by (cases op) (simp_all add: cancel_turn_def u)
  show "unasked s (turn_close k s') = unasked s s'" by (simp add: turn_close_def u)
  show "unasked s (snd (write_line ctx (parse_error_line m) s'')) = unasked s s''"
    by (simp add: unasked_def req_lines_def written_write_line)
qed (simp_all add: end_answer_def replay_answer_def clear_active_def unregister_def closePending_def cancelServe_def
    split: option.split sum.split)

lemma unasked_register: "register s = (i, c, s') \<Longrightarrow> unasked s s'"
  by (auto simp: register_def nextRequestID_def Let_def)

section \<open>Steps that write no request\<close>

lemma run_step_unasked: "run_step c k p s = Some (s', pc') \<Longrightarrow> unasked s s'"
  by (cases p) (auto simp: steer_input_def dest: unasked_register unasked_emit dest!: go_select_in
      split: prod.splits sum.splits list.splits)

lemma turn_step_unasked:
  assumes "turn_step c k i pc s = Some (s', pc')" and "\<forall>call req j q f. pc \<noteq> TWrite call req j q f"
  shows "unasked s s'"
proof (cases pc)
  case (TRun p)
  with assms run_step_unasked show ?thesis by auto
next
  case (TEndEmit r err)
  with assms unasked_emit [of "serveCtx s" "Some TurnEndEvent" s] show ?thesis
    by (auto split: prod.splits option.splits)
qed (use assms in \<open>auto simp: await_def\<close>)

lemma replay_step_unasked:
  assumes "replay_step k i pc s = Some (s', pc')"
  shows "unasked s s'"
proof (cases pc)
  case (RpRun p)
  with assms show ?thesis by (cases p) (auto dest: unasked_emit split: prod.splits)
qed (use assms in auto)

lemma reader_step_unasked: "reader_step c pc s = Some (s', pc') \<Longrightarrow> unasked s s'"
proof (cases pc)
  case RRead
  moreover assume "reader_step c pc s = Some (s', pc')"
  ultimately show ?thesis
    by (auto simp: receive_line_def route_lookup_def split: sum.splits option.splits if_splits)
qed (auto simp: chan_send_def dest!: go_select_in split: if_splits)

lemma serve_step_unasked:
  assumes "serve_step c r l pc s = Some (s', pc')"
  shows "unasked s s'"
proof (cases pc)
  case (SvWait op err)
  with assms show ?thesis by (auto dest!: go_select_in split: if_splits)
qed (use assms in \<open>auto split: reader_pc.splits option.splits if_splits\<close>)

lemma dispatch_unasked:
  assumes "dispatch env c raw s = Inr (s', pc)"
  shows "unasked s s'"
  using assms
  by (auto simp: dispatch_def Let_def handlePrompt_def handleSteer_def handleCancel_def handleReplay_def
      dest: unasked_set_plan split: if_splits sum.splits option.splits)

lemma take_request_unasked: "unasked (srv y) (srv (take_request env c raw rest y))"
  using dispatch_unasked [of env c raw "(srv y)\<lparr>dispatchCh := rest\<rparr>"]
  by (auto simp: take_request_def Let_def split: sum.split)

lemma loop_step_unasked:
  assumes "loop_step env c (lp y) y = Some y'"
  shows "unasked (srv y) (srv y')"
proof (cases "lp y")
  case LIdle
  with assms take_request_unasked show ?thesis by (fastforce dest!: go_select_in split: list.splits if_splits)
next
  case (LBegin i input k)
  with assms show ?thesis by (auto dest: unasked_emit split: prod.splits option.splits)
qed (use assms in \<open>auto dest!: go_select_in split: if_splits sum.splits option.splits\<close>)

section \<open>The invariant\<close>

text \<open>The requests that a call may send: a hook request is given the id of its subscription.\<close>

fun requests :: "agent_call \<Rightarrow> request \<Rightarrow> bool" where
  "requests (RequestApproval r) req = (req = ApprovalRequest r)"
| "requests (CallExternalTool r) req = (req = ToolCallRequest r)"
| "requests (AskQuestion r) req = (req = QuestionRequest r)"
| "requests (TriggerHook r) req = (case req of HookRequest x \<Rightarrow> x = r\<lparr>hq_subscription_id := hq_subscription_id x\<rparr> | _ \<Rightarrow> False)"

lemma prepare_requests: "prepare pick dl s call = Inr (req, limit) \<Longrightarrow> requests call req"
  by (cases call) (auto simp: Let_def split: if_splits)

definition asked_as :: "agent_call \<Rightarrow> string \<Rightarrow> line list \<Rightarrow> bool" where
  "asked_as call j ls \<longleftrightarrow> (\<exists>req p. requests call req \<and> MarshalRequest (Some req) = Inr p \<and>
     Inr (rpc_request ''request'' j p) \<in> set ls)"

fun asking :: "line list \<Rightarrow> turn_pc \<Rightarrow> bool" where
  "asking ls (TWrite call req j q f) = (requests call req \<and> j \<notin> request_id ` set ls)"
| "asking ls (TAwait call j q f) = asked_as call j ls"
| "asking ls pc = True"

definition asked_ok :: "'t server \<Rightarrow> (string \<times> turn_pc) list \<Rightarrow> bool" where
  "asked_ok s ts \<longleftrightarrow> distinct (map request_id (req_lines s)) \<and>
     (\<forall>l \<in> set (req_lines s). \<exists>q < length (chans s). request_id l = srv_id (q + 1)) \<and>
     (\<forall>t \<in> set ts. asking (req_lines s) (snd t))"

definition asks_inv :: "'t sys \<Rightarrow> bool" where
  "asks_inv y \<longleftrightarrow> (length (chans (srv y)) < 2 ^ 64 \<longrightarrow> asked_ok (srv y) (tg y))"

lemma asked_ok_unasked:
  assumes "asked_ok s ts" and "unasked s s'" and "length (chans s) \<le> length (chans s')"
    and "\<forall>t \<in> set ts'. t \<in> set ts \<or> asking (req_lines s) (snd t)"
  shows "asked_ok s' ts'"
proof -
  have "req_lines s' = req_lines s" using assms(2) by (simp add: unasked_def)
  moreover have "\<exists>q < length (chans s'). request_id l = srv_id (q + 1)" if "l \<in> set (req_lines s)" for l
    using assms(1,3) that unfolding asked_ok_def by (meson less_le_trans)
  ultimately show ?thesis using assms(1,4) unfolding asked_ok_def by auto
qed

lemma asks_inv_unasked:
  assumes "asks_inv y" and "unasked (srv y) (srv y')" and "length (chans (srv y)) \<le> length (chans (srv y'))"
    and "\<forall>t \<in> set (tg y'). t \<in> set (tg y) \<or> asking (req_lines (srv y)) (snd t)"
  shows "asks_inv y'"
  using assms asked_ok_unasked [OF _ assms(2,3,4)] by (auto simp: asks_inv_def)

text \<open>The line of a request is written.\<close>

lemma asking_other:
  assumes "asking ls pc" and "\<forall>q. waits pc \<noteq> Some (request_id l, q)"
  shows "asking (ls @ [l]) pc"
  using assms by (cases pc) (auto simp: asked_as_def)

lemma asked_ok_write:
  assumes ok: "asked_ok s ts" and w: "waits_ok ts s" and k: "k < length ts" "ts ! k = (i, TWrite call req j q f)"
    and l: "req_lines s' = req_lines s @ [l]" "request_id l = j" and c: "length (chans s') = length (chans s)"
    and pc: "asking (req_lines s @ [l]) pc"
  shows "asked_ok s' (ts[k := (i, pc)])"
proof -
  from waits_okD(1) [OF w k(1), of j q] k(2) have j: "q < length (chans s)" "j = srv_id (q + 1)" by auto
  from ok nth_mem [OF k(1)] k(2) have "j \<notin> request_id ` set (req_lines s)" by (fastforce simp: asked_ok_def)
  with ok l have "distinct (map request_id (req_lines s'))" by (auto simp: asked_ok_def)
  moreover have "\<exists>q < length (chans s'). request_id l' = srv_id (q + 1)" if "l' \<in> set (req_lines s')" for l'
    using ok that j l c unfolding asked_ok_def by auto
  moreover have "asking (req_lines s') (snd t)" if t: "t \<in> set (ts[k := (i, pc)])" for t
  proof -
    from t obtain n where n: "n < length ts" "t = (ts[k := (i, pc)]) ! n" by (auto simp: in_set_conv_nth)
    show ?thesis
    proof (cases "n = k")
      case True
      with n k(1) pc l(1) show ?thesis by simp
    next
      case False
      with n have t: "t = ts ! n" by simp
      have "waits (snd t) \<noteq> Some (j, q')" for q'
      proof
        assume a: "waits (snd t) = Some (j, q')"
        with waits_okD(1) [OF w n(1), of j q'] t j(2) have "q' = q" by simp
        with waits_okD(2) [OF w n(1) k(1), of "(j, q)"] a t k(2) False show False by simp
      qed
      moreover have "asking (req_lines s) (snd t)" using ok nth_mem [OF n(1)] t by (auto simp: asked_ok_def)
      ultimately show ?thesis using asking_other l by simp
    qed
  qed
  ultimately show ?thesis by (simp add: asked_ok_def)
qed

fun quiet_pc :: "turn_pc \<Rightarrow> bool" where
  "quiet_pc (TWrite call req j q f) = False"
| "quiet_pc (TAwait call j q f) = False"
| "quiet_pc pc = True"

lemma quiet_asking: "quiet_pc pc \<Longrightarrow> asking ls pc"
  by (cases pc) auto

lemma turn_step_asking:
  assumes "turn_step c k i pc s = Some (s', pc')" and "\<forall>call req j q f. pc \<noteq> TWrite call req j q f"
  shows "quiet_pc pc' \<or> (\<exists>call req j q f. pc' = TWrite call req j q f \<and> requests call req \<and> register s = (j, q, s'))"
proof (cases pc)
  case (TRun p)
  then show ?thesis
  proof (cases p)
    case (TAsk call f)
    with TRun assms(1) show ?thesis
      by (auto dest: prepare_requests split: sum.splits prod.splits)
  qed (use assms TRun in \<open>auto split: prod.splits\<close>)
qed (use assms in \<open>auto split: prod.splits option.splits\<close>)

lemma write_request_asks:
  assumes "write_request ctx j req s = (e, s')"
  shows "(unasked s s' \<and> e \<noteq> None \<or> (\<exists>p. MarshalRequest (Some req) = Inr p \<and>
    req_lines s' = req_lines s @ [Inr (rpc_request ''request'' j p)])) \<and> chans s' = chans s"
proof (cases "MarshalRequest (Some req)")
  case (Inl err)
  with assms show ?thesis by (auto simp: write_request_def writeMessage_def)
next
  case (Inr p)
  with assms have w: "write_line ctx (rpc_request ''request'' j p) s = (e, s')"
    by (simp add: write_request_def writeMessage_def)
  with written_write_line [of ctx "rpc_request ''request'' j p" s]
  have "req_lines s' = req_lines s @ [Inr (rpc_request ''request'' j p)]" by (simp add: req_lines_def)
  moreover have "chans s' = chans s" using w by (auto simp: write_line_def split: prod.splits)
  ultimately show ?thesis using Inr by simp
qed

lemma asks_inv_turn:
  assumes inv: "asks_inv y" and m: "match_inv y" and k: "k < length (tg y)" "tg y ! k = (i, pc)"
    and st: "turn_step c k i pc (srv y) = Some (s, pc')"
  shows "asks_inv (y\<lparr>srv := s, tg := (tg y)[k := (i, pc')], frames := fr\<rparr>)"
proof (cases "\<exists>call req j q f. pc = TWrite call req j q f")
  case True
  then obtain call req j q f where pc: "pc = TWrite call req j q f" by blast
  obtain e s1 where w: "write_request (ch_ctx c) j req (srv y) = (e, s1)" by fastforce
  have s: "s = s1 \<and> e = None \<and> pc' = TAwait call j q f \<or> s = unregister j q s1 \<and> e \<noteq> None \<and> quiet_pc pc'"
    using st pc w by (auto split: option.splits)
  have u: "req_lines s = req_lines s1" "length (chans s) = length (chans s1)"
    using s by (auto simp: unregister_def req_lines_def)
  note a = write_request_asks [OF w]
  show ?thesis
  proof (cases "unasked (srv y) s1 \<and> e \<noteq> None")
    case True
    with s u a show ?thesis
      by (intro asks_inv_unasked [OF inv])
        (auto simp: unasked_def quiet_asking dest!: set_update_subset_insert [THEN subsetD])
  next
    case False
    with a obtain p where p: "MarshalRequest (Some req) = Inr p"
      "req_lines s1 = req_lines (srv y) @ [Inr (rpc_request ''request'' j p)]" by auto
    have "asked_ok s ((tg y)[k := (i, pc')])" if len: "length (chans s) < 2 ^ 64"
    proof (rule asked_ok_write [OF _ _ k(1)])
      from inv u(2) a len show ok: "asked_ok (srv y) (tg y)" by (simp add: asks_inv_def)
      from m u(2) a len show "waits_ok (tg y) (srv y)" by (simp add: match_inv_def)
      show "tg y ! k = (i, TWrite call req j q f)" using k(2) pc by simp
      have "requests call req" using ok nth_mem [OF k(1)] k(2) pc by (fastforce simp: asked_ok_def)
      with p(1) have "asked_as call j (req_lines (srv y) @ [Inr (rpc_request ''request'' j p)])"
        unfolding asked_as_def by (intro exI [of _ req] exI [of _ p]) simp
      with s show "asking (req_lines (srv y) @ [Inr (rpc_request ''request'' j p)]) pc'"
        by (auto simp: quiet_asking)
    qed (use p u a in auto)
    then show ?thesis by (simp add: asks_inv_def)
  qed
next
  case False
  have t: "asks_inv (y\<lparr>srv := s, tg := (tg y)[k := (i, pc')], frames := fr\<rparr>)" if "asking (req_lines (srv y)) pc'"
  proof (rule asks_inv_unasked [OF inv])
    show "unasked (srv y) (srv (y\<lparr>srv := s, tg := (tg y)[k := (i, pc')], frames := fr\<rparr>))"
      using turn_step_unasked [OF st] False by simp
    show "length (chans (srv y)) \<le> length (chans (srv (y\<lparr>srv := s, tg := (tg y)[k := (i, pc')], frames := fr\<rparr>)))"
      using turn_step_refs [OF st] by (auto simp: refs_kept_def dest: register_refs)
  qed (use that in \<open>auto dest!: set_update_subset_insert [THEN subsetD]\<close>)
  have "\<forall>call req j q f. pc \<noteq> TWrite call req j q f" using False by blast
  from turn_step_asking [OF st this] show ?thesis
  proof
    assume "\<exists>call req j q f. pc' = TWrite call req j q f \<and> requests call req \<and> register (srv y) = (j, q, s)"
    then obtain call req j q f where r: "pc' = TWrite call req j q f" "requests call req" "register (srv y) = (j, q, s)"
      by blast
    have l: "length (chans s) = length (chans (srv y)) + 1" using register_refs [OF r(3)] by simp
    show ?thesis
    proof (cases "length (chans s) < 2 ^ 64")
      case True
      with l inv m have "asked_ok (srv y) (tg y)" "table_ok (srv y)" by (simp_all add: asks_inv_def match_inv_def)
      moreover from table_register [OF this(2) _ r(3)] True l have "j = srv_id (length (chans (srv y)) + 1)" by simp
      ultimately have "j \<notin> request_id ` set (req_lines (srv y))" by (fastforce simp: asked_ok_def)
      with r t show ?thesis by simp
    qed (simp add: asks_inv_def)
  qed (use t quiet_asking in blast)
qed

lemma reader_chans:
  assumes "reader_step c pc s = Some (s', pc')"
  shows "length (chans s') = length (chans s)"
proof (cases pc)
  case RRead
  have w: "chans (snd (write_line ctx j s1)) = chans s1" "chans (logf f m s) = chans s" for ctx j f m and s1 :: "'a server"
    by (simp_all add: write_line_def logf_def split: prod.split)
  from RRead assms show ?thesis
    by (auto simp: receive_line_def route_lookup_def w split: sum.splits option.splits if_splits)
qed (use assms in \<open>auto simp: chan_send_def dest!: go_select_in split: if_splits\<close>)

lemma serve_chans:
  assumes "serve_step c r l pc s = Some (s', pc')"
  shows "length (chans s') = length (chans s)"
proof -
  have "chans (cancel_op op s) = chans s" for op
    by (cases op) (simp_all add: cancel_turn_def upd_turn_def)
  moreover have "chans (logf f m s) = chans s" for f m by (simp add: logf_def)
  ultimately show ?thesis using assms
    by (cases pc) (auto simp: cancelServe_def dest!: go_select_in split: reader_pc.splits option.splits if_splits)
qed

lemma asks_inv_step:
  assumes inv: "asks_inv y" and m: "match_inv y" and st: "sys_step env a c y = Some y'"
  shows "asks_inv y'"
proof -
  from st have st: "actor_step env a c y = Some y'" by (auto simp: sys_step_def split: if_splits)
  show ?thesis
  proof (cases a)
    case (TurnG k)
    with st inv m asks_inv_turn show ?thesis by (auto split: if_splits prod.splits)
  next
    case Looper
    with st have l: "loop_step env c (lp y) y = Some y'" by simp
    have "\<forall>t \<in> set (tg y'). t \<in> set (tg y) \<or> quiet_pc (snd t)"
      using l by (cases "lp y") (auto simp: take_request_def Let_def dest!: go_select_in
        split: list.splits if_splits sum.splits prod.splits option.splits)
    moreover have "length (chans (srv y)) = length (chans (srv y'))"
      using same_table_loop_step [OF l] by (simp add: same_table_def)
    ultimately show ?thesis
      using loop_step_unasked [OF l] quiet_asking by (intro asks_inv_unasked [OF inv]) auto
  next
    case Reader
    with st obtain s pc where s: "reader_step c (rd y) (srv y) = Some (s, pc)" "y' = y\<lparr>srv := s, rd := pc\<rparr>" by auto
    with reader_chans [OF s(1)] reader_step_unasked [OF s(1)] show ?thesis by (intro asks_inv_unasked [OF inv]) auto
  next
    case (ReplayG k)
    with st show ?thesis
      by (auto intro!: asks_inv_unasked [OF inv] replay_step_unasked dest: same_table_replay_step
        simp: same_table_def split: if_splits prod.splits)
  next
    case Main
    with st show ?thesis
      by (auto intro!: asks_inv_unasked [OF inv] serve_step_unasked simp: serve_chans)
  qed (use st in \<open>auto intro!: asks_inv_unasked [OF inv] split: option.splits\<close>)
qed

lemma reachable_asks_inv: "reachable env y \<Longrightarrow> asks_inv y"
proof (induction rule: reachable.induct)
  case (start parent t w opts y)
  then show ?case by (auto simp: Serve_def asks_inv_def asked_ok_def req_lines_def New_fields New_written split: if_splits)
next
  case (step y a c y')
  then show ?case using asks_inv_step reachable_match_inv by blast
qed

section \<open>Responses read\<close>

text \<open>What a goroutine can be given, but for the error with which \<open>closePending\<close> ends all requests.\<close>

definition delivered :: "'t sys \<Rightarrow> raw_wire_message set" where
  "delivered y = {m. (\<nexists>e. m = close_message e) \<and> (Some m \<in> set (chans (srv y)) \<or> (\<exists>q. rd y = RRoute q m))}"

definition read_reply :: "actor \<Rightarrow> 't choice \<Rightarrow> 't sys \<Rightarrow> raw_wire_message \<Rightarrow> bool" where
  "read_reply a c y m \<longleftrightarrow> a = Reader \<and> rd y = RRead \<and>
     (\<exists>l. ch_input c = Inr l \<and> parse_line l = Inr m \<and> rw_id m \<noteq> [] \<and> rw_method m = [])"

lemma in_update: "Some m \<in> set (cs[q := x]) \<Longrightarrow> Some m \<in> set cs \<or> x = Some m"
  using set_update_subset_insert by fastforce

lemma turn_step_delivered:
  assumes "turn_step c k i pc s = Some (s', pc')" and "Some m \<in> set (chans s')"
  shows "Some m \<in> set (chans s)"
proof (cases "\<exists>j q. register s = (j, q, s')")
  case True
  with assms(2) show ?thesis by (auto dest: register_refs)
next
  case False
  have e: "chans (end_answer i r err was s) = chans s" for r err was
    using table.end_answer [of s i r err was] by (simp add: same_table_def)
  have "chans s' = chans s \<or> (\<exists>q. chans s' = (chans s)[q := None])"
  proof (cases pc)
    case (TRun p)
    with assms(1) False show ?thesis
      by (cases p) (auto simp: steer_input_def upd_turn_def logf_def dest: table.emit dest!: go_select_in
          simp: same_table_def split: prod.splits sum.splits list.splits)
  next
    case (TWrite call req j q f)
    obtain e s1 where w: "write_request (ch_ctx c) j req s = (e, s1)" by fastforce
    from write_request_asks [OF w] w TWrite assms(1) show ?thesis
      by (auto simp: unregister_def split: option.splits)
  next
    case (TAwait call j q f)
    with assms(1) show ?thesis by (auto simp: await_def unregister_def)
  qed (use assms(1) in \<open>auto simp: turn_close_def upd_turn_def clear_active_def logf_def e dest!: table.emit
      simp: same_table_def split: prod.splits option.splits\<close>)
  with assms(2) in_update show ?thesis by fastforce
qed

lemma delivered_same:
  assumes "m \<in> delivered y'" and "Some m \<in> set (chans (srv y')) \<Longrightarrow> Some m \<in> set (chans (srv y))"
    and "rd y' = rd y"
  shows "m \<in> delivered y"
  using assms by (auto simp: delivered_def)

lemma reader_delivered:
  assumes st: "reader_step c (rd y) (srv y) = Some (s, pc)" and m: "m \<in> delivered (y\<lparr>srv := s, rd := pc\<rparr>)"
  shows "m \<in> delivered y \<or> read_reply Reader c y m"
proof (cases "rd y")
  case RRead
  have w: "chans (snd (write_line ctx j s1)) = chans s1" "chans (logf f m s1) = chans s1"
    for ctx j f m and s1 :: "'a server"
    by (simp_all add: write_line_def logf_def split: prod.split)
  from RRead st m show ?thesis
    by (auto simp: delivered_def read_reply_def receive_line_def route_lookup_def w
        split: sum.splits option.splits if_splits)
qed (use st m in \<open>auto simp: delivered_def chan_send_def dest!: go_select_in in_update split: if_splits\<close>)

lemma closePending_delivers:
  assumes "Some m \<in> set (chans (closePending e s))"
  shows "Some m \<in> set (chans s) \<or> m = close_message e"
proof -
  have "set (foldl (\<lambda>cs (i, c). if cs ! c = None then cs[c := Some (close_message e)] else cs) cs ps) \<subseteq>
      insert (Some (close_message e)) (set cs)" for cs ps
  proof (induction ps arbitrary: cs)
    case (Cons p ps)
    from Cons [of "if cs ! snd p = None then cs[snd p := Some (close_message e)] else cs"]
      set_update_subset_insert [of cs "snd p" "Some (close_message e)"]
    show ?case by (auto simp: case_prod_beta split: if_splits)
  qed auto
  with assms show ?thesis unfolding closePending_def by fastforce
qed

lemma sys_step_delivered:
  assumes st: "sys_step env a c y = Some y'" and m: "m \<in> delivered y'"
  shows "m \<in> delivered y \<or> read_reply a c y m"
proof -
  from st have st: "actor_step env a c y = Some y'" by (auto simp: sys_step_def split: if_splits)
  show ?thesis
  proof (cases a)
    case Reader
    with st m reader_delivered show ?thesis by fastforce
  next
    case (TurnG k)
    with st m turn_step_delivered show ?thesis
      by (fastforce intro: delivered_same [OF m] split: if_splits prod.splits)
  next
    case Looper
    with st have l: "loop_step env c (lp y) y = Some y'" by simp
    have "rd y' = rd y"
      using l by (cases "lp y") (auto simp: take_request_def Let_def dest!: go_select_in
        split: list.splits if_splits sum.splits prod.splits option.splits)
    with same_table_loop_step [OF l] m show ?thesis by (simp add: same_table_def delivered_def)
  next
    case (ReplayG k)
    with st show ?thesis
      by (auto intro!: delivered_same [OF m] dest: same_table_replay_step simp: same_table_def
          split: if_splits prod.splits)
  next
    case Main
    with st obtain s pc where s: "serve_step c (rd y) (lp y) (sv y) (srv y) = Some (s, pc)" "y' = y\<lparr>srv := s, sv := pc\<rparr>"
      by auto
    have "chans (cancel_op op s1) = chans s1" "chans (logf f m s1) = chans s1" for op f m and s1 :: "'a server"
      by (cases op) (simp_all add: cancel_turn_def upd_turn_def logf_def)
    with s(1) have "chans s = chans (srv y) \<or> (\<exists>e. s = closePending e (srv y)) \<or> (\<exists>e. chans s = chans (closePending e (srv y)))"
      by (cases "sv y") (auto simp: cancelServe_def dest!: go_select_in split: reader_pc.splits option.splits if_splits)
    with m s(2) show ?thesis by (auto simp: delivered_def dest!: closePending_delivers)
  qed (use st in \<open>auto intro!: delivered_same [OF m] split: option.splits\<close>)
qed

end
