(* ===== verification/Net_Answers.thy ===== *)
theory Net_Answers
  imports Net Client_Answers Server_Asked
begin

text \<open>
  The other direction of the link: an agent's request and the answer of the client's handler. Each message
  that \<open>Dispatch\<close> took was written by the server, and each response that a goroutine of the
  server can be given was written by the client, as the handler's answer to a message that \<open>Dispatch\<close>
  took.
\<close>

section \<open>The invariant\<close>

lemma net_step_server_line:
  assumes "net_step env h (AtServer a) c d i n = Some n'"
  shows "\<exists>c'. sys_step env a c' (ns n) = Some (ns n') \<and> nc n' = nc n \<and>
    (\<forall>l. a = Reader \<and> rd (ns n) = RRead \<and> ch_input c' = Inr l \<longrightarrow> l \<in> fst ` set (cl_written (cl (nc n))))"
proof (cases "a = Reader \<and> rd (ns n) = RRead \<and> \<not> isl (ch_input c)")
  case True
  with assms obtain y where "i < length (cl_written (cl (nc n)))"
    "sys_step env a (c\<lparr>ch_input := Inr (fst (cl_written (cl (nc n)) ! i))\<rparr>) (ns n) = Some y" "n' = n\<lparr>ns := y, to_server := Suc i\<rparr>"
    by (auto simp: net_step.simps link_read_def split: if_splits)
  with True show ?thesis
    by (intro exI [of _ "c\<lparr>ch_input := Inr (fst (cl_written (cl (nc n)) ! i))\<rparr>"]) simp
next
  case False
  with assms have "sys_step env a c (ns n) = Some (ns n')" "nc n' = nc n" by (auto simp: net_step.simps split: if_splits)
  with False show ?thesis by (intro exI [of _ c]) auto
qed

lemma net_step_client_line:
  assumes "net_step env h (AtClient a) c d i n = Some n'"
  shows "\<exists>d'. cactor_step h a d' (nc n) = Some (nc n') \<and> ns n' = ns n \<and>
    (\<forall>l. a = CReader \<and> cr (nc n) = CrRead \<and> cx_input d' = Inr l \<longrightarrow> l \<in> fst ` set (written (srv (ns n))))"
proof (cases "a = CReader \<and> cr (nc n) = CrRead \<and> \<not> isl (cx_input d)")
  case True
  with assms obtain z where "i < length (written (srv (ns n)))"
    "cactor_step h a (d\<lparr>cx_input := Inr (fst (written (srv (ns n)) ! i))\<rparr>) (nc n) = Some z" "n' = n\<lparr>nc := z, to_client := Suc i\<rparr>"
    by (auto simp: net_step.simps link_read_def split: if_splits)
  with True show ?thesis
    by (intro exI [of _ "d\<lparr>cx_input := Inr (fst (written (srv (ns n)) ! i))\<rparr>"]) simp
next
  case False
  with assms have "cactor_step h a d (nc n) = Some (nc n')" "ns n' = ns n" by (auto simp: net_step.simps split: if_splits)
  with False show ?thesis by (intro exI [of _ d]) auto
qed

definition said :: "raw_wire_message \<Rightarrow> line list \<Rightarrow> bool" where
  "said m ls \<longleftrightarrow> (\<exists>l \<in> set ls. parse_line l = Inr m)"

definition answer_inv :: "('t, 'u) net \<Rightarrow> bool" where
  "answer_inv n \<longleftrightarrow> (\<forall>m \<in> incoming (nc n). said m (map fst (written (srv (ns n))))) \<and>
     (\<forall>m \<in> delivered (ns n). said m (filter is_response (map fst (cl_written (cl (nc n))))))"

lemma said_filterD: "said m (filter P ls) \<Longrightarrow> \<exists>l \<in> set ls. P l \<and> parse_line l = Inr m"
  by (auto simp: said_def)

lemma said_append: "said m ls \<Longrightarrow> said m (ls @ ks)"
  by (auto simp: said_def)

lemma answer_inv_server:
  assumes inv: "answer_inv n" and st: "net_step env h (AtServer a) c d i n = Some n'"
  shows "answer_inv n'"
proof -
  from net_step_server_line [OF st] obtain c' where s: "sys_step env a c' (ns n) = Some (ns n')" "nc n' = nc n" and
    r: "\<forall>l. a = Reader \<and> rd (ns n) = RRead \<and> ch_input c' = Inr l \<longrightarrow> l \<in> fst ` set (cl_written (cl (nc n)))" by blast
  from sys_step_sent [OF s(1)] obtain ws where w: "written (srv (ns n')) = written (srv (ns n)) @ ws"
    by (auto simp: sent_since_def)
  have "said m (filter is_response (map fst (cl_written (cl (nc n)))))" if m: "m \<in> delivered (ns n')" for m
  proof -
    from sys_step_delivered [OF s(1) m] show ?thesis
    proof
      assume "read_reply a c' (ns n) m"
      then obtain l where l: "a = Reader" "rd (ns n) = RRead" "ch_input c' = Inr l" "parse_line l = Inr m" "is_response l"
        by (auto simp: read_reply_def is_response_def)
      with r have "l \<in> fst ` set (cl_written (cl (nc n)))" by blast
      with l show ?thesis by (auto simp: said_def)
    qed (use inv in \<open>simp add: answer_inv_def\<close>)
  qed
  with inv s(2) w show ?thesis by (simp add: answer_inv_def said_append)
qed

lemma answer_inv_client:
  assumes inv: "answer_inv n" and st: "net_step env h (AtClient a) c d i n = Some n'"
  shows "answer_inv n'"
proof -
  from net_step_client_line [OF st] obtain d' where s: "cactor_step h a d' (nc n) = Some (nc n')" "ns n' = ns n" and
    r: "\<forall>l. a = CReader \<and> cr (nc n) = CrRead \<and> cx_input d' = Inr l \<longrightarrow> l \<in> fst ` set (written (srv (ns n)))" by blast
  from client_step_grows [OF s(1)] obtain ws where w: "cl_written (cl (nc n')) = cl_written (cl (nc n)) @ ws" by blast
  have "said m (map fst (written (srv (ns n))))" if m: "m \<in> incoming (nc n')" for m
  proof -
    from incoming_step [OF s(1) m] show ?thesis
    proof
      assume "read_call a d' (nc n) m"
      with r show ?thesis by (fastforce simp: read_call_def said_def)
    qed (use inv in \<open>simp add: answer_inv_def\<close>)
  qed
  with inv s(2) w show ?thesis by (simp add: answer_inv_def said_append)
qed

lemma net_answer_inv: "net_reachable env h n \<Longrightarrow> answer_inv n"
proof (induction rule: net_reachable.induct)
  case (nstart parent t w opts y dt t' w')
  then show ?case
    by (auto simp: answer_inv_def net_start_def client_start_def incoming_def in_hand_def delivered_def
        NewClient_def WithDefaultTimeout_def Serve_def New_fields split: if_splits)
next
  case (nstep n a c d i n')
  then show ?case by (cases a) (auto intro: answer_inv_server answer_inv_client)
qed

section \<open>The answer to a waiting agent\<close>

lemma request_line_unique:
  assumes "asked_ok s ts" and "l \<in> set (req_lines s)" and "l' \<in> set (req_lines s)" and "request_id l = request_id l'"
  shows "l = l'"
  using assms by (auto simp: asked_ok_def distinct_map inj_on_def)

lemma filter_unique_id: "distinct (map f xs) \<Longrightarrow> x \<in> set xs \<Longrightarrow> f x = j \<Longrightarrow> filter (\<lambda>y. f y = j) xs = [x]"
  by (induction xs) (auto simp: filter_empty_conv, metis imageI)

text \<open>The message that answers a request of an agent: what the client's line for it reads as.\<close>

definition answer_message :: "handler \<Rightarrow> string \<Rightarrow> request \<Rightarrow> raw_wire_message option" where
  "answer_message h j req = (case HandleRequest h (norm_request req) of
     Inl err \<Rightarrow> Some \<lparr>rw_jsonrpc = ''2.0'', rw_id = j, rw_method = [], rw_params = None, rw_result = None,
       rw_error = Some \<lparr>je_code = -32603, je_message = RedactString (RedactString (error_text err)), je_data = None\<rparr>\<rparr>
   | Inr (Inr v) \<Rightarrow> Some \<lparr>rw_jsonrpc = ''2.0'', rw_id = j, rw_method = [], rw_params = None, rw_result = Some v,
       rw_error = None\<rparr>
   | Inr (Inl e) \<Rightarrow> None)"

lemma answer_line_request:
  assumes "MarshalRequest (Some req) = Inr p" and "parse_line (Inr (rpc_request ''request'' j p)) = Inr raw"
    and "answer_line h raw = Some r" and "parse_line (Inr r) = Inr m"
  shows "answer_message h j req = Some m"
proof -
  have raw: "raw = \<lparr>rw_jsonrpc = ''2.0'', rw_id = j, rw_method = ''request'', rw_params = Some p, rw_result = None,
      rw_error = None\<rparr>" using assms(2) by (simp add: parse_rpc)
  have "ParseWireMessage raw = Inr (RequestMessage ''2.0'' ''request'' j (norm_request req))"
    by (simp add: raw ParseWireMessage_def ParseRequest_MarshalRequest [OF assms(1)])
  with assms(3,4) show ?thesis
    by (auto simp: answer_line_def answer_message_def parse_rpc code_ok_def split: sum.splits)
qed

lemma answer_line_id:
  assumes "answer_line h raw = Some r" and "parse_line (Inr r) = Inr m"
  shows "rw_id m = rw_id raw \<and> rw_method raw = ''request''"
  using assms
  by (auto simp: answer_line_def ParseWireMessage_def parse_rpc code_ok_def
      split: sum.splits wire_message.splits if_splits option.splits)

lemma waiting_answer:
  assumes n: "net_reachable env h n" and len: "length (chans (srv (ns n))) < 2 ^ 64"
    and k: "k < length (tg (ns n))" "tg (ns n) ! k = (i, TAwait call j q f)"
    and m: "chans (srv (ns n)) ! q = Some m" "\<nexists>e. m = close_message e"
  shows "\<exists>req p raw. requests call req \<and> MarshalRequest (Some req) = Inr p \<and>
    filter (\<lambda>l. request_id l = j) (req_lines (srv (ns n))) = [Inr (rpc_request ''request'' j p)] \<and>
    raw \<in> set (handled (nc n)) \<and> parse_line (Inr (rpc_request ''request'' j p)) = Inr raw \<and>
    answer_message h j req = Some m"
proof -
  from net_sides [OF n] have s: "reachable env (ns n)" and c: "creachable h (nc n)" by auto
  from reachable_match_inv [OF s] len have t: "table_ok (srv (ns n))" "waits_ok (tg (ns n)) (srv (ns n))"
    by (simp_all add: match_inv_def)
  from waits_okD(1) [OF t(2) k(1), of j q] k(2) have q: "q < length (chans (srv (ns n)))" "j = srv_id (q + 1)" by auto
  with t(1) m have id: "rw_id m = j" by (auto simp: table_ok_def)
  from q(1) m have "m \<in> delivered (ns n)" by (force simp: delivered_def in_set_conv_nth)
  with net_answer_inv [OF n] have "said m (filter is_response (map fst (cl_written (cl (nc n)))))" by (simp add: answer_inv_def)
  from said_filterD [OF this] obtain l where
    l: "l \<in> set (map fst (cl_written (cl (nc n))))" "is_response l" "parse_line l = Inr m" by blast
  with creachable_answered_inv [OF c] obtain raw where raw: "raw \<in> set (handled (nc n))" "map_option Inr (answer_line h raw) = Some l"
    by (auto simp: answered_inv_def answers_of_def)
  then obtain r where r: "answer_line h raw = Some r" "l = Inr r" by auto
  with answer_line_id l(3) id have rid: "rw_id raw = j" "rw_method raw = ''request''" by auto
  from raw(1) have "raw \<in> incoming (nc n)" by (simp add: incoming_def)
  with net_answer_inv [OF n] have "said raw (map fst (written (srv (ns n))))" by (simp add: answer_inv_def)
  then obtain w where w: "w \<in> set (map fst (written (srv (ns n))))" "parse_line w = Inr raw"
    unfolding said_def by blast
  with rid have wr: "w \<in> set (req_lines (srv (ns n)))" "request_id w = j" by (auto simp: req_lines_def is_request_def request_id_def)
  from reachable_asks_inv [OF s] len have ok: "asked_ok (srv (ns n)) (tg (ns n))" by (simp add: asks_inv_def)
  with nth_mem [OF k(1)] k(2) have "asked_as call j (req_lines (srv (ns n)))" by (fastforce simp: asked_ok_def)
  then obtain req p where p: "requests call req" "MarshalRequest (Some req) = Inr p"
    "Inr (rpc_request ''request'' j p) \<in> set (req_lines (srv (ns n)))" by (auto simp: asked_as_def)
  with request_line_unique [OF ok wr(1) p(3)] wr(2) have e: "w = Inr (rpc_request ''request'' j p)" by simp
  have "filter (\<lambda>l. request_id l = j) (req_lines (srv (ns n))) = [w]"
    using ok wr by (intro filter_unique_id) (simp_all add: asked_ok_def)
  with p raw(1) w(2) e answer_line_request [OF p(2) _ r(1)] l(3) r(2) show ?thesis by blast
qed

text \<open>\<open>replied h call reply\<close>: \<open>reply\<close> is what the handler's answer to a request of the call decodes to.\<close>

definition replied :: "handler \<Rightarrow> agent_call \<Rightarrow> agent_reply \<Rightarrow> bool" where
  "replied h call reply \<longleftrightarrow> (\<exists>req v. requests call req \<and> HandleRequest h (norm_request req) = Inr (Inr v) \<and>
     conclude call (Inr (Some v)) = Inr reply)"

lemma await_answered:
  assumes "net_reachable env h n" and "length (chans (srv (ns n))) < 2 ^ 64"
    and "k < length (tg (ns n))" and "tg (ns n) ! k = (i, TAwait call j q f)"
    and "await c call j q (srv (ns n)) = Some (Inr reply, s)"
  shows "\<exists>req p raw v. requests call req \<and> MarshalRequest (Some req) = Inr p \<and>
    filter (\<lambda>l. request_id l = j) (req_lines (srv (ns n))) = [Inr (rpc_request ''request'' j p)] \<and>
    raw \<in> set (handled (nc n)) \<and> parse_line (Inr (rpc_request ''request'' j p)) = Inr raw \<and>
    HandleRequest h (norm_request req) = Inr (Inr v) \<and> conclude call (Inr (Some v)) = Inr reply"
proof -
  from assms(5) obtain r where r: "conclude call r = Inr reply"
    "go_select (ch_pick c) [map_option response_result (chans (srv (ns n)) ! q), map_option Inl (ch_ctx c),
       map_option Inl (serveCtx (srv (ns n)))] = Some r"
    by (auto simp: await_def)
  from conclude_Inr [OF r(1)] obtain x where x: "r = Inr x" by blast
  with go_select_in [OF r(2)] obtain m where m: "chans (srv (ns n)) ! q = Some m" "response_result m = Inr x" by auto
  then have e: "rw_error m = None" "rw_result m = x" by (auto simp: response_result_def split: option.splits)
  then have "\<nexists>e. m = close_message e" by auto
  from waiting_answer [OF assms(1-4) m(1) this] obtain req p raw where w: "requests call req"
    "MarshalRequest (Some req) = Inr p"
    "filter (\<lambda>l. request_id l = j) (req_lines (srv (ns n))) = [Inr (rpc_request ''request'' j p)]"
    "raw \<in> set (handled (nc n))" "parse_line (Inr (rpc_request ''request'' j p)) = Inr raw"
    "answer_message h j req = Some m" by blast
  from w(6) e obtain v where "HandleRequest h (norm_request req) = Inr (Inr v)" "x = Some v"
    by (auto simp: answer_message_def split: sum.splits)
  with w r(1) x show ?thesis by blast
qed

lemma await_replied:
  assumes "net_reachable env h n" and "length (chans (srv (ns n))) < 2 ^ 64"
    and "k < length (tg (ns n))" and "tg (ns n) ! k = (i, TAwait call j q f)"
    and "await c call j q (srv (ns n)) = Some (Inr reply, s)"
  shows "replied h call reply"
  using await_answered [OF assms] unfolding replied_def by blast

end
