(* ===== verification/Server_Schedules.thy ===== *)
theory Server_Schedules
  imports Server_Shutdown
begin

text \<open>
  Schedules: lists of steps that a running server takes, and one schedule on the in-memory transport,
  used where a concrete run is needed. A client prompts, the agent asks for an approval, the client
  approves and cancels while the turn is ending.
\<close>

section \<open>Playing a schedule\<close>

fun play :: "env \<Rightarrow> (actor \<times> 't choice) list \<Rightarrow> 't sys \<Rightarrow> 't sys option" where
  "play env [] y = Some y"
| "play env ((a, c) # sched) y = (case sys_step env a c y of None \<Rightarrow> None | Some y' \<Rightarrow> play env sched y')"

lemma reachable_play: "reachable env y \<Longrightarrow> play env sched y = Some y' \<Longrightarrow> reachable env y'"
  by (induction env sched y rule: play.induct) (auto split: option.splits intro: reachable.step)

lemma play_append:
  "play env (xs @ ys) y = (case play env xs y of None \<Rightarrow> None | Some y' \<Rightarrow> play env ys y')"
  by (induction env xs y rule: play.induct) (auto split: option.splits)

section \<open>A run\<close>

definition demo_env :: env where
  "demo_env = \<lparr>compile = (\<lambda>_. None), can_steer = False, can_replay = False, can_plan = False\<rparr>"

definition demo_choice :: "in_memory choice" where
  "demo_choice = \<lparr>ch_pick = 0, ch_ctx = None, ch_dl = False, ch_input = Inl EOF, ch_prog = TPanic [],
     ch_replay = EPanic [], ch_plan = (\<lambda>_. EPanic []), ch_steer = Inr None, ch_peer = (\<lambda>t. t), ch_late = False\<rparr>"

definition demo_start :: "in_memory sys" where
  "demo_start = (case Serve None (New NewInMemoryTransport (im_WriteLine 0) []) of Inr y \<Rightarrow> y)"

definition demo_request :: approval_request where
  "demo_request = zero_approval_request\<lparr>aq_id := ''a''\<rparr>"

definition demo_prog :: turn_prog where
  "demo_prog = TAsk (RequestApproval demo_request) (\<lambda>r. TReturn \<lparr>pr_status = ''finished'', pr_steps = None\<rparr> None)"

definition reads :: "json \<Rightarrow> actor \<times> in_memory choice" where
  "reads j = (Reader, demo_choice\<lparr>ch_input := Inr (Inr j)\<rparr>)"

definition demo_asks :: "(actor \<times> in_memory choice) list" where
  "demo_asks = [reads (rpc_request ''prompt'' ''1'' (JObj [(''user_input'', JStr ''hi'')])), (Reader, demo_choice),
     (Looper, demo_choice), (Looper, demo_choice\<lparr>ch_prog := demo_prog\<rparr>),
     (TurnG 0, demo_choice), (TurnG 0, demo_choice)]"

definition demo_answers :: "(actor \<times> in_memory choice) list" where
  "demo_answers = [reads (rpc_success ''srv-1'' (JObj [(''request_id'', JStr ''a''), (''response'', JStr ''approve'')])),
     (Reader, demo_choice)]"

definition demo_cancels :: "(actor \<times> in_memory choice) list" where
  "demo_cancels = [reads (rpc_request ''cancel'' ''2'' (JObj [])), (Reader, demo_choice), (Looper, demo_choice),
     (Looper, demo_choice), (Looper, demo_choice),
     (TurnG 0, demo_choice), (TurnG 0, demo_choice), (TurnG 0, demo_choice), (TurnG 0, demo_choice)]"

definition demo_ends :: "(actor \<times> in_memory choice) list" where
  "demo_ends = [(Looper, demo_choice), (TurnG 0, demo_choice), (TurnG 0, demo_choice), (TurnG 0, demo_choice)]"

definition state_at :: "(actor \<times> in_memory choice) list \<Rightarrow> in_memory sys" where
  "state_at sched = (case play demo_env sched demo_start of Some y \<Rightarrow> y)"

lemma demo_start_reachable: "reachable demo_env demo_start"
proof -
  have "Serve None (New NewInMemoryTransport (im_WriteLine 0) []) = Inr demo_start"
    by (simp add: demo_start_def Serve_def New_fields)
  then show ?thesis by (rule reachable.start)
qed

lemma at_reachable: "play demo_env sched demo_start \<noteq> None \<Longrightarrow> reachable demo_env (state_at sched)"
  using reachable_play [OF demo_start_reachable] by (auto simp: state_at_def)

lemma demo_runs: "play demo_env (demo_asks @ demo_answers @ demo_cancels @ demo_ends) demo_start \<noteq> None"
  by code_simp

end
