(* ===== verification/Server_Properties.thy ===== *)
theory Server_Properties
  imports Server_Schedules Server_Refs
begin

text \<open>
  The properties of the running server, each over every reachable state, with witnesses on the run of
  \<open>Server_Schedules\<close>, and those of the requests that an agent makes.
\<close>

section \<open>The witnesses' states\<close>

abbreviation "demo_waiting \<equiv> state_at demo_asks"
abbreviation "demo_answered \<equiv> state_at (demo_asks @ demo_answers)"
abbreviation "demo_cancelling \<equiv> state_at (demo_asks @ demo_answers @ demo_cancels)"
abbreviation "demo_over \<equiv> state_at (demo_asks @ demo_answers @ demo_cancels @ demo_ends)"

lemma demo_reachable:
  "reachable demo_env demo_waiting" "reachable demo_env demo_answered"
  "reachable demo_env demo_cancelling" "reachable demo_env demo_over"
proof -
  have prefix: "play demo_env xs demo_start \<noteq> None" if "play demo_env (xs @ ys) demo_start \<noteq> None" for xs ys
    using that by (auto simp: play_append split: option.splits)
  have c: "play demo_env (demo_asks @ demo_answers @ demo_cancels) demo_start \<noteq> None"
    by (rule prefix [of _ demo_ends]) (use demo_runs in simp)
  have b: "play demo_env (demo_asks @ demo_answers) demo_start \<noteq> None"
    by (rule prefix [of _ demo_cancels]) (use c in simp)
  show "reachable demo_env demo_waiting" "reachable demo_env demo_answered"
    "reachable demo_env demo_cancelling" "reachable demo_env demo_over"
    using at_reachable [OF prefix [OF b]] at_reachable [OF b] at_reachable [OF c]
      at_reachable [OF demo_runs] by auto
qed

section \<open>Every request is answered once\<close>

text \<open>C3: As long as no panic has ended the process, the responses that the server wrote and the requests
  still in the hands of one of its goroutines are together exactly the requests taken from the
  queue, each counted once: no request is answered twice and none is lost.\<close>

theorem requests_accounted:
  assumes "reachable env y" and "crashed y = None"
  shows "resp_ids (srv y) + in_flight y = mset (taken y)"
  using reachable_account [OF assms(1)] assms(2) by (simp add: account_def)

theorem requests_accounted_witness:
  "resp_ids (srv demo_over) + in_flight demo_over = mset (taken demo_over) \<and>
    taken demo_over = [''1'', ''2''] \<and> in_flight demo_over = {#}"
proof -
  have e: "crashed demo_over = None \<and> taken demo_over = [''1'', ''2''] \<and> in_flight demo_over = {#}"
    by code_simp
  show ?thesis
  proof (intro conjI)
    show "resp_ids (srv demo_over) + in_flight demo_over = mset (taken demo_over)"
      by (rule requests_accounted [OF demo_reachable(4)]) (use e in blast)
  qed (use e in blast)+
qed

section \<open>References\<close>



section \<open>One turn at a time\<close>





section \<open>Responses reach the request\<close>

text \<open>C7: What \<open>RequestApproval\<close>, \<open>CallExternalTool\<close>, \<open>AskQuestion\<close> and \<open>TriggerHook\<close> return to the agent
  without an error comes from a message that the client sent as the response to this very request, and
  names the agent's request. Assumed: fewer than \<open>2^64\<close> requests were made.\<close>

theorem agent_reply_matches:
  assumes "reachable env y" and "length (chans (srv y)) < 2 ^ 64"
    and "k < length (tg y)" and "tg y ! k = (i, TAwait call j q f)"
    and "await c call j q (srv y) = Some (Inr reply, s)"
  shows "\<exists>m. chans (srv y) ! q = Some m \<and> rw_id m = j \<and> rw_error m = None \<and> reply_id reply = call_id call"
proof -
  from assms(5) obtain r where r: "conclude call r = Inr reply"
    "go_select (ch_pick c) [map_option response_result (chans (srv y) ! q), map_option Inl (ch_ctx c),
       map_option Inl (serveCtx (srv y))] = Some r"
    by (auto simp: await_def)
  from conclude_Inr [OF r(1)] obtain v where v: "r = Inr v" and "reply_id reply = call_id call" by blast
  moreover from go_select_in [OF r(2)] v obtain m where m: "chans (srv y) ! q = Some m" "response_result m = Inr v"
    by auto
  moreover have "rw_error m = None" using m(2) by (simp add: response_result_def split: option.splits)
  moreover from reachable_match_inv [OF assms(1)] assms(2)
  have ok: "table_ok (srv y)" "waits_ok (tg y) (srv y)" by (simp_all add: match_inv_def)
  from waits_okD(1) [OF ok(2) assms(3), of j q] assms(4)
  have "q < length (chans (srv y))" "j = srv_id (q + 1)" by auto
  with ok(1) m(1) have "rw_id m = j \<or> (\<exists>e. m = close_message e)" by (auto simp: table_ok_def)
  ultimately show ?thesis by auto
qed

definition is_await :: "turn_pc \<Rightarrow> bool" where
  "is_await pc = (case pc of TAwait call j q f \<Rightarrow>
     call = RequestApproval demo_request \<and> j = ''srv-1'' \<and> q = 0 | _ \<Rightarrow> False)"

theorem agent_reply_matches_witness:
  "\<exists>m reply s. await demo_choice (RequestApproval demo_request) ''srv-1'' 0 (srv demo_answered) = Some (Inr reply, s) \<and>
    chans (srv demo_answered) ! 0 = Some m \<and> rw_id m = ''srv-1'' \<and> rw_error m = None \<and> reply_id reply = ''a''"
proof -
  have e: "length (chans (srv demo_answered)) = 1 \<and> length (tg demo_answered) = 1 \<and>
    is_await (snd (tg demo_answered ! 0)) \<and>
    (case await demo_choice (RequestApproval demo_request) ''srv-1'' 0 (srv demo_answered) of
       Some (Inr reply, s) \<Rightarrow> True | _ \<Rightarrow> False)"
    by code_simp
  then obtain reply s f where a: "await demo_choice (RequestApproval demo_request) ''srv-1'' 0 (srv demo_answered) = Some (Inr reply, s)"
    "tg demo_answered ! 0 = (fst (tg demo_answered ! 0), TAwait (RequestApproval demo_request) ''srv-1'' 0 f)"
    by (cases "tg demo_answered ! 0") (auto simp: is_await_def split: option.splits sum.splits prod.splits turn_pc.splits)
  have id: "call_id (RequestApproval demo_request) = ''a''" by (simp add: demo_request_def)
  from e agent_reply_matches [OF demo_reachable(2) _ _ a(2) a(1)] a(1) show ?thesis unfolding id by auto
qed

text \<open>C31: \<open>routeResponse\<close> puts a response in the channel of the request with its id, removes that
  request from the table and changes nothing else; a response to no request is dropped.\<close>

theorem response_routed:
  assumes "reachable env y" and "length (chans (srv y)) < 2 ^ 64"
  shows "routeResponse raw (srv y) = (case map_of (pending (srv y)) (rw_id raw) of
      None \<Rightarrow> srv y
    | Some q \<Rightarrow> (srv y)\<lparr>pending := AList.delete (rw_id raw) (pending (srv y)),
        chans := (chans (srv y))[q := Some raw]\<rparr>)"
proof -
  from reachable_match_inv [OF assms(1)] assms(2) have "table_ok (srv y)" by (simp add: match_inv_def)
  from routeResponse_delivers [OF table_pending_inv [OF this], of raw] show ?thesis
    by (auto split: option.splits)
qed

theorem response_routed_witness:
  "\<exists>raw. pending (routeResponse raw (srv demo_waiting)) = [] \<and> chans (routeResponse raw (srv demo_waiting)) = [Some raw]"
proof -
  have e: "length (chans (srv demo_waiting)) = 1 \<and> pending (srv demo_waiting) = [(''srv-1'', 0)] \<and>
    chans (srv demo_waiting) = [None]"
    by code_simp
  have "routeResponse (zero_raw_wire_message\<lparr>rw_id := ''srv-1''\<rparr>) (srv demo_waiting) =
    (srv demo_waiting)\<lparr>pending := [], chans := [Some (zero_raw_wire_message\<lparr>rw_id := ''srv-1''\<rparr>)]\<rparr>"
    using e by (subst response_routed [OF demo_reachable(1)]) (simp_all add: zero_raw_wire_message_def)
  then show ?thesis by (intro exI [of _ "zero_raw_wire_message\<lparr>rw_id := ''srv-1''\<rparr>"]) simp
qed



section \<open>The end of a turn\<close>

lemma past_close_frame: "past_close pc \<Longrightarrow> \<not> in_frame pc"
  by (cases pc) (simp_all add: past_close_def in_frame_def)



text \<open>C23: \<open>Serve\<close> returns once the read loop is gone, unless the process crashes: until then there is one
  goroutine (\<open>Serve\<close>, the serve loop, or the turn that the loop waits for) whose next step is enabled whatever
  the outside decides, given that the ten seconds of the warning pass, and lowers the rank; no step of
  any other goroutine raises it, and the rank is at most 40 for each queued request and 51.\<close>

theorem serve_shuts_down:
  assumes "reachable env y" and "rd y = RDone e" and "crashed y = None"
  shows "((\<exists>err. sv y = SvReturn err) \<or>
      (\<exists>a. \<forall>c. ch_late c \<longrightarrow> (\<exists>y'. sys_step env a c y = Some y' \<and>
        (crashed y' \<noteq> None \<or> shutdown_rank y' < shutdown_rank y)))) \<and>
    (\<forall>a c y'. sys_step env a c y = Some y' \<longrightarrow> rd y' = RDone e \<and> shutdown_rank y' \<le> shutdown_rank y) \<and>
    shutdown_rank y \<le> 40 * length (dispatchCh (srv y)) + 51"
  using next_actor_steps [OF assms] shutdown_rank_bound [of y] assms(2)
    shut_step [OF _ reachable_turns_inv [OF assms(1)] reachable_shut_inv [OF assms(1)], of env]
  by blast

theorem serve_shuts_down_witness:
  "\<exists>y a. sys_step demo_env Reader demo_choice demo_over = Some y \<and> rd y = RDone (Some EOF) \<and>
    (\<forall>c. ch_late c \<longrightarrow> (\<exists>y'. sys_step demo_env a c y = Some y' \<and>
      (crashed y' \<noteq> None \<or> shutdown_rank y' < shutdown_rank y)))"
proof -
  have e: "(case sys_step demo_env Reader demo_choice demo_over of
      Some y \<Rightarrow> rd y = RDone (Some EOF) \<and> crashed y = None \<and> sv y = SvRead | None \<Rightarrow> False)"
    by code_simp
  then obtain y where y: "sys_step demo_env Reader demo_choice demo_over = Some y" "rd y = RDone (Some EOF)"
    "crashed y = None" "sv y = SvRead" by (auto split: option.splits)
  from serve_shuts_down [OF reachable.step [OF demo_reachable(4) y(1)] y(2,3)] y show ?thesis by auto
qed

fun ends_from :: "nat \<Rightarrow> string \<Rightarrow> ('t choice \<times> ('t server \<Rightarrow> 't server)) list \<Rightarrow> turn_pc \<times> 't server \<Rightarrow>
    (turn_pc \<times> 't server) option" where
  "ends_from k i [] (pc, s) = Some (pc, s)"
| "ends_from k i ((c, others) # cs) (pc, s) = (case turn_step c k i pc (others s) of
     None \<Rightarrow> None | Some (s', pc') \<Rightarrow> ends_from k i cs (pc', s'))"



definition prompt_answer :: "prompt_result \<Rightarrow> go_error option \<Rightarrow> bool \<Rightarrow> (int \<times> string) + prompt_result" where
  "prompt_answer result err was =
     (if was \<or> (\<exists>e. err = Some e \<and> errors_Is e Canceled) then Inr \<lparr>pr_status = PromptStatusCancelled, pr_steps = None\<rparr>
      else case err of
        None \<Rightarrow> Inr result
      | Some e \<Rightarrow> Inl (case as_coded e of
          Some c \<Rightarrow> if c = 0 then (codeInternalError, ''internal error'') else (c, error_text e)
        | None \<Rightarrow> (codeInternalError, ''internal error'')))"


section \<open>Hooks\<close>


end
