(* ===== verification/Client_Properties.thy ===== *)
theory Client_Properties
  imports Client_Runs
begin

text \<open>
  The properties of the client, over every reachable state of the running client, with witnesses on a
  run over the in-memory transport.
\<close>

section \<open>The witnesses' run\<close>

definition demo_handler :: handler where
  "demo_handler = \<lparr>HandleEvent = (\<lambda>e. None), HandleRequest = (\<lambda>r. Inr (Inr (JObj [])))\<rparr>"

definition demo_cchoice :: "in_memory cchoice" where
  "demo_cchoice = \<lparr>cx_pick = 0, cx_ctx = None, cx_input = Inl EOF, cx_call = CallCancel, cx_peer = (\<lambda>t. t)\<rparr>"

definition client_reads :: "json \<Rightarrow> cactor \<times> in_memory cchoice" where
  "client_reads j = (CReader, demo_cchoice\<lparr>cx_input := Inr (Inr j)\<rparr>)"

text \<open>Two calls wait; an event is read and queued, a response is read and is about to be delivered.\<close>

definition demo_calls :: "(cactor \<times> in_memory cchoice) list" where
  "demo_calls = [(CNew, demo_cchoice), (CCall 0, demo_cchoice), (CCall 0, demo_cchoice), (CCall 0, demo_cchoice),
     (CNew, demo_cchoice\<lparr>cx_call := CallReplay\<rparr>), (CCall 1, demo_cchoice), (CCall 1, demo_cchoice), (CCall 1, demo_cchoice),
     client_reads (rpc_notification ''event'' (JObj [(''type'', JStr ''TurnEnd''), (''payload'', JObj [])])),
     (CReader, demo_cchoice),
     client_reads (rpc_success ''req-1'' (JObj []))]"

definition demo_delivery :: "(cactor \<times> in_memory cchoice) list" where
  "demo_delivery = [(CReader, demo_cchoice)]"

definition demo_close :: "(cactor \<times> in_memory cchoice) list" where
  "demo_close = [(CReader, demo_cchoice), (CReader, demo_cchoice), (CReader, demo_cchoice),
     (CDispatch, demo_cchoice), (CDispatch, demo_cchoice)]"

definition client_at :: "(cactor \<times> in_memory cchoice) list \<Rightarrow> in_memory csys" where
  "client_at sched = (case cplay demo_handler sched
     (client_start (WithDefaultTimeout 0 (NewClient NewInMemoryTransport (im_WriteLine 0)))) of Some y \<Rightarrow> y)"

abbreviation "demo_sending \<equiv> client_at demo_calls"
abbreviation "demo_delivered \<equiv> client_at (demo_calls @ demo_delivery)"
abbreviation "demo_full \<equiv> client_at (demo_calls @ demo_delivery @ [client_reads (rpc_success ''req-1'' (JObj []))])"
abbreviation "demo_closed \<equiv> client_at (demo_calls @ demo_delivery @ demo_close)"

lemma client_at_reachable:
  assumes "cplay demo_handler sched (client_start (WithDefaultTimeout 0 (NewClient NewInMemoryTransport (im_WriteLine 0)))) \<noteq> None"
  shows "creachable demo_handler (client_at sched)"
  using assms creachable_cplay [OF creachable.cstart] by (auto simp: client_at_def)

lemma demo_client_reachable:
  "creachable demo_handler demo_sending" "creachable demo_handler demo_delivered" "creachable demo_handler demo_closed"
  "creachable demo_handler demo_full"
  by (rule client_at_reachable, code_simp)+

section \<open>Calls and responses\<close>

text \<open>C9: A call of the client that gets a result, from the buffer of early responses or from its channel, got it
  from a message with the id of its own request: it is that message decoded as the call's own type, or
  the legacy answer to an initialize that the server does not know; and of the calls under way no two have
  the same id. Assumed: fewer than \<open>2^64\<close> calls were made.\<close>

theorem call_answered_by_own_response:
  assumes "creachable h y" and "length (cc y) < 2 ^ 64" and "k < length (cc y)"
    and "asks (cc y ! k) = Some (call, i)" and "call_result (cc y ! k) = None"
    and "call_step pick ctx (cc y ! k) (cl y) = Some (s, pc)" and "call_result pc = Some (Inr r)"
  shows "(\<exists>m. gets (cc y ! k) (cl y) m \<and> rw_id m = i \<and> result_of call m r) \<and>
    (\<forall>j < length (cc y). call_ident (cc y ! j) = Some i \<longrightarrow> j = k)"
proof
  from creachable_cinv [OF assms(1)] have ok: "calls_ok (cc y) (cl y)" by (simp add: cinv_def)
  from asked_reply [OF ok assms(3,4,6,7,5)] show "\<exists>m. gets (cc y ! k) (cl y) m \<and> rw_id m = i \<and> result_of call m r" .
  from creachable_ids_inv [OF assms(1)] assms(2) have "ids_ok (cc y) (unat (cl_counter (cl y)))"
    by (simp add: ids_inv_def)
  moreover have "call_ident (cc y ! k) = Some i" using assms(4) by (cases "cc y ! k") auto
  ultimately show "\<forall>j < length (cc y). call_ident (cc y ! j) = Some i \<longrightarrow> j = k"
    using ids_okD(2) [of "cc y" _ _ k] assms(3) by blast
qed

theorem call_answered_by_own_response_witness:
  "\<exists>m s. call_step 0 None (cc demo_delivered ! 0) (cl demo_delivered) = Some (s, CcClean CallCancel ''req-1'' 0 (Inr CancelReply)) \<and>
    snd (cl_chans (cl demo_delivered) ! 0) = Some m \<and> rw_id m = ''req-1''"
proof -
  have e: "length (cc demo_delivered) = 2 \<and> cc demo_delivered ! 0 = CcWait CallCancel ''req-1'' 0 \<and>
    (case call_step 0 None (cc demo_delivered ! 0) (cl demo_delivered) of
       Some (s, pc) \<Rightarrow> pc = CcClean CallCancel ''req-1'' 0 (Inr CancelReply) | None \<Rightarrow> False)"
    by code_simp
  then obtain s where s: "call_step 0 None (cc demo_delivered ! 0) (cl demo_delivered) =
      Some (s, CcClean CallCancel ''req-1'' 0 (Inr CancelReply))"
    by (auto split: option.splits prod.splits)
  from call_answered_by_own_response [OF demo_client_reachable(2) _ _ _ _ s, of CallCancel "''req-1''" CancelReply] e s
  show ?thesis by auto
qed

text \<open>C14: The reader is never held up for good by a response: when the channel it is sending to is full, a
  call is still waiting at that channel, and its next step, which is always enabled, makes room.\<close>

theorem reader_never_stuck:
  assumes "creachable h y" and "cr y = CrSend q raw" and "snd (cl_chans (cl y) ! q) \<noteq> None"
  shows "\<exists>k < length (cc y). waiting (cc y ! k) = Some (rw_id raw, q) \<and>
    (\<forall>pick ctx. \<exists>s pc. call_step pick ctx (cc y ! k) (cl y) = Some (s, pc)) \<and>
    (\<exists>s pc. call_step 0 None (cc y ! k) (cl y) = Some (s, pc) \<and> snd (cl_chans s ! q) = None)"
proof -
  from creachable_cinv [OF assms(1)] assms(2,3)
  have "Some (rw_id raw, q) \<in> waiting ` set (cc y)" and q: "q < length (cl_chans (cl y))"
    by (auto simp: cinv_def send_ok_def)
  then obtain k where k: "k < length (cc y)" "waiting (cc y ! k) = Some (rw_id raw, q)"
    unfolding waiting_nth by blast
  obtain m where m: "snd (cl_chans (cl y) ! q) = Some m" using assms(3) by auto
  show ?thesis
  proof (intro exI [of _ k] conjI k allI)
    fix pick ctx
    show "\<exists>s pc. call_step pick ctx (cc y ! k) (cl y) = Some (s, pc)"
    proof (cases "cc y ! k")
      case (CcWait call i p)
      with k m have "go_select pick [map_option (\<lambda>msg. (close_chan p (cl y), CcClean call i p (decode_reply_to call msg))) (snd (cl_chans (cl y) ! p)),
        map_option (\<lambda>e. (cl y, CcClean call i p (Inl (WireError ErrTimeout (error_text e) (Some e) 0)))) ctx] \<noteq> None"
        by (simp add: go_select_None)
      with CcWait show ?thesis by auto
    qed (use k in \<open>auto split: prod.splits\<close>)
  next
    show "\<exists>s pc. call_step 0 None (cc y ! k) (cl y) = Some (s, pc) \<and> snd (cl_chans s ! q) = None"
    proof (cases "cc y ! k")
      case (CcWait call i p)
      with k m q show ?thesis by (auto simp: go_select_def)
    next
      case (CcClean call i p r)
      obtain r' s where f: "finish_call call r ((close_chan p (cl y))\<lparr>cl_pending := AList.delete i (cl_pending (cl y))\<rparr>) = (r', s)"
        by fastforce
      from finish_call_fields [OF f] have "cl_chans s = cl_chans (close_chan p (cl y))" by (simp add: same_calls_def)
      with CcClean k q f show ?thesis by auto
    qed (use k in auto)
  qed
qed

theorem reader_never_stuck_witness:
  "\<exists>k < length (cc demo_full). waiting (cc demo_full ! k) = Some (''req-1'', 0) \<and>
    (\<exists>s pc. call_step 0 None (cc demo_full ! k) (cl demo_full) = Some (s, pc) \<and> snd (cl_chans s ! 0) = None)"
proof -
  have e: "(case cr demo_full of CrSend q raw \<Rightarrow> q = 0 \<and> rw_id raw = ''req-1'' | _ \<Rightarrow> False) \<and>
    snd (cl_chans (cl demo_full) ! 0) \<noteq> None"
    by code_simp
  then obtain raw where r: "cr demo_full = CrSend 0 raw" "rw_id raw = ''req-1''"
    by (auto split: creader_pc.splits)
  from reader_never_stuck [OF demo_client_reachable(4) r(1)] e r(2) show ?thesis by auto
qed

text \<open>C15: When reading fails, no call is left without an answer: after the client's \<open>closePending\<close> the table
  is empty and every call that was in it can return at once.\<close>

theorem client_close_wakes_all:
  assumes "creachable h y"
  shows "cl_pending (client_closePending e (cl y)) = [] \<and>
    (\<forall>(i, q) \<in> set (cl_pending (cl y)). \<exists>k < length (cc y). waiting (cc y ! k) = Some (i, q) \<and>
       (\<forall>pick ctx. call_step pick ctx (cc y ! k) (client_closePending e (cl y)) \<noteq> None))"
proof -
  from creachable_cinv [OF assms] have ok: "calls_ok (cc y) (cl y)" by (simp add: cinv_def)
  have "\<exists>k < length (cc y). waiting (cc y ! k) = Some (i, q) \<and>
      (\<forall>pick ctx. call_step pick ctx (cc y ! k) (client_closePending e (cl y)) \<noteq> None)"
    if iq: "(i, q) \<in> set (cl_pending (cl y))" for i q
  proof -
    from calls_okD(1) [OF ok iq] obtain k where k: "k < length (cc y)" "waiting (cc y ! k) = Some (i, q)"
      and q: "q < length (cl_chans (cl y))" unfolding waiting_nth by blast
    from client_closePending_effect(5) [OF iq q, of e] obtain m
      where m: "snd (cl_chans (client_closePending e (cl y)) ! q) = Some m" by blast
    have "call_step pick ctx (cc y ! k) (client_closePending e (cl y)) \<noteq> None" for pick ctx
      using k m by (cases "cc y ! k") (auto simp: go_select_None split: prod.splits)
    with k show ?thesis by blast
  qed
  then show ?thesis using client_closePending_effect(1) by fast
qed

theorem client_close_wakes_all_witness:
  "\<exists>k < 2. waiting (cc demo_sending ! k) = Some (''req-2'', 1) \<and>
    (\<forall>pick ctx. call_step pick ctx (cc demo_sending ! k) (client_closePending EOF (cl demo_sending)) \<noteq> None)"
proof -
  have e: "cl_pending (cl demo_sending) = [(''req-1'', 0), (''req-2'', 1)] \<and> length (cc demo_sending) = 2"
    by code_simp
  with client_close_wakes_all [OF demo_client_reachable(1), of EOF] show ?thesis by auto
qed

text \<open>A call that registers after the reader has gone is woken by no one: without a limit on its context it
  waits for ever.\<close>

lemma late_call_waits:
  "call_step pick None (CcWait call i q) s = None \<longleftrightarrow> snd (cl_chans s ! q) = None"
  "client_reader_step pick' input CrGone s = None"
  by (simp_all add: go_select_None)

text \<open>A reader that is stopped while it holds an event or request leaves without \<open>closePending\<close>: the calls
  in the table get no error.\<close>

lemma stop_skips_close:
  "cl_stop s \<Longrightarrow> length (cl_dispatch s) \<ge> 1024 \<Longrightarrow>
    client_reader_step pick input (CrDispatch raw) s = Some (s, CrEnd)"
  by (simp add: go_select_def)

section \<open>Dispatch\<close>



text \<open>C16: \<open>Dispatch\<close> returns once the reader is gone: its next step is then enabled, whatever case is picked,
  and lowers a rank (at most two for each queued message, and two) that no step of another goroutine changes;
  and it returns without an error only when every event and request that was read has been handled,
  but for one dropped at shutdown.\<close>

theorem dispatch_returns:
  assumes "creachable h y" and "cr y = CrGone"
  shows "((\<exists>e. cd y = DpDone e) \<or> (\<exists>y'. cactor_step h CDispatch c y = Some y' \<and> dispatch_rank y' < dispatch_rank y \<and>
      (cd y' = DpDone None \<longrightarrow> handled y' @ dropped y' = seen y'))) \<and>
    (\<forall>a c' y'. cactor_step h a c' y = Some y' \<longrightarrow> a \<noteq> CDispatch \<longrightarrow> a \<noteq> CAgain \<longrightarrow>
      cr y' = CrGone \<and> dispatch_rank y' = dispatch_rank y)"
proof -
  note inv = creachable_order_inv [OF assms(1)]
  have "\<exists>y'. cactor_step h CDispatch c y = Some y' \<and> dispatch_rank y' < dispatch_rank y \<and>
      (cd y' = DpDone None \<longrightarrow> handled y' @ dropped y' = seen y')" if "\<forall>e. cd y \<noteq> DpDone e"
  proof -
    have "cl_dispatch_closed (cl y)" using inv assms(2) by (simp add: order_inv_def closed_by_def)
    from dispatch_step_lowers [OF this that, of h "cx_pick c" "cx_ctx c"] obtain s pc where
      st: "dispatch_step h (cx_pick c) (cx_ctx c) (cd y) (cl y) = Some (s, pc)"
      "\<And>hs. dispatch_rank (y\<lparr>cl := s, cd := pc, handled := hs\<rparr>) < dispatch_rank y"
      by (auto simp: dispatch_rank_def)
    with dispatch_drained [OF inv, of h "cx_pick c" "cx_ctx c" s] show ?thesis by (auto simp: taken_by_def)
  qed
  with others_keep_rank assms(2) show ?thesis by blast
qed

theorem dispatch_returns_witness:
  "\<exists>y y'. creachable demo_handler y \<and> cactor_step demo_handler CDispatch demo_cchoice y = Some y' \<and>
    dispatch_rank y' < dispatch_rank y"
proof -
  have e: "(case cactor_step demo_handler CReader demo_cchoice demo_closed of
      Some y \<Rightarrow> cr y = CrGone \<and> cd y = DpWait | None \<Rightarrow> False)"
    by code_simp
  then obtain y where y: "cactor_step demo_handler CReader demo_cchoice demo_closed = Some y" "cr y = CrGone" "cd y = DpWait"
    by (auto split: option.splits)
  from creachable.cstep [OF demo_client_reachable(3) y(1)] have r: "creachable demo_handler y" .
  from dispatch_returns [OF r y(2), of demo_cchoice] y(3) r show ?thesis by auto
qed


section \<open>Initialize\<close>

text \<open>C18: \<open>Initialize\<close> returns what its response decodes to, but for the error "method not found", on which it
  succeeds with the legacy protocol version; the handshake is marked as done exactly when it succeeds.\<close>

theorem initialize_outcome:
  "(case finish_call (CallInitialize p) (decode_reply_to (CallInitialize p) msg) s of (r, s') \<Rightarrow>
     r = (if map_option je_code (rw_error msg) = Some MethodNotFound then Inr (InitializeReply legacy_result)
          else decode_reply_to (CallInitialize p) msg) \<and>
     cl_handshake s' = (cl_handshake s \<or> is_ok r))"
  by (auto simp: decodeResponse_def split: option.splits sum.splits if_splits)

end
