(* ===== verification/Net_Properties.thy ===== *)
theory Net_Properties
  imports Net_Answers Server_Properties Client_Properties
begin

text \<open>
  What a client and a server guarantee together, in every reachable state of the two connected by a link that
  may lose lines and fail, but neither doubles nor reorders them.
\<close>

section \<open>A run of both\<close>

fun nplay :: "env \<Rightarrow> handler \<Rightarrow> (net_actor \<times> nat) list \<Rightarrow> 't choice \<Rightarrow> 'u cchoice \<Rightarrow> ('t, 'u) net \<Rightarrow> ('t, 'u) net option" where
  "nplay env h [] c d n = Some n"
| "nplay env h ((a, i) # sched) c d n = (case net_step env h a c d i n of
     None \<Rightarrow> None | Some n' \<Rightarrow> nplay env h sched c d n')"

lemma net_reachable_play:
  "net_reachable env h n \<Longrightarrow> nplay env h sched c d n = Some n' \<Longrightarrow> net_reachable env h n'"
  by (induction env h sched c d n rule: nplay.induct) (auto split: option.splits intro: net_reachable.nstep)

text \<open>The client initializes, the server answers, and the response waits in the channel of the call.\<close>

definition demo_init :: client_call where
  "demo_init = CallInitialize (zero_initialize_params\<lparr>ip_protocol_version := ''1.5''\<rparr>)"

definition demo_exchange :: "(net_actor \<times> nat) list" where
  "demo_exchange = [(AtClient CNew, 0), (AtClient (CCall 0), 0), (AtClient (CCall 0), 0), (AtClient (CCall 0), 0),
     (AtServer Reader, 0), (AtServer Reader, 0), (AtServer Looper, 0), (AtClient CReader, 0), (AtClient CReader, 0)]"

definition demo_link :: "(in_memory, in_memory) net" where
  "demo_link = net_start demo_start (client_start (WithDefaultTimeout 0 (NewClient NewInMemoryTransport (im_WriteLine 0))))"

definition demo_net :: "(in_memory, in_memory) net" where
  "demo_net = (case nplay demo_env demo_handler demo_exchange (demo_choice\<lparr>ch_input := Inr (Inr JNull)\<rparr>)
     (demo_cchoice\<lparr>cx_input := Inr (Inr JNull), cx_call := demo_init\<rparr>) demo_link of Some n \<Rightarrow> n)"

lemma demo_net_facts:
  "nplay demo_env demo_handler demo_exchange (demo_choice\<lparr>ch_input := Inr (Inr JNull)\<rparr>)
     (demo_cchoice\<lparr>cx_input := Inr (Inr JNull), cx_call := demo_init\<rparr>) demo_link \<noteq> None \<and>
   crashed (ns demo_net) = None \<and> length (cc (nc demo_net)) = 1 \<and> taken (ns demo_net) = [''req-1''] \<and>
   cc (nc demo_net) ! 0 = CcWait demo_init ''req-1'' 0 \<and>
   (case snd (cl_chans (cl (nc demo_net)) ! 0) of Some m \<Rightarrow> rw_error m = None | None \<Rightarrow> False)"
  by code_simp

lemma demo_net_reachable: "net_reachable demo_env demo_handler demo_net"
proof -
  have "Serve None (New NewInMemoryTransport (im_WriteLine 0) []) = Inr demo_start"
    by (simp add: demo_start_def Serve_def New_fields)
  then have "net_reachable demo_env demo_handler demo_link" unfolding demo_link_def by (rule net_reachable.nstart)
  with demo_net_facts net_reachable_play show ?thesis by (auto simp: demo_net_def)
qed

section \<open>A call and its answer\<close>

lemma gets_held:
  assumes "creachable h z" and k: "k < length (cc z)" and g: "gets (cc z ! k) (cl z) m" and b: "\<not> broken m"
    and a: "asks (cc z ! k) = Some (call, i)"
  shows "m \<in> held z \<and> rw_id m = i"
proof -
  from creachable_cinv [OF assms(1)] have ok: "calls_ok (cc z) (cl z)" by (simp add: cinv_def)
  show ?thesis
  proof (cases "cc z ! k")
    case (CcRead call' i')
    with g a b show ?thesis by (auto simp: held_def dest!: take_ooo_found)
  next
    case (CcWait call' i' q)
    with k have "Some (i', q) \<in> waiting ` set (cc z)" unfolding waiting_nth by force
    from calls_okD(3) [OF ok this] have q: "q < length (cl_chans (cl z))" "fst (cl_chans (cl z) ! q) = i'" by auto
    from CcWait g have m: "snd (cl_chans (cl z) ! q) = Some m" by simp
    with calls_okD(2) [OF ok q(1) m] b q(2) CcWait a have "rw_id m = i" by simp
    moreover have "(i', Some m) \<in> set (cl_chans (cl z))" using nth_mem [OF q(1)] q(2) m by (metis prod.collapse)
    ultimately show ?thesis using b by (auto simp: held_def)
  qed (use g in auto)
qed

lemma count_sent:
  assumes "creachable h z" and "length (cc z) < 2 ^ 64" and "i \<noteq> []"
  shows "count (sent_ids (cl z)) i \<le> 1"
proof -
  have "fresh_ok (cc z) (unat (cl_counter (cl z))) (count (sent_ids (cl z)))"
    using creachable_fresh_inv [OF assms(1)] assms(2) by (simp add: fresh_inv_def)
  from fresh_okD(1) [OF this assms(3)] show ?thesis .
qed

lemma response_written:
  assumes "w \<in> set (written s)" and "response_id (fst w) = Some i"
  shows "i \<in># resp_ids s"
proof -
  obtain us vs where "written s = us @ w # vs" using split_list [OF assms(1)] by blast
  with assms(2) show ?thesis by (cases w) (simp add: resp_ids_def map_filter_def)
qed

lemma first_ids_subset: "first_ids p s \<subseteq># sent_ids s"
  using sum_list_take_mono [of p "length (cl_written s) + p" "\<lambda>w. line_ids (fst w)" "cl_written s"]
  by (simp add: first_ids_def sent_ids_def)

text \<open>C1: A call and its answer, end to end. When a call of the client finds a response (other than the error with
  which a broken connection ends all calls), then the client wrote one request with the id of the call, the
  call's own; the server took that request exactly once and wrote exactly one response to it; and what
  the call finds is that response. Assumed: fewer than \<open>2^64\<close> calls, and that the server did not panic.\<close>

theorem call_end_to_end:
  assumes "net_reachable env h n" and "crashed (ns n) = None" and "length (cc (nc n)) < 2 ^ 64"
    and "k < length (cc (nc n))" and "asks (cc (nc n) ! k) = Some (call, i)"
    and "gets (cc (nc n) ! k) (cl (nc n)) m" and "\<not> broken m"
  shows "\<exists>j l. call_request call i = Inr j \<and> Inr j \<in> fst ` set (cl_written (cl (nc n))) \<and>
    count (sent_ids (cl (nc n))) i = 1 \<and> count (mset (taken (ns n))) i = 1 \<and>
    count (resp_ids (srv (ns n))) i = 1 \<and>
    l \<in> fst ` set (written (srv (ns n))) \<and> response_id l = Some i \<and> parse_line l = Inr m"
proof -
  from net_sides [OF assms(1)] have s: "reachable env (ns n)" and c: "creachable h (nc n)" by auto
  from gets_held [OF c assms(4,6,7,5)] have m: "m \<in> held (nc n)" "rw_id m = i" by auto
  from net_link_inv [OF assms(1)] assms(2) m(1)
  obtain w where sub: "intake (ns n) \<subseteq># first_ids (to_server n) (cl (nc n))" and
    w: "w \<in> set (written (srv (ns n)))" "parse_line (fst w) = Inr m" "rw_method m = []"
    unfolding link_inv_def by blast
  from creachable_asked_inv [OF c] nth_mem [OF assms(4)] assms(5) obtain j e where
    j: "call_request call i = Inr j" "(Inr j, e) \<in> set (cl_written (cl (nc n)))"
    unfolding asked_inv_def by blast
  from creachable_ids_inv [OF c] assms(3) have "ids_ok (cc (nc n)) (unat (cl_counter (cl (nc n))))"
    by (simp add: ids_inv_def)
  from ids_okD(1) [OF this assms(4), of i] assms(5) have i: "i \<noteq> []" by (cases "cc (nc n) ! k") auto
  from reachable_sent_line [OF s w(1)] w(2,3) m(2) i have r: "response_id (fst w) = Some i"
    by (simp add: sent_line_def)
  from response_written [OF w(1) r] have "count (resp_ids (srv (ns n))) i \<ge> 1" by (simp add: Suc_le_eq)
  moreover from reachable_account [OF s] assms(2) have "resp_ids (srv (ns n)) \<subseteq># mset (taken (ns n))"
    by (metis account_def mset_subset_eq_add_left)
  then have "count (resp_ids (srv (ns n))) i \<le> count (mset (taken (ns n))) i" by (rule mset_subset_eq_count)
  moreover have "mset (taken (ns n)) \<subseteq># intake (ns n)" by (simp add: intake_def add.assoc)
  then have "count (mset (taken (ns n))) i \<le> count (sent_ids (cl (nc n))) i"
    using sub first_ids_subset by (meson mset_subset_eq_count subset_mset.order_trans)
  moreover have "count (sent_ids (cl (nc n))) i \<le> 1" by (rule count_sent [OF c assms(3) i])
  ultimately have "count (sent_ids (cl (nc n))) i = 1 \<and> count (mset (taken (ns n))) i = 1 \<and>
    count (resp_ids (srv (ns n))) i = 1" by linarith
  moreover have "Inr j \<in> fst ` set (cl_written (cl (nc n)))" using imageI [OF j(2), of fst] by simp
  ultimately show ?thesis using j(1) imageI [OF w(1), of fst] w(2) r by blast
qed

theorem call_end_to_end_witness:
  "\<exists>m l. snd (cl_chans (cl (nc demo_net)) ! 0) = Some m \<and> l \<in> fst ` set (written (srv (ns demo_net))) \<and>
    response_id l = Some ''req-1'' \<and> parse_line l = Inr m \<and> count (resp_ids (srv (ns demo_net))) ''req-1'' = 1"
proof -
  note f = demo_net_facts
  from f obtain m where m: "snd (cl_chans (cl (nc demo_net)) ! 0) = Some m" "rw_error m = None"
    by (auto split: option.splits)
  have b: "\<not> broken m" using m(2) by (auto simp: broken_def)
  have p: "cc (nc demo_net) ! 0 = CcWait demo_init ''req-1'' 0" "crashed (ns demo_net) = None"
    "length (cc (nc demo_net)) < 2 ^ 64" "0 < length (cc (nc demo_net))" using f by auto
  have "asks (cc (nc demo_net) ! 0) = Some (demo_init, ''req-1'')" "gets (cc (nc demo_net) ! 0) (cl (nc demo_net)) m"
    using p(1) m(1) by simp_all
  from call_end_to_end [OF demo_net_reachable p(2,3,4) this b] m(1) show ?thesis by blast
qed

section \<open>An agent's request and its reply\<close>

text \<open>C2: An agent's request and its reply, end to end. When \<open>RequestApproval\<close>, \<open>CallExternalTool\<close>,
  \<open>AskQuestion\<close> or \<open>TriggerHook\<close> returns a reply that came over the link, then the server wrote exactly
  one request line with the id of that call, the request the agent made; the client's \<open>Dispatch\<close> took the
  message that this line reads as; and the reply is the value with which the client's handler
  answered that request, decoded. Assumed: fewer than \<open>2^64\<close> requests.\<close>

theorem reply_end_to_end:
  assumes "net_reachable env h n" and "length (chans (srv (ns n))) < 2 ^ 64"
    and "k < length (tg (ns n))" and "tg (ns n) ! k = (i, TAwait call j q f)"
    and "await c call j q (srv (ns n)) = Some (Inr reply, s)"
  shows "\<exists>req p raw v. requests call req \<and> MarshalRequest (Some req) = Inr p \<and>
    filter (\<lambda>l. request_id l = j) (req_lines (srv (ns n))) = [Inr (rpc_request ''request'' j p)] \<and>
    raw \<in> set (handled (nc n)) \<and> parse_line (Inr (rpc_request ''request'' j p)) = Inr raw \<and>
    HandleRequest h (norm_request req) = Inr (Inr v) \<and> conclude call (Inr (Some v)) = Inr reply"
  by (rule await_answered [OF assms])

text \<open>A prompt, the agent's approval request, the handler's answer, and the response in the agent's channel.\<close>

definition demo_approver :: handler where
  "demo_approver = \<lparr>HandleEvent = (\<lambda>e. None),
     HandleRequest = (\<lambda>r. Inr (Inr (JObj [(''request_id'', JStr ''a''), (''response'', JStr ''approve'')])))\<rparr>"

definition demo_round :: "(net_actor \<times> nat) list" where
  "demo_round = [(AtClient CNew, 0), (AtClient (CCall 0), 0), (AtClient (CCall 0), 0),
     (AtServer Reader, 0), (AtServer Reader, 0), (AtServer Looper, 0), (AtServer Looper, 0),
     (AtServer (TurnG 0), 0), (AtServer (TurnG 0), 0),
     (AtClient CReader, 1), (AtClient CReader, 0), (AtClient CDispatch, 0), (AtClient CDispatch, 0),
     (AtServer Reader, 1), (AtServer Reader, 0)]"

definition demo_replied :: "(in_memory, in_memory) net" where
  "demo_replied = (case nplay demo_env demo_approver demo_round (demo_choice\<lparr>ch_input := Inr (Inr JNull), ch_prog := demo_prog\<rparr>)
     (demo_cchoice\<lparr>cx_input := Inr (Inr JNull), cx_call := CallPrompt zero_user_input\<rparr>) demo_link of Some n \<Rightarrow> n)"

lemma demo_replied_facts:
  "nplay demo_env demo_approver demo_round (demo_choice\<lparr>ch_input := Inr (Inr JNull), ch_prog := demo_prog\<rparr>)
     (demo_cchoice\<lparr>cx_input := Inr (Inr JNull), cx_call := CallPrompt zero_user_input\<rparr>) demo_link \<noteq> None \<and>
   length (chans (srv (ns demo_replied))) = 1 \<and> length (tg (ns demo_replied)) = 1 \<and>
   is_await (snd (tg (ns demo_replied) ! 0)) \<and>
   (case await demo_choice (RequestApproval demo_request) ''srv-1'' 0 (srv (ns demo_replied)) of
      Some (Inr reply, s) \<Rightarrow> True | _ \<Rightarrow> False)"
  by code_simp

lemma demo_replied_reachable: "net_reachable demo_env demo_approver demo_replied"
proof -
  have "Serve None (New NewInMemoryTransport (im_WriteLine 0) []) = Inr demo_start"
    by (simp add: demo_start_def Serve_def New_fields)
  then have "net_reachable demo_env demo_approver demo_link" unfolding demo_link_def by (rule net_reachable.nstart)
  with demo_replied_facts net_reachable_play show ?thesis by (auto simp: demo_replied_def)
qed

theorem reply_end_to_end_witness:
  "\<exists>p raw reply s. filter (\<lambda>l. request_id l = ''srv-1'') (req_lines (srv (ns demo_replied))) =
      [Inr (rpc_request ''request'' ''srv-1'' p)] \<and> raw \<in> set (handled (nc demo_replied)) \<and>
    await demo_choice (RequestApproval demo_request) ''srv-1'' 0 (srv (ns demo_replied)) = Some (Inr reply, s)"
proof -
  note e = demo_replied_facts
  then obtain reply s f where a: "await demo_choice (RequestApproval demo_request) ''srv-1'' 0 (srv (ns demo_replied)) = Some (Inr reply, s)"
    "tg (ns demo_replied) ! 0 = (fst (tg (ns demo_replied) ! 0), TAwait (RequestApproval demo_request) ''srv-1'' 0 f)"
    by (cases "tg (ns demo_replied) ! 0") (auto simp: is_await_def split: option.splits sum.splits prod.splits turn_pc.splits)
  from e have "length (chans (srv (ns demo_replied))) < 2 ^ 64" "0 < length (tg (ns demo_replied))" by auto
  from reply_end_to_end [OF demo_replied_reachable this a(2,1)] a(1) show ?thesis by blast
qed

end
