(* ===== verification/Echo_Server.thy ===== *)
theory Echo_Server
  imports Process_Transport Net_Answers
begin

text \<open>
  \<open>examples/echo-server/main.go\<close> and \<open>examples/quickstart/main.go\<close>: an agent that asks for approval, calls an
  external tool and echoes its prompt, its transport over the standard streams, and the two main
  functions. The agent runs on the server of \<open>Server_Turns\<close>, connected to any client.
\<close>

section \<open>The standard streams\<close>

text \<open>The text still to come on standard input and the error with which it ends; the text written to standard
  output, and whether that is open.\<close>

record stdioTransport =
  sd_in :: string
  sd_end :: go_error
  sd_out :: string
  sd_open :: bool

definition stdio_ReadLine :: "stdioTransport \<Rightarrow> (go_error + string) \<times> stdioTransport" where
  "stdio_ReadLine t = (case ReadString (sd_in t) of (line, found, rest) \<Rightarrow>
     (if found then Inr (take (length line - 1) line) else Inl (sd_end t), t\<lparr>sd_in := rest\<rparr>))"

text \<open>\<open>fmt.Fprintln\<close>; a closed file is the only error that is not the operating system's.\<close>

definition stdio_WriteLine :: "string \<Rightarrow> stdioTransport \<Rightarrow> go_error option \<times> stdioTransport" where
  "stdio_WriteLine line t =
     (if sd_open t then (None, t\<lparr>sd_out := sd_out t @ line @ newline\<rparr>)
      else (Some (PlainErr ''write /dev/stdout: file already closed''), t))"

definition stdio_Close :: "stdioTransport \<Rightarrow> go_error option \<times> stdioTransport" where
  "stdio_Close t = (None, t\<lparr>sd_open := False\<rparr>)"

fun stdio_lines :: "nat \<Rightarrow> stdioTransport \<Rightarrow> (go_error + string) list \<times> stdioTransport" where
  "stdio_lines 0 t = ([], t)"
| "stdio_lines (Suc n) t = (case stdio_ReadLine t of
     (r, t1) \<Rightarrow> (case stdio_lines n t1 of (rs, t2) \<Rightarrow> (r # rs, t2)))"

text \<open>What a client writes line by line is read line by line; a last line without its newline is lost.\<close>

lemma stdio_reads:
  assumes "list_all (\<lambda>l. CHR 0x0A \<notin> set l) (fin # ls)"
    and "sd_in t = concat (map (\<lambda>l. l @ newline) ls) @ fin"
  shows "fst (stdio_lines (length ls + 1) t) = map Inr ls @ [Inl (sd_end t)]"
  using assms
proof (induction ls arbitrary: t)
  case Nil
  then show ?case by (simp add: stdio_ReadLine_def ReadString_none)
next
  case (Cons l ls)
  let ?t = "t\<lparr>sd_in := concat (map (\<lambda>l. l @ newline) ls) @ fin\<rparr>"
  have "stdio_ReadLine t = (Inr l, ?t)"
    using Cons.prems ReadString_line [of l "concat (map (\<lambda>l. l @ newline) ls) @ fin"]
    by (simp add: stdio_ReadLine_def) (simp add: newline_def)
  moreover have "length ls + 1 = Suc (length ls)" by simp
  ultimately have "fst (stdio_lines (length (l # ls) + 1) t) = Inr l # fst (stdio_lines (length ls + 1) ?t)"
    by (simp del: stdio_lines.simps(2) add: stdio_lines.simps(2) [of "Suc (length ls)"] split: prod.split)
  with Cons.IH [of ?t] Cons.prems(1) show ?case by simp
qed

section \<open>The agent\<close>

definition echo_approval :: approval_request where
  "echo_approval = zero_approval_request\<lparr>aq_id := ''approve-echo'', aq_tool_call_id := ''echo-1'',
     aq_sender := ''echo-server'', aq_action := ''echo'', aq_description := ''Echo user input back''\<rparr>"

definition echo_tool :: tool_call_request where
  "echo_tool = zero_tool_call_request\<lparr>tq_id := ''greet-tool'', tq_name := ''greeting''\<rparr>"

definition echo_cancelled :: prompt_result where
  "echo_cancelled = \<lparr>pr_status = PromptStatusCancelled, pr_steps = None\<rparr>"

definition echo_message :: "tool_call_response \<Rightarrow> user_input \<Rightarrow> string" where
  "echo_message greeting input = to_text (tr_output (tx_return_value greeting)) @ '' Echo: '' @
     (if ui_text input = [] then ''hello'' else ui_text input)"

definition echo_event :: "string \<Rightarrow> event" where
  "echo_event message = ContentPartEvent (zero_content_part\<lparr>cp_type := ContentPartTypeText,
     cp_text := Some \<lparr>tp_text = message\<rparr>\<rparr>)"

text \<open>\<open>Prompt\<close> after each of its requests. \<open>ctx\<close> is the error of its context when it emits. The reply of a
  call has the type of the call (\<open>conclude\<close>), so that the last case of each is not reached.\<close>

definition echo_greeted :: "go_error option \<Rightarrow> user_input \<Rightarrow> go_error + agent_reply \<Rightarrow> turn_prog" where
  "echo_greeted ctx input r = (case r of
     Inl err \<Rightarrow> TReturn echo_cancelled (Some err)
   | Inr (ToolReply greeting) \<Rightarrow> TEmit ctx (Some (echo_event (echo_message greeting input)))
       (\<lambda>_. TReturn \<lparr>pr_status = PromptStatusFinished, pr_steps = None\<rparr> None)
   | Inr _ \<Rightarrow> TReturn echo_cancelled None)"

definition echo_approved :: "go_error option \<Rightarrow> user_input \<Rightarrow> go_error + agent_reply \<Rightarrow> turn_prog" where
  "echo_approved ctx input r = (case r of
     Inl err \<Rightarrow> TReturn echo_cancelled (Some err)
   | Inr (ApprovalReply approval) \<Rightarrow>
       if ax_response approval \<noteq> ''approve'' then TReturn echo_cancelled None
       else TAsk (CallExternalTool echo_tool) (echo_greeted ctx input)
   | Inr _ \<Rightarrow> TReturn echo_cancelled None)"

definition echo_Prompt :: "go_error option \<Rightarrow> user_input \<Rightarrow> turn_prog" where
  "echo_Prompt ctx input = TAsk (RequestApproval echo_approval) (echo_approved ctx input)"

section \<open>The main functions\<close>

datatype main_outcome = Printed string | Fatal string | Served

text \<open>\<open>main\<close> of the echo server, given its flags and what \<open>Serve\<close> returns.\<close>

definition echo_main :: "bool \<Rightarrow> bool \<Rightarrow> bool \<Rightarrow> go_error option \<Rightarrow> main_outcome" where
  "echo_main wireMode show_info jsonInfo served =
     (if show_info \<and> jsonInfo then
        Printed (''{'' @ go_quote ''wire_protocol_version'' @ '':'' @ go_quote WireProtocolVersion @ ''}'')
      else if \<not> wireMode then Fatal ''run with --wire''
      else (case served of
        None \<Rightarrow> Served
      | Some err \<Rightarrow> if err \<noteq> EOF then Fatal (error_text err) else Served))"

definition echo_options :: "option_fn list" where
  "echo_options = [WithServerInfo ''echo-server'' ''0.1.0'']"

text \<open>\<open>main\<close> of the quickstart, given how its three calls end: what it prints and whether it closes the transport
  (\<open>log.Fatal\<close> ends the process, and deferred calls do not run).\<close>

definition quickstart_calls :: "client_call list" where
  "quickstart_calls = [CallInitialize (zero_initialize_params\<lparr>ip_protocol_version := WireProtocolVersion\<rparr>),
     CallPrompt (zero_user_input\<lparr>ui_text := ''Hello!''\<rparr>)]"

definition quickstart_main :: "go_error + unit \<Rightarrow> go_error + initialize_result \<Rightarrow> go_error + prompt_result \<Rightarrow>
    main_outcome \<times> bool" where
  "quickstart_main spawned initialized prompted = (case spawned of
     Inl err \<Rightarrow> (Fatal (error_text err), False)
   | Inr _ \<Rightarrow> (case initialized of
       Inl err \<Rightarrow> (Fatal (error_text err), False)
     | Inr _ \<Rightarrow> (case prompted of
         Inl err \<Rightarrow> (Fatal (error_text err), False)
       | Inr result \<Rightarrow> (Printed (''Status: '' @ pr_status result), True))))"

section \<open>A server that runs the agent\<close>

text \<open>The agent has none of the optional capabilities, and each turn runs \<open>Prompt\<close> on the input of its prompt.\<close>

definition echo_env :: "(string \<Rightarrow> regexp option) \<Rightarrow> env" where
  "echo_env cmp = \<lparr>compile = cmp, can_steer = False, can_replay = False, can_plan = False\<rparr>"

definition echo_choice :: "'t sys \<Rightarrow> 't choice \<Rightarrow> bool" where
  "echo_choice y c = (case lp y of LBegin i input k \<Rightarrow> ch_prog c = echo_Prompt (ch_ctx c) input | _ \<Rightarrow> True)"

inductive echo_net :: "(string \<Rightarrow> regexp option) \<Rightarrow> handler \<Rightarrow> ('t, 'u) net \<Rightarrow> bool" for cmp h where
  estart: "Serve parent (New t w echo_options) = Inr y \<Longrightarrow>
    echo_net cmp h (net_start y (client_start (WithDefaultTimeout dt (NewClient t' w'))))"
| estep: "echo_net cmp h n \<Longrightarrow> echo_choice (ns n) c \<Longrightarrow> net_step (echo_env cmp) h a c d i n = Some n' \<Longrightarrow>
    echo_net cmp h n'"

lemma echo_net_reachable: "echo_net cmp h n \<Longrightarrow> net_reachable (echo_env cmp) h n"
  by (induction rule: echo_net.induct) (auto intro: net_reachable.nstart net_reachable.nstep)

text \<open>The client's handler approved the echo.\<close>

definition echo_allowed :: "handler \<Rightarrow> bool" where
  "echo_allowed h \<longleftrightarrow> (\<exists>a. ax_response a = ''approve'' \<and> replied h (RequestApproval echo_approval) (ApprovalReply a))"

text \<open>Where a goroutine of the agent can be, with what has been answered before.\<close>

definition answered_by :: "handler \<Rightarrow> agent_call \<Rightarrow> go_error + agent_reply \<Rightarrow> bool" where
  "answered_by h call r \<longleftrightarrow> (\<forall>a. r = Inr a \<longrightarrow> replied h call a)"

definition echo_waits :: "handler \<Rightarrow> agent_call \<Rightarrow> (go_error + agent_reply \<Rightarrow> turn_prog) \<Rightarrow> bool" where
  "echo_waits h call f \<longleftrightarrow> (\<exists>ctx input. call = RequestApproval echo_approval \<and> f = echo_approved ctx input \<or>
     call = CallExternalTool echo_tool \<and> f = echo_greeted ctx input \<and> echo_allowed h)"

definition echo_prog :: "handler \<Rightarrow> turn_prog \<Rightarrow> bool" where
  "echo_prog h p \<longleftrightarrow> (\<exists>ctx input. p = echo_Prompt ctx input) \<or> (\<exists>r err. p = TReturn r err) \<or>
     (\<exists>call f r. echo_waits h call f \<and> p = f r \<and> answered_by h call r)"

fun echo_pc :: "handler \<Rightarrow> turn_pc \<Rightarrow> bool" where
  "echo_pc h (TRun p) = echo_prog h p"
| "echo_pc h (TWrite call req j q f) = echo_waits h call f"
| "echo_pc h (TAwait call j q f) = echo_waits h call f"
| "echo_pc h pc = True"

definition echo_inv :: "handler \<Rightarrow> 't sys \<Rightarrow> bool" where
  "echo_inv h y \<longleftrightarrow> (length (chans (srv y)) < 2 ^ 64 \<longrightarrow> (\<forall>t \<in> set (tg y). echo_pc h (snd t)))"

lemma replied_kind:
  assumes "replied h call a"
  shows "call = RequestApproval r \<Longrightarrow> \<exists>x. a = ApprovalReply x" "call = CallExternalTool t \<Longrightarrow> \<exists>x. a = ToolReply x"
  using assms by (auto simp: replied_def map_res_eq_Inr)

text \<open>What the agent does next, from each of these points.\<close>

lemma echo_prog_cases:
  assumes "echo_prog h p"
  shows "(\<exists>r err. p = TReturn r err) \<or> (\<exists>call f. p = TAsk call f \<and> echo_waits h call f) \<or>
    (\<exists>ctx g input. p = TEmit ctx (Some (echo_event (echo_message g input)))
        (\<lambda>_. TReturn \<lparr>pr_status = PromptStatusFinished, pr_steps = None\<rparr> None) \<and>
      echo_allowed h \<and> replied h (CallExternalTool echo_tool) (ToolReply g))"
proof -
  consider (start) ctx input where "p = echo_Prompt ctx input" | (ret) r err where "p = TReturn r err"
    | (told) call f r where "echo_waits h call f" "p = f r" "answered_by h call r"
    using assms unfolding echo_prog_def by blast
  then show ?thesis
  proof cases
    case start
    then show ?thesis by (auto simp: echo_Prompt_def echo_waits_def)
  next
    case told
    from told(1) consider (approval) ctx input where "call = RequestApproval echo_approval" "f = echo_approved ctx input"
      | (tool) ctx input where "call = CallExternalTool echo_tool" "f = echo_greeted ctx input" "echo_allowed h"
      unfolding echo_waits_def by blast
    then show ?thesis
    proof cases
      case approval
      with told(2,3) show ?thesis
        by (auto simp: echo_approved_def answered_by_def echo_waits_def echo_allowed_def split: sum.splits agent_reply.splits)
    next
      case tool
      with told(2,3) show ?thesis
        by (auto simp: echo_greeted_def answered_by_def split: sum.splits agent_reply.splits)
    qed
  qed simp
qed

section \<open>The invariant\<close>

lemma net_step_server_choice:
  assumes "net_step env h (AtServer a) c d i n = Some n'"
  shows "\<exists>c'. ch_prog c' = ch_prog c \<and> ch_ctx c' = ch_ctx c \<and> sys_step env a c' (ns n) = Some (ns n')"
proof (cases "a = Reader \<and> rd (ns n) = RRead \<and> \<not> isl (ch_input c)")
  case True
  with assms show ?thesis
    by (auto simp: net_step.simps split: if_splits option.splits intro!: exI [of _ "c\<lparr>ch_input := x\<rparr>" for x])
next
  case False
  with assms have "sys_step env a c (ns n) = Some (ns n')" by (auto simp: net_step.simps split: if_splits)
  then show ?thesis by blast
qed

lemma echo_turn_step:
  assumes pc: "echo_pc h pc" and st: "turn_step c k i pc s = Some (s', pc')"
    and reply: "\<And>call j q f a s1. pc = TAwait call j q f \<Longrightarrow> await c call j q s = Some (Inr a, s1) \<Longrightarrow> replied h call a"
  shows "echo_pc h pc'"
proof (cases pc)
  case (TRun p)
  with pc have "echo_prog h p" by simp
  from echo_prog_cases [OF this] consider (ret) r err where "p = TReturn r err"
    | (ask) call f where "p = TAsk call f" "echo_waits h call f"
    | (emit) ctx ev r err where "p = TEmit ctx ev (\<lambda>_. TReturn r err)" by blast
  then show ?thesis
  proof cases
    case ask
    then obtain req lim where "prepare (ch_pick c) (ch_dl c) s call = Inr (req, lim)"
      by (auto simp: echo_waits_def)
    with st TRun ask show ?thesis by (auto split: prod.splits)
  qed (use st TRun in \<open>auto simp: echo_prog_def split: prod.splits\<close>)
next
  case (TWrite call req j q f)
  have "echo_prog h (f (Inl e))" for e
    using pc TWrite by (force simp: echo_prog_def answered_by_def)
  with st pc TWrite show ?thesis by (auto split: prod.splits option.splits)
next
  case (TAwait call j q f)
  from st TAwait obtain r s1 where r: "await c call j q s = Some (r, s1)" "pc' = TRun (f r)" by auto
  have "answered_by h call r" using reply [OF TAwait] r(1) by (cases r) (auto simp: answered_by_def)
  with pc TAwait r(2) show ?thesis by (auto simp: echo_prog_def)
qed (use st in \<open>auto split: prod.splits option.splits\<close>)

lemma echo_inv_server:
  assumes n: "net_reachable env h n" and inv: "echo_inv h (ns n)" and ch: "echo_choice (ns n) c"
    and inp: "ch_prog c' = ch_prog c" "ch_ctx c' = ch_ctx c"
    and st: "sys_step env a c' (ns n) = Some y'"
  shows "echo_inv h y'"
proof -
  from st have st: "actor_step env a c' (ns n) = Some y'" by (auto simp: sys_step_def split: if_splits)
  have same: "echo_inv h y'"
    if "length (chans (srv (ns n))) \<le> length (chans (srv y'))" "\<forall>t \<in> set (tg y'). t \<in> set (tg (ns n)) \<or> echo_pc h (snd t)"
    using that inv by (auto simp: echo_inv_def)
  show ?thesis
  proof (cases a)
    case (TurnG k)
    with st obtain i pc s pc' where t: "k < length (tg (ns n))" "tg (ns n) ! k = (i, pc)"
      "turn_step c' k i pc (srv (ns n)) = Some (s, pc')" "srv y' = s" "tg y' = (tg (ns n))[k := (i, pc')]"
      by (auto split: if_splits prod.splits)
    have len: "length (chans (srv (ns n))) \<le> length (chans s)"
      using turn_step_refs [OF t(3)] by (auto simp: refs_kept_def dest: register_refs)
    have "echo_pc h pc'" if l: "length (chans s) < 2 ^ 64"
    proof (rule echo_turn_step [OF _ t(3)])
      from inv l len nth_mem [OF t(1)] t(2) show "echo_pc h pc" by (fastforce simp: echo_inv_def)
      fix call j q f x s1 assume w: "pc = TAwait call j q f" "await c' call j q (srv (ns n)) = Some (Inr x, s1)"
      from await_replied [OF n _ t(1) _ w(2)] l len t(2) w(1) show "replied h call x" by simp
    qed
    with inv len t(4,5) show ?thesis
      by (auto simp: echo_inv_def dest!: set_update_subset_insert [THEN subsetD])
  next
    case Looper
    with st have l: "loop_step env c' (lp (ns n)) (ns n) = Some y'" by simp
    have "\<forall>t \<in> set (tg y'). t \<in> set (tg (ns n)) \<or> echo_pc h (snd t)"
    proof (cases "lp (ns n)")
      case (LBegin i input k)
      with ch inp have "echo_prog h (ch_prog c')" by (auto simp: echo_choice_def echo_prog_def)
      with l LBegin show ?thesis by (auto split: prod.splits option.splits)
    qed (use l in \<open>auto simp: take_request_def Let_def dest!: go_select_in split: list.splits if_splits sum.splits prod.splits option.splits\<close>)
    with same_table_loop_step [OF l] show ?thesis by (intro same) (auto simp: same_table_def)
  next
    case Reader
    with st obtain s pc where s: "reader_step c' (rd (ns n)) (srv (ns n)) = Some (s, pc)" "y' = (ns n)\<lparr>srv := s, rd := pc\<rparr>" by auto
    from reader_chans [OF s(1)] s(2) show ?thesis by (intro same) auto
  next
    case (ReplayG k)
    with st obtain j pc s pc' where s: "replay_step k j pc (srv (ns n)) = Some (s, pc')" "srv y' = s" "tg y' = tg (ns n)"
      by (auto split: if_splits prod.splits)
    from same_table_replay_step [OF s(1)] s(2,3) show ?thesis by (intro same) (auto simp: same_table_def)
  next
    case Main
    with st obtain s pc where s: "serve_step c' (rd (ns n)) (lp (ns n)) (sv (ns n)) (srv (ns n)) = Some (s, pc)"
      "srv y' = s" "tg y' = tg (ns n)" by auto
    from serve_chans [OF s(1)] s(2,3) show ?thesis by (intro same) auto
  next
    case Parent
    with st have "chans (srv y') = chans (srv (ns n)) \<and> tg y' = tg (ns n)" by (auto split: option.splits)
    then show ?thesis by (intro same) auto
  next
    case Peer
    with st have "chans (srv y') = chans (srv (ns n)) \<and> tg y' = tg (ns n)" by auto
    then show ?thesis by (intro same) auto
  qed
qed

lemma echo_net_inv: "echo_net cmp h n \<Longrightarrow> echo_inv h (ns n)"
proof (induction rule: echo_net.induct)
  case (estart parent t w y dt t' w')
  then show ?case by (auto simp: echo_inv_def net_start_def Serve_def split: if_splits)
next
  case (estep n c a d i n')
  show ?case
  proof (cases a)
    case (AtServer b)
    from net_step_server_choice [OF estep(3) [unfolded AtServer]] obtain c' where
      "ch_prog c' = ch_prog c" "ch_ctx c' = ch_ctx c" "sys_step (echo_env cmp) b c' (ns n) = Some (ns n')" by blast
    with echo_inv_server [OF echo_net_reachable [OF estep(1)] estep.IH estep(2)] show ?thesis by blast
  next
    case (AtClient b)
    with net_step_client_line estep(3) have "ns n' = ns n" by blast
    with estep.IH show ?thesis by simp
  qed
qed

section \<open>Properties\<close>

text \<open>C12: The echo agent echoes only what it was allowed to. Whenever one of its turns is about to emit an event,
  then the client's handler has approved the agent's own approval request, has answered its tool call, and
  the event is one text part: the handler's greeting, followed by the text of a prompt, or by "hello" for a
  prompt without text. Assumed: fewer than \<open>2^64\<close> requests.\<close>

theorem echo_needs_approval:
  assumes "echo_net cmp h n" and "length (chans (srv (ns n))) < 2 ^ 64"
    and "k < length (tg (ns n))" and "snd (tg (ns n) ! k) = TRun (TEmit ctx ev f)"
  shows "\<exists>a g input. replied h (RequestApproval echo_approval) (ApprovalReply a) \<and> ax_response a = ''approve'' \<and>
    replied h (CallExternalTool echo_tool) (ToolReply g) \<and> ev = Some (echo_event (echo_message g input))"
proof -
  have "echo_prog h (TEmit ctx ev f)"
    using echo_net_inv [OF assms(1)] assms(2,4) nth_mem [OF assms(3)] by (fastforce simp: echo_inv_def)
  from echo_prog_cases [OF this] show ?thesis by (auto simp: echo_allowed_def)
qed

text \<open>A run up to the echo: the prompt "hi", both requests of the agent, answered by the handler.\<close>

definition demo_host :: handler where
  "demo_host = \<lparr>HandleEvent = (\<lambda>e. None), HandleRequest = (\<lambda>r. case r of
       ApprovalRequest a \<Rightarrow> Inr (Inr (enc_approval_response \<lparr>ax_request_id = aq_id a, ax_response = ''approve'', ax_feedback = []\<rparr>))
     | ToolCallRequest t \<Rightarrow> Inr (Inr (JObj [(''tool_call_id'', JStr (tq_id t)), (''return_value'',
         JObj [(''is_error'', JBool False), (''output'', JStr ''Welcome.''), (''message'', JStr []), (''display'', JArr [])])]))
     | _ \<Rightarrow> Inl EOF)\<rparr>"

definition demo_input :: user_input where
  "demo_input = zero_user_input\<lparr>ui_text := ''hi''\<rparr>"

definition echo_step_choice :: "in_memory choice" where
  "echo_step_choice = \<lparr>ch_pick = 0, ch_ctx = None, ch_dl = False, ch_input = Inr (Inr JNull),
     ch_prog = echo_Prompt None demo_input, ch_replay = EPanic [], ch_plan = (\<lambda>_. EPanic []), ch_steer = Inr None,
     ch_peer = (\<lambda>t. t), ch_late = False\<rparr>"

definition echo_client_choice :: "in_memory cchoice" where
  "echo_client_choice = \<lparr>cx_pick = 0, cx_ctx = None, cx_input = Inr (Inr JNull), cx_call = CallPrompt demo_input,
     cx_peer = (\<lambda>t. t)\<rparr>"

fun echo_play :: "handler \<Rightarrow> (net_actor \<times> nat) list \<Rightarrow> (in_memory, in_memory) net \<Rightarrow> (in_memory, in_memory) net option" where
  "echo_play h [] n = Some n"
| "echo_play h ((a, i) # sched) n =
     (if (case lp (ns n) of LBegin j input k \<Rightarrow> input = demo_input | _ \<Rightarrow> True) then
        (case net_step (echo_env (\<lambda>_. None)) h a echo_step_choice echo_client_choice i n of
           None \<Rightarrow> None | Some n' \<Rightarrow> echo_play h sched n')
      else None)"

lemma echo_net_play:
  "echo_net (\<lambda>_. None) h n \<Longrightarrow> echo_play h sched n = Some n' \<Longrightarrow> echo_net (\<lambda>_. None) h n'"
proof (induction h sched n rule: echo_play.induct)
  case (2 h a i sched n)
  then have "echo_choice (ns n) echo_step_choice"
    by (auto simp: echo_choice_def echo_step_choice_def split: loop_pc.splits if_splits)
  with 2 show ?case by (auto intro: echo_net.estep split: if_splits option.splits)
qed simp

definition echo_round :: "nat \<Rightarrow> nat \<Rightarrow> (net_actor \<times> nat) list" where
  "echo_round i j = [(AtServer (TurnG 0), 0), (AtServer (TurnG 0), 0),
     (AtClient CReader, i), (AtClient CReader, 0), (AtClient CDispatch, 0), (AtClient CDispatch, 0),
     (AtServer Reader, j), (AtServer Reader, 0), (AtServer (TurnG 0), 0)]"

definition echo_sched :: "(net_actor \<times> nat) list" where
  "echo_sched = [(AtClient CNew, 0), (AtClient (CCall 0), 0), (AtClient (CCall 0), 0),
     (AtServer Reader, 0), (AtServer Reader, 0), (AtServer Looper, 0), (AtServer Looper, 0)] @
     echo_round 1 1 @ echo_round 2 2"

definition echo_start :: "(in_memory, in_memory) net" where
  "echo_start = net_start (case Serve None (New NewInMemoryTransport (im_WriteLine 0) echo_options) of Inr y \<Rightarrow> y)
     (client_start (WithDefaultTimeout 0 (NewClient NewInMemoryTransport (im_WriteLine 0))))"

definition echo_demo :: "(in_memory, in_memory) net" where
  "echo_demo = (case echo_play demo_host echo_sched echo_start of Some n \<Rightarrow> n)"

lemma echo_demo_facts:
  "echo_play demo_host echo_sched echo_start \<noteq> None \<and> length (chans (srv (ns echo_demo))) = 2 \<and>
   length (tg (ns echo_demo)) = 1 \<and> (case snd (tg (ns echo_demo) ! 0) of
     TRun (TEmit ctx ev f) \<Rightarrow> ev = Some (echo_event ''Welcome. Echo: hi'') | _ \<Rightarrow> False)"
  by code_simp

lemma echo_demo_net: "echo_net (\<lambda>_. None) demo_host echo_demo"
proof -
  have "Serve None (New NewInMemoryTransport (im_WriteLine 0) echo_options) =
      Inr (case Serve None (New NewInMemoryTransport (im_WriteLine 0) echo_options) of Inr y \<Rightarrow> y)"
    by (simp add: Serve_def New_fields)
  from echo_net.estart [OF this] have "echo_net (\<lambda>_. None) demo_host echo_start" by (simp add: echo_start_def)
  with echo_demo_facts echo_net_play show ?thesis by (auto simp: echo_demo_def)
qed

theorem echo_needs_approval_witness:
  "\<exists>a g input. replied demo_host (RequestApproval echo_approval) (ApprovalReply a) \<and> ax_response a = ''approve'' \<and>
    replied demo_host (CallExternalTool echo_tool) (ToolReply g) \<and> echo_event ''Welcome. Echo: hi'' = echo_event (echo_message g input)"
proof -
  note e = echo_demo_facts
  then obtain ctx f where p: "snd (tg (ns echo_demo) ! 0) = TRun (TEmit ctx (Some (echo_event ''Welcome. Echo: hi'')) f)"
    by (auto split: turn_pc.splits turn_prog.splits)
  from e have "length (chans (srv (ns echo_demo))) < 2 ^ 64" "0 < length (tg (ns echo_demo))" by auto
  from echo_needs_approval [OF echo_demo_net this p] show ?thesis by auto
qed

text \<open>The quickstart closes its transport only when everything went well: on any error \<open>log.Fatal\<close> ends the
  process before the deferred \<open>Close\<close>, and the child process is left running.\<close>

lemma quickstart_closes:
  "snd (quickstart_main spawned initialized prompted) \<longleftrightarrow> \<not> isl spawned \<and> \<not> isl initialized \<and> \<not> isl prompted"
  by (auto simp: quickstart_main_def split: sum.split)

end
