(* ===== verification/Spec2Isabelle.thy ===== *)
theory Spec2Isabelle
  imports Process_Spawn Json_Text Net_Properties Echo_Server
begin

text \<open>
  A verification development for the Go implementation of the Kimi wire protocol: JSON-RPC messages,
  one per line, between a client (an editor) and a server (an agent).

  The program. \<open>protocol/\<close> holds the data that goes over the wire with its JSON codecs; \<open>message.go\<close>
  turns a raw message into an event, a request or a response. \<open>transport/\<close> moves lines. \<open>server/\<close> runs
  an agent: \<open>readLoop\<close> takes lines from the transport, gives responses to the goroutine that waits for
  them and queues requests; \<open>serveLoop\<close> handles the queue, starts one goroutine for each prompt (a
  turn) and each replay, and a turn may itself ask the client (approval, tool call, question, hook).
  \<open>client.go\<close> and \<open>dispatch.go\<close> are the other side: a reader goroutine, calls that wait for their
  response, and \<open>Dispatch\<close>, which hands events and requests to a handler. \<open>internal/redact\<close> masks
  secrets in errors and logs before they leave the process.

  Theories, lowest first.

  \<^item> \<open>Prelude\<close>: lemmas on lists, maps, words and numbers that the others share.
  \<^item> \<open>Json\<close>: what \<open>encoding/json\<close> does on JSON values; the decoder combinators \<open>dec_struct\<close>, \<open>fld\<close>.
  \<^item> \<open>Content\<close>, \<open>Events\<close>, \<open>Requests\<close>, \<open>Methods\<close>: \<open>protocol_content.go\<close>, \<open>protocol_event.go\<close>,
    \<open>protocol_request.go\<close>, \<open>protocol_method.go\<close>. A struct is a record with a prefix for its fields,
    an interface a datatype with one constructor per struct. \<open>norm_x\<close> is what a value of type \<open>x\<close> is
    after one trip over the wire; the round-trip lemmas show that reading what was written gives it.
  \<^item> \<open>Go_Error\<close>: error values, \<open>WireError\<close> of \<open>error.go\<close>.
  \<^item> \<open>Messages\<close>: \<open>protocol_jsonrpc.go\<close> and \<open>message.go\<close>, the envelopes and \<open>ParseWireMessage\<close>.
  \<^item> \<open>Go_Regexp\<close>, \<open>Redact\<close>: the regular expressions used and \<open>internal/redact/redact.go\<close>.
  \<^item> \<open>Version\<close>: \<open>negotiateVersion\<close> and \<open>semverCompare\<close> of \<open>server/server.go\<close>, with Go's 64-bit \<open>int\<close>.
  \<^item> \<open>Transports\<close>: the \<open>Transport\<close> interface as a locale, the in-memory transport and the channel
    pair that implement it. \<open>Process_Transport\<close>, \<open>Process_Spawn\<close>: \<open>transport_process.go\<close>, whose pipes are
    text, and the calls by which it starts the process, with the pipe ends held after each.
    \<open>Json_Text\<close>: how \<open>encoding/json\<close> prints a value and scans a text, and that messages printed and
    written to a pipe are read back and parse to what was sent.
  \<^item> \<open>Server_State\<close>, \<open>Server_Init\<close>, \<open>Server_Requests\<close>, \<open>Server_Turns\<close>: the server's record, its options,
    \<open>initialize\<close> and \<open>set_plan_mode\<close>, the requests of an agent to the client (\<open>request.go\<close>), and the
    five kinds of goroutine as state machines, \<open>actor_step\<close> being one atomic step of one of them.
  \<^item> \<open>Server_Answers\<close>, \<open>Server_Frames\<close>, \<open>Server_Exclusive\<close>, \<open>Server_Matching\<close>, \<open>Server_Cancel\<close>,
    \<open>Server_Shutdown\<close>: \<open>sys_step\<close>
    adds to \<open>actor_step\<close> what the properties speak about, \<open>reachable\<close> is every schedule, and each
    theory proves one invariant of it: every request is answered once; one turn or replay at a time,
    its events bracketed; a response channel holds a message for its own request; a cancel waits for
    a turn that has ended; after the end of the input \<open>Serve\<close> returns. \<open>Server_Refs\<close>: every index that
    stands for a pointer is within bounds. \<open>Server_Frames\<close> is the locale of what sending a message
    leaves alone, interpreted once by each invariant. \<open>Server_Schedules\<close> has the run on which
    witnesses evaluate, \<open>Server_Properties\<close> the properties.
  \<^item> \<open>Client\<close>, \<open>Client_Runs\<close>, \<open>Client_Properties\<close>: the same for the client.
  \<^item> \<open>Server_Intake\<close>, \<open>Server_Asked\<close>, \<open>Client_Sent\<close>, \<open>Client_Answers\<close>: what each side takes in and puts
    out, as its composition with the other needs it: the ids of the requests it wrote, each once,
    and where each message that it hands on was read. \<open>Net\<close>, \<open>Net_Answers\<close>: a client and a server at
    the two ends of a link, all steps of both interleaved; their invariants follow a message from the
    record of one side to the other. \<open>Net_Properties\<close>: a call and its answer, an agent's request and
    its reply, each over the whole link.
  \<^item> \<open>Echo_Server\<close>: \<open>examples/\<close>, the echo agent as a program on that server, its transport, the two main functions.
  \<^item> This theory: the two sides together, a handshake and a request of the agent, line by line.

  Conventions. A pointer shared by goroutines is an index into a list of the record (turns, response
  channels). A context is its error, \<open>None\<close> while it is alive. A mutex section, a channel operation, a
  \<open>select\<close>, a read and a write are atomic; between two of them any other goroutine may step. What
  the outside decides (lines read, the agent's next action, which ready case a \<open>select\<close> takes, the
  failure of a write) is an argument, and the properties hold for all of them. A write that fails
  is a value; \<open>written\<close>, \<open>cl_written\<close>, \<open>logs\<close>, \<open>seen\<close> and the like record what happened for the
  statements, and no step reads them. Counters are words of the code's width. The link of \<open>Net\<close>
  delivers lines in the order of the calls of \<open>WriteLine\<close>, each at most once; it may lose lines,
  and a read may fail at any time. Both transports here are such links.

  Bounds. The request ids of the server and of the client are distinct as long as fewer than \<open>2^64\<close>
  requests are made by one process; the properties about matching responses state this as the bound
  on the counter. Every function here is total. In the
  regular-expression matcher an unbounded repetition has as many rounds as there are bytes left
  (\<open>star_m\<close>), which is enough since an iteration that takes nothing is not repeated, as in the
  library. A turn whose
  agent has returned needs at most five more steps (\<open>end_rank\<close>).

  Not modelled, and why.

  \<^item> \<open>protocol.go\<close>, \<open>transport.go\<close>, \<open>server.go\<close>, \<open>internal.go\<close>, \<open>doc.go\<close> in the root: aliases of the names
    above. The parsing of command line flags in \<open>examples/\<close>.
  \<^item> JSON as text outside \<open>Json_Text\<close>: everywhere else messages are JSON values. \<open>Json_Text\<close> takes numbers
    in the form in which they are printed and goes to the 10000 levels of nesting of the library, with the
    length of the text as fuel, which is enough (\<open>scan_fuel_length\<close>). The texts of the library's own error
    messages are shortened. Parsing a regular expression: the patterns are syntax trees, and the compiler of
    hook matchers is the parameter \<open>compile\<close>.
  \<^item> The operating system: the results of its calls are arguments, and signalling and awaiting the child
    process is one flag; the panics of constructors on nil arguments; \<open>WithLogger\<close>, as any logger is given what \<open>logs\<close> holds.
  \<^item> An agent that calls one \<open>Turn\<close> from several goroutines, or \<open>Dispatch\<close> called twice at a time. The
    agent itself is a program of actions (\<open>turn_prog\<close>, \<open>emit_prog\<close>), so every agent is covered
    whose actions depend on what its earlier actions returned; an agent that never ends is covered
    through its finite beginnings, as every run of the system is a finite one.
  \<^item> Finer interleaving of two places: \<open>handleSetPlanMode\<close> with its agent, and the two \<open>closePending\<close>
    with their sends, are one step each.
\<close>

section \<open>A client and a server\<close>

text \<open>C10: The handshake end to end. The line that the client's \<open>Initialize\<close> writes is taken by a server that has not
  been initialized as its first \<open>initialize\<close>, and answered with one line; from that line the client
  reads, for the same id, a result with the version, the server info and the capabilities that the
  server keeps, the version being the negotiated one of the version asked for.\<close>

theorem initialize_end_to_end:
  assumes "\<not> handshakeDone s"
  shows "\<exists>line raw s' resp e msg r.
    call_request (CallInitialize p) i = Inr line \<and> parse_line (Inr line) = Inr raw \<and>
    dispatch env c raw s = Inr (s', LIdle) \<and> written s' = written s @ [(Inr resp, e)] \<and>
    parse_line (Inr resp) = Inr msg \<and> rw_id msg = i \<and>
    decode_reply_to (CallInitialize p) msg = Inr (InitializeReply r) \<and>
    handshakeDone s' \<and> ir_protocol_version r = negotiated s' \<and>
    negotiated s' = negotiateVersion (ip_protocol_version p) \<and> ir_server r = info s' \<and>
    ir_capabilities r = Some (serverCaps s')"
proof -
  let ?j = "enc_initialize_params p" and ?s' = "handleInitialize (compile env) i (Some (enc_initialize_params p)) s"
  have "unmarshal dec_initialize_params zero_initialize_params (Some ?j) = Inr (norm_initialize_params p)"
    by (simp add: dec_enc_initialize_params)
  from initialize_agreement [OF assms this refl, of "compile env" i] obtain r e where
    w: "written ?s' = written s @ [(Inr (rpc_success i (enc_initialize_result r)), e)]" and
    d: "dec_initialize_result zero_initialize_result (enc_initialize_result r) = Inr (norm_initialize_result r)" and
    f: "handshakeDone ?s'" "ir_protocol_version (norm_initialize_result r) = negotiated ?s'"
      "negotiated ?s' = negotiateVersion (ip_protocol_version (norm_initialize_params p))"
      "ir_server (norm_initialize_result r) = info ?s'" "ir_capabilities (norm_initialize_result r) = Some (serverCaps ?s')"
    by blast
  have v: "ip_protocol_version (norm_initialize_params p) = ip_protocol_version p"
    by (simp add: norm_initialize_params_def)
  show ?thesis
    using w d f
    by (intro exI conjI) (auto simp: call_request_def parse_rpc dispatch_def Let_def decodeResponse_def v)
qed

theorem initialize_end_to_end_witness:
  "\<exists>s' raw msg r. dispatch demo_env demo_choice raw (New NewInMemoryTransport (im_WriteLine 0) []) = Inr (s', LIdle) \<and>
    rw_method raw = ''initialize'' \<and> rw_id msg = ''req-1'' \<and>
    decode_reply_to (CallInitialize (zero_initialize_params\<lparr>ip_protocol_version := ''1.5''\<rparr>)) msg = Inr (InitializeReply r) \<and>
    ir_protocol_version r = ''1.5''"
proof -
  have n: "negotiateVersion ''1.5'' = ''1.5''" by code_simp
  have h: "\<not> handshakeDone (New NewInMemoryTransport (im_WriteLine 0) [])" by (simp add: New_def New_base_def)
  from initialize_end_to_end [OF h, of "zero_initialize_params\<lparr>ip_protocol_version := ''1.5''\<rparr>" "''req-1''" demo_env demo_choice] n
  show ?thesis by (fastforce simp: call_request_def parse_rpc)
qed

lemma after_send_write:
  "\<exists>t pc e. after_send (client_writeMessage ctx (Inr line) cs) = (t, pc) \<and>
    cl_written t = cl_written cs @ [(Inr line, e)]"
  by (auto simp: after_send_def client_writeMessage_def client_write_def split: prod.splits option.splits)

text \<open>C11: A request of the agent end to end. The line that the server writes for a request is handled by the client's
  \<open>Dispatch\<close> with the same request in normal form, and answered with one line; from that line the
  server's read loop takes the channel of the waiting goroutine and the message whose result is the
  handler's value, or whose error is -32603 with the handler's redacted error.\<close>

theorem agent_request_end_to_end:
  assumes "MarshalRequest (Some req) = Inr p" and "HandleRequest h (norm_request req) = outcome"
    and "\<forall>err. outcome \<noteq> Inr (Inl err)" and "map_of (pending s) j = Some q" and "j \<noteq> []"
  shows "\<exists>raw t pc line e s' msg.
    parse_line (Inr (rpc_request ''request'' j p)) = Inr raw \<and>
    dispatch_step h pick None (DpHandle raw) cs = Some (t, pc) \<and>
    cl_written t = cl_written cs @ [(Inr line, e)] \<and>
    receive_line (Inr line) s = (s', RRoute q msg) \<and> map_of (pending s') j = None \<and>
    response_result msg = (case outcome of
       Inr (Inr v) \<Rightarrow> Inr (Some v)
     | Inl err \<Rightarrow> Inl (CodedErr (-32603) (RedactString (RedactString (RedactString (error_text err))))))"
proof -
  have route: "\<exists>s'. receive_line (Inr line) s = (s', RRoute q msg) \<and> map_of (pending s') j = None"
    if "parse_line (Inr line) = Inr msg" "rw_id msg = j" "rw_method msg = []" for line msg
    using that assms(4,5) by (auto simp: receive_line_def route_lookup_def delete_conv)
  have raw: "parse_line (Inr (rpc_request ''request'' j p)) = Inr \<lparr>rw_jsonrpc = ''2.0'', rw_id = j,
      rw_method = ''request'', rw_params = Some p, rw_result = None, rw_error = None\<rparr>" (is "_ = Inr ?raw")
    by (simp add: parse_rpc)
  have parsed: "ParseWireMessage ?raw = Inr (RequestMessage ''2.0'' ''request'' j (norm_request req))"
    by (simp add: ParseWireMessage_def ParseRequest_MarshalRequest [OF assms(1)])
  show ?thesis
  proof (cases outcome)
    case (Inl err)
    let ?e = "\<lparr>je_code = -32603, je_message = RedactString (RedactString (error_text err)), je_data = None\<rparr>"
    have m: "parse_line (Inr (rpc_error j ?e)) = Inr \<lparr>rw_jsonrpc = ''2.0'', rw_id = j, rw_method = [],
      rw_params = None, rw_result = None, rw_error = Some ?e\<rparr>"
      by (rule parse_rpc_error) (simp add: code_ok_def)
    from route [OF m] obtain s' where "receive_line (Inr (rpc_error j ?e)) s = (s', RRoute q
        \<lparr>rw_jsonrpc = ''2.0'', rw_id = j, rw_method = [], rw_params = None, rw_result = None, rw_error = Some ?e\<rparr>)"
      "map_of (pending s') j = None" by auto
    moreover obtain t pc e where "after_send (client_writeMessage None (Inr (rpc_error j ?e)) cs) = (t, pc)"
      "cl_written t = cl_written cs @ [(Inr (rpc_error j ?e), e)]" using after_send_write by blast
    ultimately show ?thesis
      using raw parsed assms(2) Inl
      by (intro exI conjI) (auto simp: SendError_def response_result_def)
  next
    case (Inr res)
    with assms(3) obtain v where v: "outcome = Inr (Inr v)" by (cases res) auto
    have m: "parse_line (Inr (rpc_success j v)) = Inr \<lparr>rw_jsonrpc = ''2.0'', rw_id = j, rw_method = [],
      rw_params = None, rw_result = Some v, rw_error = None\<rparr>"
      by (rule parse_rpc_success)
    from route [OF m] obtain s' where "receive_line (Inr (rpc_success j v)) s = (s', RRoute q
        \<lparr>rw_jsonrpc = ''2.0'', rw_id = j, rw_method = [], rw_params = None, rw_result = Some v, rw_error = None\<rparr>)"
      "map_of (pending s') j = None" by auto
    moreover obtain t pc e where "after_send (client_writeMessage None (Inr (rpc_success j v)) cs) = (t, pc)"
      "cl_written t = cl_written cs @ [(Inr (rpc_success j v), e)]" using after_send_write by blast
    ultimately show ?thesis
      using raw parsed assms(2) v
      by (intro exI conjI) (auto simp: SendResponse_def response_result_def)
  qed
qed

theorem agent_request_end_to_end_witness:
  "\<exists>raw t pc line e s' msg.
    dispatch_step demo_handler 0 None (DpHandle raw) (cl demo_sending) = Some (t, pc) \<and>
    cl_written t = cl_written (cl demo_sending) @ [(Inr line, e)] \<and>
    receive_line (Inr line) (srv demo_waiting) = (s', RRoute 0 msg) \<and> response_result msg = Inr (Some (JObj []))"
proof -
  obtain p where p: "MarshalRequest (Some (ApprovalRequest demo_request)) = Inr p" using MarshalRequest_ok by blast
  have o: "HandleRequest demo_handler (norm_request (ApprovalRequest demo_request)) = Inr (Inr (JObj []))"
    by (simp add: demo_handler_def)
  have q: "map_of (pending (srv demo_waiting)) ''srv-1'' = Some 0" by code_simp
  from agent_request_end_to_end [OF p o _ q, of 0 "cl demo_sending"] show ?thesis by fastforce
qed

end
